(* ===== verification/Prelude.thy ===== *)
theory Prelude
  imports Main "HOL-Library.Word" "HOL-Library.Monad_Syntax"
begin

text \<open>
  What every component of the development shares: the names of the machine types of the
  i686 target, C character and string literals, the flat byte memory with its 16-bit and
  32-bit little-endian accesses, and the generic lemmas on words and lists that the
  component proofs use through the collections declared here.
\<close>

unbundle bit_operations_syntax

section \<open>Machine types\<close>

text \<open>
  The target is i686: \<open>char\<close> is signed and one byte, \<open>int\<close>, \<open>long\<close>, pointers and
  \<open>size_t\<close> have 32 bits, \<open>long long\<close> has 64 bits. A C \<open>char\<close> is kept as the byte
  it is stored in and sign-extended (\<^const>\<open>scast\<close>) where the code promotes it.
\<close>

type_synonym u8 = "8 word"
type_synonym u16 = "16 word"
type_synonym u32 = "32 word"
type_synonym u64 = "64 word"

text \<open>A character constant and the characters of a string literal (without its final zero).\<close>

abbreviation ch :: "char \<Rightarrow> u8" where
  "ch c \<equiv> of_char c"

abbreviation cstr :: "string \<Rightarrow> u8 list" where
  "cstr s \<equiv> map of_char s"

text \<open>
  Collections: \<open>mem_simps\<close> for reads after writes to memory, \<open>frame_simps\<close> for the
  facts that an operation leaves a part of the state alone, \<open>emit_simps\<close> for the facts
  that a formatting routine only sends characters to its output function.
\<close>

named_theorems mem_simps
named_theorems frame_simps
named_theorems emit_simps

text \<open>Equations that evaluate closed terms.\<close>

named_theorems eval_simps

lemma replicate_numeral [eval_simps]:
  "replicate (numeral k) x = x # replicate (pred_numeral k) x"
  by (simp add: numeral_eq_Suc)

section \<open>Words\<close>

lemma unat_lt: "unat (w :: 'a::len word) < 2 ^ LENGTH('a)"
  by (rule unsigned_less)

lemma unat_lt32: "unat (w :: u32) < 4294967296"
  using unat_lt [of w] by simp

lemma unat_inc_less:
  fixes i n :: "'a::len word"
  assumes "i < n"
  shows "unat (i + 1) = Suc (unat i)"
proof -
  from assms have "unat i < unat n" by (simp add: word_less_nat_alt)
  with unat_lt [of n] have "Suc (unat i) < 2 ^ LENGTH('a)" by linarith
  then show ?thesis
    by (simp add: unat_word_ariths unat_of_nat)
qed

text \<open>Counting a word up to a bound: the measure of every \<open>for (i = a; i < n; i++)\<close> loop.\<close>

lemma unat_diff_inc_less:
  fixes i n :: "'a::len word"
  assumes "i < n"
  shows "unat n - unat (i + 1) < unat n - unat i"
  using assms unat_inc_less [OF assms] by (simp add: word_less_nat_alt)

lemma unat_less_iff_nat:
  fixes a b :: "'a::len word"
  shows "a < b \<longleftrightarrow> unat a < unat b"
  by (rule word_less_nat_alt)

lemma of_nat_less_word32_iff:
  assumes "n < 2 ^ 32"
  shows "(of_nat n :: u32) < w \<longleftrightarrow> n < unat w"
  using assms by (simp add: word_less_nat_alt unat_of_nat)

lemma unat_of_nat_u32 [simp]: "n < 2 ^ 32 \<Longrightarrow> unat (of_nat n :: u32) = n"
  by (simp add: unat_of_nat)

lemma unat_plus:
  fixes a b :: "'a::len word"
  assumes "unat a + unat b < 2 ^ LENGTH('a)"
  shows "unat (a + b) = unat a + unat b"
  using assms by (simp add: unat_word_ariths)

lemma unat_plus_of_nat:
  fixes a :: u32
  assumes "unat a + k < 2 ^ 32"
  shows "unat (a + of_nat k) = unat a + k"
proof -
  from assms have "unat (of_nat k :: u32) = k" by simp
  with assms show ?thesis by (simp add: unat_plus)
qed

lemma eq_plus_of_nat_iff:
  fixes a b :: u32
  assumes "k < 2 ^ 32"
  shows "a = b + of_nat k \<longleftrightarrow> unat (a - b) = k"
proof
  assume "a = b + of_nat k"
  with assms show "unat (a - b) = k" by simp
next
  assume "unat (a - b) = k"
  then have "of_nat k = a - b" by auto
  then show "a = b + of_nat k" by simp
qed

lemma eq_plus_iff_unat:
  fixes a b i :: "'a::len word"
  shows "a = b + i \<longleftrightarrow> unat (a - b) = unat i"
proof -
  have "unat (a - b) = unat i \<longleftrightarrow> a - b = i" by (simp add: word_unat_eq_iff)
  then show ?thesis by (auto simp: diff_eq_eq add.commute)
qed

lemma add_diff_word_cancel [simp]:
  fixes a b :: "'a::len word"
  shows "a + (b - a) = b"
  by simp

lemma bit7_iff: "bit (c :: u8) 7 \<longleftrightarrow> 0x80 \<le> c"
proof -
  have "bit c 7 \<longleftrightarrow> bit (unat c) 7" by (simp add: bit_unsigned_iff)
  also have "\<dots> \<longleftrightarrow> odd (unat c div 128)" by (simp add: bit_iff_odd)
  also have "unat c div 128 = (if 128 \<le> unat c then 1 else 0)"
    using unat_lt [of c] by (auto intro!: div_nat_eqI)
  also have "odd (if 128 \<le> unat c then 1 else 0 :: nat) \<longleftrightarrow> 128 \<le> unat c" by simp
  finally show ?thesis by (simp add: word_le_nat_alt)
qed

text \<open>A byte read as a signed \<open>char\<close>.\<close>

lemma sint_u8: "sint (c :: u8) = (if unat c < 128 then int (unat c) else int (unat c) - 256)"
proof -
  have "sint c = take_bit 8 (uint c) - 256 * of_bool (bit (uint c) 7)"
    by (simp add: sint_uint signed_take_bit_eq_take_bit_minus)
  moreover have "take_bit 8 (uint c) = uint c"
    using uint_bounded [of c] by (simp add: take_bit_int_eq_self_iff)
  moreover have "bit (uint c) 7 \<longleftrightarrow> \<not> unat c < 128"
    using bit7_iff [of c] by (simp add: bit_uint_iff word_le_nat_alt not_less)
  ultimately show ?thesis by simp
qed

section \<open>Memory\<close>

text \<open>
  The machine's memory is a function from 32-bit addresses to bytes; pointer arithmetic is
  addition of words and wraps as the hardware's does.
\<close>

type_synonym mem = "u32 \<Rightarrow> u8"

definition load16 :: "mem \<Rightarrow> u32 \<Rightarrow> u16" where
  "load16 m a = ucast (m a) OR push_bit 8 (ucast (m (a + 1)))"

definition store16 :: "u32 \<Rightarrow> u16 \<Rightarrow> mem \<Rightarrow> mem" where
  "store16 a v m = m(a := ucast v, a + 1 := ucast (drop_bit 8 v))"

lemma load16_store16_same [mem_simps]: "load16 (store16 a v m) a = v"
  by (simp add: load16_def store16_def)
     (rule bit_word_eqI, auto simp: bit_simps)

lemma load16_store16_other [mem_simps]:
  assumes "b \<noteq> a" "b \<noteq> a + 1" "b + 1 \<noteq> a"
  shows "load16 (store16 a v m) b = load16 m b"
  using assms by (simp add: load16_def store16_def)

lemma load16_cong:
  "m a = m' b \<Longrightarrow> m (a + 1) = m' (b + 1) \<Longrightarrow> load16 m a = load16 m' b"
  by (simp add: load16_def)

lemma store16_frame [frame_simps]: "b \<noteq> a \<Longrightarrow> b \<noteq> a + 1 \<Longrightarrow> store16 a v m b = m b"
  by (simp add: store16_def)

text \<open>The \<open>n\<close> bytes from address \<open>a\<close> on.\<close>

definition bytes_at :: "mem \<Rightarrow> u32 \<Rightarrow> nat \<Rightarrow> u8 list" where
  "bytes_at m a n = map (\<lambda>i. m (a + of_nat i)) [0..<n]"

lemma length_bytes_at [simp]: "length (bytes_at m a n) = n"
  by (simp add: bytes_at_def)

lemma nth_bytes_at [simp]: "i < n \<Longrightarrow> bytes_at m a n ! i = m (a + of_nat i)"
  by (simp add: bytes_at_def)

lemma bytes_at_eq_iff:
  "bytes_at m a n = bytes_at m' b n \<longleftrightarrow> (\<forall>i<n. m (a + of_nat i) = m' (b + of_nat i))"
  by (auto simp: list_eq_iff_nth_eq)

text \<open>The \<open>n\<close> addresses from \<open>a\<close> on, and a region that does not run past the last address.\<close>

definition in_region :: "u32 \<Rightarrow> nat \<Rightarrow> u32 \<Rightarrow> bool" where
  "in_region a n x \<longleftrightarrow> unat (x - a) < n"

definition valid_region :: "u32 \<Rightarrow> nat \<Rightarrow> bool" where
  "valid_region a n \<longleftrightarrow> unat a + n \<le> 2 ^ 32"

lemma in_region_iff:
  assumes "valid_region a n"
  shows "in_region a n x \<longleftrightarrow> unat a \<le> unat x \<and> unat x < unat a + n"
  using assms unat_lt [of x] unat_lt [of a]
  by (auto simp: in_region_def valid_region_def unat_sub_if_size word_size)

lemma in_region_offset:
  assumes "valid_region a n" "i < n"
  shows "in_region a n (a + of_nat i)"
  using assms by (simp add: in_region_def valid_region_def)

lemma unat_offset:
  assumes "valid_region a n" "i < n"
  shows "unat (a + of_nat i) = unat a + i"
  using assms by (simp add: valid_region_def unat_plus_of_nat)

end
