(* ===== verification/Dbl.thy ===== *)
theory Dbl
  imports Prelude
begin

text \<open>
  The floating-point arithmetic of the formatting routines. The libc is compiled with
  \<^verbatim>\<open>-std=c11\<close> for i686, where GCC evaluates every operation and every constant in the x87
  extended format (64-bit significand, \<^verbatim>\<open>FLT_EVAL_METHOD == 2\<close>) and rounds to \<open>double\<close> on
  assignments, casts and argument passing. A finite value is a dyadic number
  \<open>m * 2 ^ e\<close> with unbounded integers, each operation is computed exactly and rounded to
  nearest-even once, and the rounding to \<open>double\<close> is a separate function that the model of
  the code calls wherever C stores a \<open>double\<close>. The sign of a zero is not kept: no statement of
  the code depends on it.
\<close>

section \<open>Values and rounding\<close>

datatype dbl = NaN | Inf bool | Fin int int

text \<open>The number of binary digits of a non-negative integer.\<close>

function bit_length :: "int \<Rightarrow> nat" where
  "bit_length m = (if m \<le> 0 then 0 else Suc (bit_length (m div 2)))"
  by pat_completeness auto
termination
  by (relation "measure nat") (auto simp: nat_div_distrib)

declare bit_length.simps [simp del]

text \<open>\<open>m / 2 ^ s\<close> rounded to the nearest integer, ties to even.\<close>

definition round_even :: "int \<Rightarrow> nat \<Rightarrow> int" where
  "round_even m s =
     (let q = m div 2 ^ s; r = m mod 2 ^ s
      in if 2 * r > 2 ^ s \<or> 2 * r = 2 ^ s \<and> odd q then q + 1 else q)"

text \<open>
  Rounding \<open>m * 2 ^ e\<close> to a format of \<open>p\<close> significand bits whose least exponent (of the last
  place) is \<open>emin\<close> and whose largest exponent (of the first place) is \<open>emax\<close>.
\<close>

definition fp_round :: "int \<Rightarrow> int \<Rightarrow> int \<Rightarrow> int \<Rightarrow> int \<Rightarrow> dbl" where
  "fp_round p emin emax m e =
     (if m = 0 then Fin 0 0
      else (let e' = max emin (e + int (bit_length \<bar>m\<bar>) - p);
                (m1, e1) = (if e' \<le> e then (m, e) else (round_even m (nat (e' - e)), e'))
            in if int (bit_length \<bar>m1\<bar>) + e1 > emax + 1 then Inf (m < 0) else Fin m1 e1))"

text \<open>Rounding keeps the sign.\<close>

lemma round_even_nonneg: "0 \<le> m \<Longrightarrow> 0 \<le> round_even m s"
  by (simp add: round_even_def Let_def pos_imp_zdiv_nonneg_iff)

lemma fp_round_nonneg: "0 \<le> m \<Longrightarrow> fp_round p emin emax m e = Fin m' e' \<Longrightarrow> 0 \<le> m'"
  by (auto simp: fp_round_def Let_def round_even_nonneg split: if_splits prod.splits)

text \<open>The two formats of the code: x87 extended and \<open>double\<close>.\<close>

definition ext_round :: "int \<Rightarrow> int \<Rightarrow> dbl" where
  "ext_round m e = fp_round 64 (- 16445) 16383 m e"

fun to_double :: "dbl \<Rightarrow> dbl" where
  "to_double (Fin m e) = fp_round 53 (- 1074) 1023 m e"
| "to_double x = x"

section \<open>Operations\<close>

text \<open>Integers up to 64 bits are represented exactly.\<close>

definition d_int :: "int \<Rightarrow> dbl" where
  "d_int i = Fin i 0"

fun d_neg :: "dbl \<Rightarrow> dbl" where
  "d_neg (Fin m e) = Fin (- m) e"
| "d_neg (Inf s) = Inf (\<not> s)"
| "d_neg NaN = NaN"

text \<open>Two finite values over their common exponent.\<close>

definition align :: "int \<Rightarrow> int \<Rightarrow> int \<Rightarrow> int \<Rightarrow> int \<times> int \<times> int" where
  "align m1 e1 m2 e2 =
     (if e1 \<le> e2 then (m1, m2 * 2 ^ nat (e2 - e1), e1) else (m1 * 2 ^ nat (e1 - e2), m2, e2))"

fun d_add :: "dbl \<Rightarrow> dbl \<Rightarrow> dbl" where
  "d_add (Fin m1 e1) (Fin m2 e2) = (let (a, b, e) = align m1 e1 m2 e2 in ext_round (a + b) e)"
| "d_add (Inf s) (Inf t) = (if s = t then Inf s else NaN)"
| "d_add (Inf s) (Fin m e) = Inf s"
| "d_add (Fin m e) (Inf s) = Inf s"
| "d_add NaN y = NaN"
| "d_add x NaN = NaN"

definition d_sub :: "dbl \<Rightarrow> dbl \<Rightarrow> dbl" where
  "d_sub x y = d_add x (d_neg y)"

fun d_mul :: "dbl \<Rightarrow> dbl \<Rightarrow> dbl" where
  "d_mul (Fin m1 e1) (Fin m2 e2) = ext_round (m1 * m2) (e1 + e2)"
| "d_mul (Inf s) (Inf t) = Inf (s \<noteq> t)"
| "d_mul (Inf s) (Fin m e) = (if m = 0 then NaN else Inf (s \<noteq> (m < 0)))"
| "d_mul (Fin m e) (Inf s) = (if m = 0 then NaN else Inf (s \<noteq> (m < 0)))"
| "d_mul NaN y = NaN"
| "d_mul x NaN = NaN"

text \<open>
  The quotient of two integers to at least 66 significant bits, with a last bit that is set
  when the quotient is not exact, rounds like the exact quotient.
\<close>

definition quotient :: "int \<Rightarrow> int \<Rightarrow> int \<times> int" where
  "quotient m1 m2 =
     (let k = 66 + bit_length \<bar>m2\<bar>;
          n = \<bar>m1\<bar> * 2 ^ k;
          q = 2 * (n div \<bar>m2\<bar>) + (if n mod \<bar>m2\<bar> = 0 then 0 else 1)
      in (if (m1 < 0) = (m2 < 0) then q else - q, - int k - 1))"

fun d_div :: "dbl \<Rightarrow> dbl \<Rightarrow> dbl" where
  "d_div (Fin m1 e1) (Fin m2 e2) =
     (if m2 = 0 then (if m1 = 0 then NaN else Inf (m1 < 0))
      else (let (q, k) = quotient m1 m2 in ext_round q (e1 - e2 + k)))"
| "d_div (Inf s) (Fin m e) = Inf (s \<noteq> (m < 0))"
| "d_div (Fin m e) (Inf s) = Fin 0 0"
| "d_div (Inf s) (Inf t) = NaN"
| "d_div NaN y = NaN"
| "d_div x NaN = NaN"

text \<open>A decimal constant \<open>n / 10 ^ k\<close> of the code, rounded to the extended format.\<close>

definition d_dec :: "int \<Rightarrow> nat \<Rightarrow> dbl" where
  "d_dec n k = d_div (d_int n) (d_int (10 ^ k))"

fun d_less :: "dbl \<Rightarrow> dbl \<Rightarrow> bool" where
  "d_less (Fin m1 e1) (Fin m2 e2) = (let (a, b, e) = align m1 e1 m2 e2 in a < b)"
| "d_less (Inf s) (Inf t) = (s \<and> \<not> t)"
| "d_less (Inf s) (Fin m e) = s"
| "d_less (Fin m e) (Inf s) = (\<not> s)"
| "d_less NaN y = False"
| "d_less x NaN = False"

fun d_eq :: "dbl \<Rightarrow> dbl \<Rightarrow> bool" where
  "d_eq (Fin m1 e1) (Fin m2 e2) = (let (a, b, e) = align m1 e1 m2 e2 in a = b)"
| "d_eq (Inf s) (Inf t) = (s = t)"
| "d_eq x y = False"

definition d_le :: "dbl \<Rightarrow> dbl \<Rightarrow> bool" where
  "d_le x y \<longleftrightarrow> d_less x y \<or> d_eq x y"

text \<open>
  The conversion to an integer type truncates; the code converts only finite values that fit
  their type, and the last equation is never used.
\<close>

fun d_trunc :: "dbl \<Rightarrow> int" where
  "d_trunc (Fin m e) =
     (if 0 \<le> e then m * 2 ^ nat e
      else if 0 \<le> m then m div 2 ^ nat (- e) else - (- m div 2 ^ nat (- e)))"
| "d_trunc x = 0"

section \<open>The bits of a \<open>double\<close>\<close>

text \<open>The object representation of a \<open>double\<close>, which \<open>_etoa\<close> reads through a union.\<close>

definition shift :: "int \<Rightarrow> int \<Rightarrow> int" where
  "shift m k = (if 0 \<le> k then m * 2 ^ nat k else m div 2 ^ nat (- k))"

definition mk_bits :: "bool \<Rightarrow> int \<Rightarrow> int \<Rightarrow> u64" where
  "mk_bits s field frac =
     (if s then push_bit 63 1 else 0) OR push_bit 52 (of_int field) OR of_int frac"

fun dbl_bits :: "dbl \<Rightarrow> u64" where
  "dbl_bits NaN = mk_bits False 0x7FF (2 ^ 51)"
| "dbl_bits (Inf s) = mk_bits s 0x7FF 0"
| "dbl_bits (Fin m e) =
     (if m = 0 then 0
      else (let b = int (bit_length \<bar>m\<bar>); x = e + b - 1
            in if - 1022 \<le> x then mk_bits (m < 0) (x + 1023) (shift \<bar>m\<bar> (53 - b) - 2 ^ 52)
               else mk_bits (m < 0) 0 (shift \<bar>m\<bar> (e + 1074))))"

definition bits_dbl :: "u64 \<Rightarrow> dbl" where
  "bits_dbl u =
     (let s = bit u 63;
          field = uint (drop_bit 52 u AND 0x7FF);
          frac = uint (u AND (push_bit 52 1 - 1));
          m = (if field = 0 then frac else frac + 2 ^ 52);
          e = (if field = 0 then - 1074 else field - 1075)
      in if field = 0x7FF then (if frac = 0 then Inf s else NaN)
         else Fin (if s then - m else m) e)"

end
