(* ===== verification/Libc_String.thy ===== *)
theory Libc_String
  imports Prelude
begin

text \<open>
  The memory routines of \<^verbatim>\<open>libc/string.c\<close> on the flat byte memory, the contract
  \<open>mover\<close> they promise their callers (the destination holds what the source held before
  the call, every other byte is unchanged), and the proof that \<open>memmove\<close> and \<open>memcpy\<close>
  keep it on every overlap of the two regions.
\<close>

section \<open>The routines\<close>

text \<open>
  \<^verbatim>\<open>for (int i = n - 1; i >= 0; --i) to[i] = from[i];\<close>
  The index is a C \<open>int\<close>; the address \<open>to + i\<close> wraps like the pointer arithmetic does.
\<close>

function copy_reverse :: "u32 \<Rightarrow> u32 \<Rightarrow> int \<Rightarrow> mem \<Rightarrow> mem" where
  "copy_reverse to from i m =
     (if 0 \<le> i
      then copy_reverse to from (i - 1) (m(to + word_of_int i := m (from + word_of_int i)))
      else m)"
  by pat_completeness auto
termination
  by (relation "measure (\<lambda>(to, from, i, m). nat (i + 1))") auto

text \<open>\<^verbatim>\<open>for (size_t i = 0; i < n; ++i) to[i] = from[i];\<close>\<close>

function copy_forward :: "u32 \<Rightarrow> u32 \<Rightarrow> u32 \<Rightarrow> u32 \<Rightarrow> mem \<Rightarrow> mem" where
  "copy_forward to from i n m =
     (if i < n
      then copy_forward to from (i + 1) n (m(to + i := m (from + i)))
      else m)"
  by pat_completeness auto
termination
  by (relation "measure (\<lambda>(to, from, i, n, m). unat n - unat i)")
     (auto simp: unat_diff_inc_less)

declare copy_reverse.simps [simp del] copy_forward.simps [simp del]

text \<open>
  The initial index of the reverse loop is \<^verbatim>\<open>int i = n - 1\<close>: the subtraction is in
  \<open>size_t\<close> and wraps for \<open>n = 0\<close>, the conversion to \<open>int\<close> reads the result as
  two's complement.
\<close>

definition memmove :: "u32 \<Rightarrow> u32 \<Rightarrow> u32 \<Rightarrow> mem \<Rightarrow> mem" where
  "memmove dst src n m =
     (let from = src; to = dst in
      if from < to \<and> from + n \<ge> to
      then copy_reverse to from (sint (n - 1)) m
      else copy_forward to from 0 n m)"

definition memcpy :: "u32 \<Rightarrow> u32 \<Rightarrow> u32 \<Rightarrow> mem \<Rightarrow> mem" where
  "memcpy dst src n m = memmove dst src n m"

function fill_forward :: "u32 \<Rightarrow> u8 \<Rightarrow> u32 \<Rightarrow> u32 \<Rightarrow> mem \<Rightarrow> mem" where
  "fill_forward dst c i n m =
     (if i < n then fill_forward dst c (i + 1) n (m(dst + i := c)) else m)"
  by pat_completeness auto
termination
  by (relation "measure (\<lambda>(dst, c, i, n, m). unat n - unat i)")
     (auto simp: unat_diff_inc_less)

declare fill_forward.simps [simp del]

definition memset :: "u32 \<Rightarrow> u8 \<Rightarrow> u32 \<Rightarrow> mem \<Rightarrow> mem" where
  "memset d c n m = fill_forward d c 0 n m"

section \<open>What the loops compute\<close>

text \<open>A simultaneous copy, the specification of both loops: every byte is read before any is written.\<close>

definition block_copy :: "u32 \<Rightarrow> u32 \<Rightarrow> nat \<Rightarrow> mem \<Rightarrow> mem" where
  "block_copy dst src n m = (\<lambda>a. if in_region dst n a then m (src + (a - dst)) else m a)"

text \<open>
  The reverse loop from index \<open>k - 1\<close>, when the destination starts after the source: what
  is still to be read lies below what has been written.
\<close>

lemma copy_reverse_eq:
  assumes "unat src < unat dst" "unat dst + k \<le> 2 ^ 32"
  shows "copy_reverse dst src (int k - 1) m = block_copy dst src k m"
  using assms
proof (induction k arbitrary: m)
  case 0
  then show ?case
    by (simp add: copy_reverse.simps block_copy_def in_region_def)
next
  case (Suc k)
  let ?m = "m(dst + of_nat k := m (src + of_nat k))"
  have wk: "word_of_int (int k) = (of_nat k :: u32)" by simp
  have "copy_reverse dst src (int (Suc k) - 1) m = copy_reverse dst src (int k - 1) ?m"
    by (subst copy_reverse.simps) (simp add: wk)
  also have "\<dots> = block_copy dst src k ?m"
    using Suc.prems by (intro Suc.IH) simp_all
  also have "\<dots> = block_copy dst src (Suc k) m"
  proof
    fix a
    have k: "k < 2 ^ 32" using Suc.prems by linarith
    have low: "unat (src + (a - dst)) < unat dst + k" if less: "unat (a - dst) < k"
    proof -
      have "unat src + unat (a - dst) < unat dst + k" using less Suc.prems(1) by linarith
      also have "\<dots> < 2 ^ 32" using Suc.prems(2) by linarith
      finally have "unat (src + (a - dst)) = unat src + unat (a - dst)"
        by (intro unat_plus) simp
      with less Suc.prems(1) show ?thesis by linarith
    qed
    have dk: "unat (dst + of_nat k) = unat dst + k"
      using Suc.prems(2) by (intro unat_plus_of_nat) linarith
    show "block_copy dst src k ?m a = block_copy dst src (Suc k) m a"
    proof (cases "unat (a - dst) < k")
      case True
      with low dk have "src + (a - dst) \<noteq> dst + of_nat k" by fastforce
      with True show ?thesis by (simp add: block_copy_def in_region_def)
    next
      case False
      have "a = dst + of_nat k \<longleftrightarrow> unat (a - dst) = k" using k by (rule eq_plus_of_nat_iff)
      with False show ?thesis
        by (auto simp: block_copy_def in_region_def less_Suc_eq)
    qed
  qed
  finally show ?case .
qed

text \<open>
  The forward loop, when no byte is overwritten before it is read: the destination starts at
  or before the source, or the two regions are disjoint.
\<close>

definition forward_safe :: "u32 \<Rightarrow> u32 \<Rightarrow> u32 \<Rightarrow> bool" where
  "forward_safe dst src n \<longleftrightarrow>
     valid_region dst (unat n) \<and> valid_region src (unat n) \<and>
     (unat dst \<le> unat src \<or> unat src + unat n \<le> unat dst)"

lemma forward_safe_ahead:
  assumes "forward_safe dst src n" "unat i < unat j" "unat j < unat n"
  shows "src + j \<noteq> dst + i"
proof -
  have "unat (src + j) = unat src + unat j" "unat (dst + i) = unat dst + unat i"
    using assms by (auto simp: forward_safe_def valid_region_def intro!: unat_plus)
  with assms show ?thesis by (auto simp: forward_safe_def)
qed

lemma copy_forward_eq:
  assumes "forward_safe dst src n"
  shows "copy_forward dst src i n m =
    (\<lambda>a. if unat i \<le> unat (a - dst) \<and> unat (a - dst) < unat n then m (src + (a - dst)) else m a)"
  using assms
proof (induction dst src i n m rule: copy_forward.induct)
  case (1 to "from" i n m)
  let ?m = "m(to + i := m (from + i))"
  show ?case
  proof (cases "i < n")
    case False
    then show ?thesis
      by (auto simp: copy_forward.simps [of to "from" i n m] word_less_nat_alt fun_eq_iff)
  next
    case True
    have "copy_forward to from i n m = copy_forward to from (i + 1) n ?m"
      using True by (simp add: copy_forward.simps [of to "from" i n m])
    also have "\<dots> = (\<lambda>a. if unat (i + 1) \<le> unat (a - to) \<and> unat (a - to) < unat n
                         then ?m (from + (a - to)) else ?m a)"
      using True "1.prems" by (rule "1.IH")
    also have "\<dots> = (\<lambda>a. if unat i \<le> unat (a - to) \<and> unat (a - to) < unat n
                         then m (from + (a - to)) else m a)" (is "?l = ?r")
    proof
      fix a
      have inc: "unat (i + 1) = Suc (unat i)" using True by (rule unat_inc_less)
      have at: "a = to + i \<longleftrightarrow> unat (a - to) = unat i"
        by (rule eq_plus_iff_unat)
      have ahead: "from + (a - to) \<noteq> to + i" if "unat i < unat (a - to)" "unat (a - to) < unat n"
        using forward_safe_ahead [OF "1.prems" that] .
      show "?l a = ?r a"
        using inc at ahead True by (cases "unat (a - to) = unat i") (auto simp: word_less_nat_alt)
    qed
    finally show ?thesis .
  qed
qed

lemma fill_forward_eq:
  "fill_forward dst c i n m =
    (\<lambda>a. if unat i \<le> unat (a - dst) \<and> unat (a - dst) < unat n then c else m a)"
proof (induction dst c i n m rule: fill_forward.induct)
  case (1 dst c i n m)
  show ?case
  proof (cases "i < n")
    case False
    then show ?thesis
      by (auto simp: fill_forward.simps [of dst c i n m] word_less_nat_alt fun_eq_iff)
  next
    case True
    have inc: "unat (i + 1) = Suc (unat i)" using True by (rule unat_inc_less)
    have at: "a = dst + i \<longleftrightarrow> unat (a - dst) = unat i" for a
      by (rule eq_plus_iff_unat)
    have "fill_forward dst c i n m = fill_forward dst c (i + 1) n (m(dst + i := c))"
      using True by (simp add: fill_forward.simps [of dst c i n m])
    also have "\<dots> = (\<lambda>a. if unat (i + 1) \<le> unat (a - dst) \<and> unat (a - dst) < unat n
                         then c else (m(dst + i := c)) a)"
      using True by (rule "1.IH")
    also have "\<dots> = (\<lambda>a. if unat i \<le> unat (a - dst) \<and> unat (a - dst) < unat n then c else m a)"
      using True by (auto simp: fun_eq_iff inc at word_less_nat_alt)
    finally show ?thesis .
  qed
qed

section \<open>The contract\<close>

text \<open>
  What a caller of a block move relies on. The size bound is the range of the \<open>int\<close> index
  of the reverse loop: it is what the code supports, not a convenience of the proof (see
  \<open>memmove_huge_overlap_noop\<close>).
\<close>

locale mover =
  fixes move :: "u32 \<Rightarrow> u32 \<Rightarrow> u32 \<Rightarrow> mem \<Rightarrow> mem"
  assumes move_block:
    "valid_region dst (unat n) \<Longrightarrow> valid_region src (unat n) \<Longrightarrow> unat n \<le> 2 ^ 31 \<Longrightarrow>
     move dst src n m = block_copy dst src (unat n) m"
begin

lemma move_bytes:
  assumes "valid_region dst (unat n)" "valid_region src (unat n)" "unat n \<le> 2 ^ 31"
  shows "bytes_at (move dst src n m) dst (unat n) = bytes_at m src (unat n)"
proof -
  have "unat (of_nat i :: u32) = i" if "i < unat n" for i
    using that unat_lt32 [of n] by simp
  then show ?thesis
    by (simp add: bytes_at_eq_iff move_block [OF assms] block_copy_def in_region_def)
qed

lemma move_frame:
  assumes "valid_region dst (unat n)" "valid_region src (unat n)" "unat n \<le> 2 ^ 31"
    and "\<not> in_region dst (unat n) a"
  shows "move dst src n m a = m a"
  using assms(4) by (simp add: move_block [OF assms(1-3)] block_copy_def)

text \<open>A 16-bit cell wholly inside the destination holds the cell of the source at the same offset.\<close>

lemma move_load16:
  assumes "valid_region dst (unat n)" "valid_region src (unat n)" "unat n \<le> 2 ^ 31"
    and "k + 1 < unat n"
  shows "load16 (move dst src n m) (dst + of_nat k) = load16 m (src + of_nat k)"
proof -
  have k: "unat (of_nat k :: u32) = k" "unat (of_nat k + 1 :: u32) = k + 1"
    using assms(4) unat_lt32 [of n] by (simp_all add: unat_word_ariths)
  show ?thesis
    using assms(4) k
    by (intro load16_cong)
       (simp_all add: move_block [OF assms(1-3)] block_copy_def in_region_def add.assoc)
qed

end

section \<open>The routines keep the contract\<close>

text \<open>The index at which the reverse loop starts.\<close>

lemma sint_minus_one:
  assumes "unat (n :: u32) \<le> 2 ^ 31"
  shows "sint (n - 1) = int (unat n) - 1"
proof (cases "n = 0")
  case False
  then have n1: "unat (n - 1) = unat n - 1" "0 < unat n"
    by (simp_all add: unat_minus_one unat_gt_0)
  have "uint (n - 1) = int (unat (n - 1))" by (rule uint_nat)
  also have "\<dots> = int (unat n) - 1"
    using n1(2) by (simp only: n1(1) of_nat_diff Suc_leI One_nat_def of_nat_Suc)
  finally have u: "uint (n - 1) = int (unat n) - 1" .
  then have "sint (n - 1) = signed_take_bit 31 (int (unat n) - 1)"
    by (simp only: sint_uint) simp
  also have "\<dots> = int (unat n) - 1"
  proof (rule signed_take_bit_int_eq_self)
    have "(- 2147483648 :: int) < uint n" by (rule less_le_trans [OF _ uint_ge_0]) simp
    then show "- (2 ^ 31) \<le> int (unat n) - 1" by simp
    have "int (unat n) \<le> int (2 ^ 31)" using assms by (simp only: of_nat_le_iff)
    then show "int (unat n) - 1 < 2 ^ 31" by simp
  qed
  finally show ?thesis .
qed simp

lemma forward_safe_no_overlap:
  assumes "valid_region dst (unat n)" "valid_region src (unat n)" "\<not> (src < dst \<and> src + n \<ge> dst)"
  shows "forward_safe dst src n"
proof (cases "src < dst")
  case True
  with assms(3) have "unat (src + n) < unat dst" by (simp add: word_less_nat_alt word_le_nat_alt)
  moreover have "unat (src + n) = unat src + unat n"
  proof (rule unat_plus)
    show "unat src + unat n < 2 ^ LENGTH(32)"
      using True assms(1,2) unat_lt32 [of dst]
      by (auto simp: valid_region_def word_less_nat_alt)
  qed
  ultimately show ?thesis using assms by (simp add: forward_safe_def)
next
  case False
  with assms show ?thesis by (simp add: forward_safe_def word_less_nat_alt)
qed

lemma memmove_block:
  assumes "valid_region dst (unat n)" "valid_region src (unat n)" "unat n \<le> 2 ^ 31"
  shows "memmove dst src n m = block_copy dst src (unat n) m"
proof (cases "src < dst \<and> src + n \<ge> dst")
  case True
  with sint_minus_one [OF assms(3)] have "memmove dst src n m = copy_reverse dst src (int (unat n) - 1) m"
    by (simp only: memmove_def Let_def simp_thms if_True)
  also have "\<dots> = block_copy dst src (unat n) m"
    using True assms(1) by (intro copy_reverse_eq) (simp_all add: valid_region_def word_less_nat_alt)
  finally show ?thesis .
next
  case False
  then show ?thesis
    using forward_safe_no_overlap [OF assms(1,2) False]
    by (auto simp: memmove_def Let_def copy_forward_eq block_copy_def in_region_def fun_eq_iff)
qed

lemma memcpy_block:
  assumes "valid_region dst (unat n)" "valid_region src (unat n)" "unat n \<le> 2 ^ 31"
  shows "memcpy dst src n m = block_copy dst src (unat n) m"
  using memmove_block [OF assms] by (simp add: memcpy_def)

interpretation move: mover memmove
  by unfold_locales (rule memmove_block)

interpretation copy: mover memcpy
  by unfold_locales (rule memcpy_block)

text \<open>
  C4: \<open>memmove\<close> copies as if through a buffer, whatever the overlap of the two regions:
  afterwards the destination holds the \<open>n\<close> bytes the source held before the call and
  every byte outside the destination is unchanged. The regions do not run past the last
  address and \<open>n\<close> is at most \<open>2^31\<close>, the sizes the \<open>int\<close> index covers.
\<close>

theorem memmove_correct:
  assumes "valid_region dst (unat n)" "valid_region src (unat n)" "unat n \<le> 2 ^ 31"
  shows "bytes_at (memmove dst src n m) dst (unat n) = bytes_at m src (unat n) \<and>
    (\<forall>a. \<not> in_region dst (unat n) a \<longrightarrow> memmove dst src n m a = m a)"
  using move.move_bytes [OF assms] move.move_frame [OF assms] by blast

theorem memmove_correct_witness:
  "bytes_at (memmove 10 5 10 (\<lambda>a. ucast a)) 10 10 = bytes_at (\<lambda>a. ucast a) 5 10"
  using memmove_correct [where dst = 10 and n = 10 and src = 5 and m = "\<lambda>a. ucast a"] by (simp add: valid_region_def)

text \<open>
  \<open>memcpy\<close> of this library accepts overlapping regions as \<open>memmove\<close> does: it
  computes the simultaneous copy of the source block, with nothing else changed.
\<close>

lemma memcpy_correct:
  assumes "valid_region dst (unat n)" "valid_region src (unat n)" "unat n \<le> 2 ^ 31"
  shows "memcpy dst src n m a =
    (if in_region dst (unat n) a then m (src + (a - dst)) else m a)"
  using copy.move_block [OF assms] by (simp add: block_copy_def)

text \<open>
  C40: where \<open>memmove\<close> must copy in reverse and \<open>n\<close> is more than \<open>2^31\<close>, the \<open>int\<close>
  index \<open>n - 1\<close> starts negative and the call copies nothing at all.
\<close>

theorem memmove_huge_overlap_noop:
  assumes "2 ^ 31 < unat n" "src < dst" "dst \<le> src + n"
  shows "memmove dst src n m = m"
proof -
  have "unat (n - 1) = unat n - 1"
    using assms(1) by (intro unat_minus_one) auto
  then have "2147483648 \<le> unat (n - 1)" using assms(1) by simp
  then have "(2147483648 :: int) \<le> int (unat (n - 1))" by linarith
  then have "2 ^ 31 \<le> uint (n - 1)" by simp
  then have "signed_take_bit 31 (uint (n - 1)) \<le> uint (n - 1) - 2 ^ Suc 31"
    by (rule signed_take_bit_int_less_eq)
  then have "sint (n - 1) \<le> uint (n - 1) - 4294967296"
    by (simp add: sint_uint)
  moreover have "uint (n - 1) < 4294967296" using uint_lt2p [of "n - 1"] by simp
  ultimately have "sint (n - 1) < 0" by linarith
  then show ?thesis
    using assms by (simp add: memmove_def copy_reverse.simps)
qed

theorem memmove_huge_overlap_noop_witness:
  "memmove 0x1001 0x1000 0x90000000 (\<lambda>a. ucast a) = (\<lambda>a. ucast a)"
  using memmove_huge_overlap_noop [where n = "0x90000000" and src = "0x1000" and dst = "0x1001"] by simp

text \<open>
  C31: \<open>memset\<close> stores \<open>c\<close> into exactly the \<open>n\<close> bytes from \<open>d\<close> on.
\<close>

theorem memset_correct: "memset d c n m a = (if in_region d (unat n) a then c else m a)"
  by (simp add: memset_def fill_forward_eq in_region_def)

end
