(* ===== verification/Tty.thy ===== *)
theory Tty
  imports Libc_String
begin

text \<open>
  The VGA text console of \<^verbatim>\<open>kernel/src/io/tty/tty.c\<close>: its globals, one definition per
  function, the contract \<open>tty_op\<close> every console operation keeps (the cursor stays on the
  screen, memory outside the text buffer and the rest of the kernel state are untouched),
  and what the operations do to the cells of the buffer.
\<close>

section \<open>State\<close>

text \<open>
  The globals \<open>vga_col\<close>, \<open>vga_row\<close> (C \<open>int\<close>s that the code keeps small), \<open>tty_color\<close>,
  and the memory the buffer is mapped into. Other components extend this record with their
  own globals, so every operation here also runs on the whole kernel state.
\<close>

record tty =
  memory :: mem
  vga_col :: int
  vga_row :: int
  tty_color :: u8

definition VGA_COLS :: nat where "VGA_COLS = 80"
definition VGA_ROWS :: nat where "VGA_ROWS = 25"

definition vga_buffer :: u32 where "vga_buffer = 0xB8000"

text \<open>\<^verbatim>\<open>vga_buffer[index] = v\<close>, with a two-byte element and an index of type \<open>size_t\<close>.\<close>

definition vga_store :: "u32 \<Rightarrow> u16 \<Rightarrow> 'a tty_scheme \<Rightarrow> 'a tty_scheme" where
  "vga_store index v s = s\<lparr>memory := store16 (vga_buffer + 2 * index) v (memory s)\<rparr>"

section \<open>Operations\<close>

definition get_blank :: "'a tty_scheme \<Rightarrow> u16" where
  "get_blank s = push_bit 8 (ucast (tty_color s)) OR of_char CHR '' ''"

definition tty_clear :: "'a tty_scheme \<Rightarrow> 'a tty_scheme" where
  "tty_clear s =
     fold (\<lambda>col. fold (\<lambda>row s. vga_store (of_nat (VGA_COLS * row + col)) (get_blank s) s)
                   [0..<VGA_ROWS])
       [0..<VGA_COLS] (s\<lparr>vga_col := 0, vga_row := 0\<rparr>)"

text \<open>The cursor's byte address of \<^verbatim>\<open>vga_buffer + VGA_COLS\<close> is two bytes per element.\<close>

definition tty_scroll_up :: "'a tty_scheme \<Rightarrow> 'a tty_scheme" where
  "tty_scroll_up s =
     (let move_size = of_nat (VGA_COLS * (VGA_ROWS - 1) * 2);
          s = s\<lparr>memory := memmove vga_buffer (vga_buffer + 2 * of_nat VGA_COLS) move_size (memory s)\<rparr>
      in fold (\<lambda>col s. vga_store (of_nat (VGA_COLS * (VGA_ROWS - 1) + col)) (get_blank s) s)
           [0..<VGA_COLS] s)"

definition tty_init :: "'a tty_scheme \<Rightarrow> 'a tty_scheme" where
  "tty_init s = tty_clear s"

text \<open>
  The character cell of \<^verbatim>\<open>((uint16_t)tty_color << 8) | c\<close>: \<open>c\<close> is a signed
  \<open>char\<close> and is sign-extended before the bitwise or.
\<close>

definition char_cell :: "u8 \<Rightarrow> u8 \<Rightarrow> u16" where
  "char_cell color c = push_bit 8 (ucast color) OR scast c"

definition tty_putc :: "u8 \<Rightarrow> 'a tty_scheme \<Rightarrow> 'a tty_scheme" where
  "tty_putc c s =
     (let s = (if c = ch CHR ''\<newline>''
               then s\<lparr>vga_col := 0, vga_row := vga_row s + 1\<rparr>
               else (let index = word_of_int (int VGA_COLS * vga_row s + vga_col s);
                         s = vga_store index (char_cell (tty_color s) c) s
                     in s\<lparr>vga_col := vga_col s + 1\<rparr>));
          s = (if vga_col s \<ge> int VGA_COLS
               then s\<lparr>vga_col := 0, vga_row := vga_row s + 1\<rparr> else s)
      in if vga_row s \<ge> int VGA_ROWS
         then tty_scroll_up (s\<lparr>vga_col := 0, vga_row := vga_row s - 1\<rparr>) else s)"

definition tty_set_fg :: "u8 \<Rightarrow> 'a tty_scheme \<Rightarrow> 'a tty_scheme" where
  "tty_set_fg c s = s\<lparr>tty_color := (tty_color s AND 0xF0) OR (c AND 0x0F)\<rparr>"

definition tty_set_bg :: "u8 \<Rightarrow> 'a tty_scheme \<Rightarrow> 'a tty_scheme" where
  "tty_set_bg c s = s\<lparr>tty_color := (push_bit 4 c AND 0xF0) OR (tty_color s AND 0x0F)\<rparr>"

fun tty_puts :: "u8 list \<Rightarrow> 'a tty_scheme \<Rightarrow> 'a tty_scheme" where
  "tty_puts [] s = s"
| "tty_puts (c # cs) s = (if c \<noteq> 0 then tty_puts cs (tty_putc c s) else s)"

definition output_num :: "u8 \<Rightarrow> 'a tty_scheme \<Rightarrow> 'a tty_scheme" where
  "output_num n s =
     (let s = tty_putc (ch CHR '' '') s;
          s = (if n < 10
               then tty_putc (ch CHR ''0'' + n) (tty_putc (ch CHR ''0'') s)
               else tty_putc (ch CHR ''0'' + (n - 10)) (tty_putc (ch CHR ''1'') s))
      in tty_putc (ch CHR '' '') s)"

definition tty_print_colormap :: "'a tty_scheme \<Rightarrow> 'a tty_scheme" where
  "tty_print_colormap s =
     (let s = tty_puts (cstr ''--- Term Colors ---\<newline>'') s;
          s = fold (\<lambda>fg s. output_num (of_nat fg) (tty_set_fg (of_nat fg) s)) [0..<16] s;
          s = tty_putc (ch CHR ''\<newline>'') (tty_set_fg 0xF s);
          s = fold (\<lambda>bg s.
                let s = (if bg \<ge> 8 then tty_set_fg 0 s else s)
                in output_num (of_nat bg) (tty_set_bg (of_nat bg) s)) [0..<16] s
      in tty_putc (ch CHR ''\<newline>'') (tty_set_fg 0xF (tty_set_bg 0x0 s)))"

definition tty_ascii_printable_table :: "'a tty_scheme \<Rightarrow> 'a tty_scheme" where
  "tty_ascii_printable_table s =
     (let s = fold (\<lambda>c s.
                let s = (if c mod 32 = 0 \<and> c > 0 then tty_putc (ch CHR ''\<newline>'') s else s);
                    s = (if c mod 32 \<noteq> 0 then tty_putc (ch CHR '' '') s else s)
                in if c = 0x00 \<or> c = 0x20 then tty_putc (ch CHR '' '') s
                   else tty_putc (of_nat c) s) [0..<256] s
      in tty_putc (ch CHR ''\<newline>'') s)"

definition putchar :: "u8 \<Rightarrow> 'a tty_scheme \<Rightarrow> 'a tty_scheme" where
  "putchar character s = tty_putc character s"

section \<open>Cells of the text buffer\<close>

definition n_cells :: nat where "n_cells = VGA_COLS * VGA_ROWS"

definition cell :: "'a tty_scheme \<Rightarrow> nat \<Rightarrow> u16" where
  "cell s i = load16 (memory s) (vga_buffer + 2 * of_nat i)"

definition wf_tty :: "'a tty_scheme \<Rightarrow> bool" where
  "wf_tty s \<longleftrightarrow> 0 \<le> vga_col s \<and> vga_col s < int VGA_COLS \<and> 0 \<le> vga_row s \<and> vga_row s < int VGA_ROWS"

text \<open>The bytes of the text buffer.\<close>

definition vga_byte :: "u32 \<Rightarrow> bool" where
  "vga_byte a \<longleftrightarrow> in_region vga_buffer (2 * n_cells) a"

lemmas vga_dims = VGA_COLS_def VGA_ROWS_def n_cells_def

lemma unat_cell_addr:
  assumes "i < n_cells"
  shows "unat (vga_buffer + 2 * of_nat i) = 0xB8000 + 2 * i"
proof -
  have "(2 * of_nat i :: u32) = of_nat (2 * i)" by simp
  moreover have "unat (vga_buffer + of_nat (2 * i)) = unat vga_buffer + 2 * i"
    using assms by (intro unat_plus_of_nat) (simp add: vga_buffer_def vga_dims)
  ultimately show ?thesis by (simp add: vga_buffer_def)
qed

lemma unat_cell_addr1:
  assumes "i < n_cells"
  shows "unat (vga_buffer + 2 * of_nat i + 1) = 0xB8000 + 2 * i + 1"
  using unat_cell_addr [OF assms] assms
  by (subst unat_plus) (simp_all add: vga_dims)

lemma cell_addr_distinct:
  assumes "i < n_cells" "j < n_cells" "i \<noteq> j"
  shows "vga_buffer + 2 * of_nat i \<noteq> vga_buffer + 2 * of_nat j"
    and "vga_buffer + 2 * of_nat i \<noteq> vga_buffer + 2 * of_nat j + 1"
    and "vga_buffer + 2 * of_nat i + 1 \<noteq> vga_buffer + 2 * of_nat j"
proof -
  note addr = unat_cell_addr [OF assms(1)] unat_cell_addr [OF assms(2)]
    unat_cell_addr1 [OF assms(1)] unat_cell_addr1 [OF assms(2)]
  show "vga_buffer + 2 * of_nat i \<noteq> vga_buffer + 2 * of_nat j"
    using addr assms(3) by (metis add_left_cancel mult_left_cancel zero_neq_numeral)
  have "0xB8000 + 2 * i \<noteq> 0xB8000 + 2 * j + 1" "0xB8000 + 2 * i + 1 \<noteq> 0xB8000 + 2 * j"
    by presburger+
  then show "vga_buffer + 2 * of_nat i \<noteq> vga_buffer + 2 * of_nat j + 1"
    and "vga_buffer + 2 * of_nat i + 1 \<noteq> vga_buffer + 2 * of_nat j"
    using addr by metis+
qed

lemma cell_vga_store [mem_simps]:
  assumes "i < n_cells" "j < n_cells"
  shows "cell (vga_store (of_nat j) v s) i = (if i = j then v else cell s i)"
  using assms cell_addr_distinct [OF assms]
  by (simp add: cell_def vga_store_def mem_simps)

lemma vga_store_fields [simp]:
  "vga_col (vga_store i v s) = vga_col s" "vga_row (vga_store i v s) = vga_row s"
  "tty_color (vga_store i v s) = tty_color s" "tty.more (vga_store i v s) = tty.more s"
  "get_blank (vga_store i v s) = get_blank s"
  by (simp_all add: vga_store_def get_blank_def)

lemma vga_store_frame [frame_simps]:
  assumes "j < n_cells" "\<not> vga_byte a"
  shows "memory (vga_store (of_nat j) v s) a = memory s a"
proof -
  have "a \<noteq> vga_buffer + 2 * of_nat j" "a \<noteq> vga_buffer + 2 * of_nat j + 1"
    using assms unat_cell_addr [OF assms(1)] unat_cell_addr1 [OF assms(1)]
    by (auto simp: vga_byte_def in_region_iff valid_region_def vga_buffer_def vga_dims)
  then show ?thesis by (simp add: vga_store_def frame_simps)
qed

text \<open>A loop that blanks the cells with the given indices.\<close>

definition blank_all :: "nat list \<Rightarrow> 'a tty_scheme \<Rightarrow> 'a tty_scheme" where
  "blank_all is = fold (\<lambda>i s. vga_store (of_nat i) (get_blank s) s) is"

lemma blank_all_simps [simp]:
  "blank_all [] s = s"
  "blank_all (i # is) s = blank_all is (vga_store (of_nat i) (get_blank s) s)"
  by (simp_all add: blank_all_def)

lemma blank_all_fields [simp]:
  "vga_col (blank_all is s) = vga_col s" "vga_row (blank_all is s) = vga_row s"
  "tty_color (blank_all is s) = tty_color s" "tty.more (blank_all is s) = tty.more s"
  "get_blank (blank_all is s) = get_blank s"
  by (induction "is" arbitrary: s) simp_all

lemma cell_blank_all [mem_simps]:
  "\<forall>j\<in>set is. j < n_cells \<Longrightarrow> i < n_cells \<Longrightarrow>
   cell (blank_all is s) i = (if i \<in> set is then get_blank s else cell s i)"
  by (induction "is" arbitrary: s) (auto simp: mem_simps)

lemma blank_all_frame [frame_simps]:
  "\<forall>j\<in>set is. j < n_cells \<Longrightarrow> \<not> vga_byte a \<Longrightarrow> memory (blank_all is s) a = memory s a"
  by (induction "is" arbitrary: s) (auto simp: frame_simps)

section \<open>The console contract\<close>

text \<open>
  What every console operation promises: the cursor stays on the screen, no byte outside the
  text buffer is written, and the globals of the other components are left alone.
\<close>

locale tty_op =
  fixes operation :: "'a tty_scheme \<Rightarrow> 'a tty_scheme"
  assumes op_wf: "wf_tty s \<Longrightarrow> wf_tty (operation s)"
    and op_frame: "wf_tty s \<Longrightarrow> \<not> vga_byte a \<Longrightarrow> memory (operation s) a = memory s a"
    and op_more: "tty.more (operation s) = tty.more s"
begin

lemma op_safe:
  "wf_tty s \<Longrightarrow> wf_tty (operation s) \<and> tty.more (operation s) = tty.more s \<and>
    (\<forall>a. \<not> vga_byte a \<longrightarrow> memory (operation s) a = memory s a)"
  by (simp add: op_wf op_frame op_more)

lemma op_iterate: "tty_op (operation ^^ n)"
  by (induction n) (unfold_locales, auto simp: op_wf op_frame op_more tty_op_def)

end

lemma tty_op_id [intro!]: "tty_op (\<lambda>s. s)"
  by unfold_locales simp_all

lemma tty_op_comp:
  assumes "tty_op f" "tty_op g"
  shows "tty_op (\<lambda>s. g (f s))"
  using assms by (simp add: tty_op_def)

lemma tty_op_if:
  assumes "tty_op f" "tty_op g"
  shows "tty_op (\<lambda>s. if P s then f s else g s)"
  using assms by (simp add: tty_op_def)

lemma tty_op_fold:
  assumes "\<And>x. tty_op (f x)"
  shows "tty_op (fold f xs)"
proof (induction xs)
  case Nil
  show ?case by (simp add: tty_op_def)
next
  case (Cons x xs)
  have "tty_op (\<lambda>s. fold f xs (f x s))" by (rule tty_op_comp [OF assms Cons.IH])
  then show ?case by (simp add: comp_def)
qed

section \<open>Clearing and scrolling\<close>

definition all_cells :: "nat list" where
  "all_cells = concat (map (\<lambda>col. map (\<lambda>row. VGA_COLS * row + col) [0..<VGA_ROWS]) [0..<VGA_COLS])"

lemma set_all_cells: "set all_cells = {..<n_cells}"
proof
  show "set all_cells \<subseteq> {..<n_cells}" by (auto simp: all_cells_def vga_dims)
  show "{..<n_cells} \<subseteq> set all_cells"
  proof
    fix i assume "i \<in> {..<n_cells}"
    then have "i = VGA_COLS * (i div VGA_COLS) + i mod VGA_COLS" "i div VGA_COLS < VGA_ROWS"
      "i mod VGA_COLS < VGA_COLS"
      by (auto simp: vga_dims)
    then have "i \<in> (\<lambda>row. VGA_COLS * row + i mod VGA_COLS) ` {0..<VGA_ROWS}"
      "i mod VGA_COLS \<in> {0..<VGA_COLS}"
      by (intro image_eqI [of _ _ "i div VGA_COLS"]) (simp_all add: vga_dims)
    then show "i \<in> set all_cells" by (auto simp: all_cells_def)
  qed
qed

lemma tty_clear_blank: "tty_clear s = blank_all all_cells (s\<lparr>vga_col := 0, vga_row := 0\<rparr>)"
proof -
  have "fold (\<lambda>row s. vga_store (of_nat (VGA_COLS * row + col)) (get_blank s) s) xs t =
      blank_all (map (\<lambda>row. VGA_COLS * row + col) xs) t" for col xs and t :: "'a tty_scheme"
    by (induction xs arbitrary: t) simp_all
  then have inner: "fold (\<lambda>row s. vga_store (of_nat (VGA_COLS * row + col)) (get_blank s) s) xs =
      (blank_all (map (\<lambda>row. VGA_COLS * row + col) xs) :: 'a tty_scheme \<Rightarrow> _)" for col xs
    by (rule ext)
  have "fold (\<lambda>x. blank_all (g x)) xs t = blank_all (concat (map g xs)) t"
    for g :: "nat \<Rightarrow> nat list" and xs and t :: "'a tty_scheme"
    by (induction xs arbitrary: t) (simp_all add: blank_all_def)
  then show ?thesis by (simp only: tty_clear_def inner all_cells_def)
qed

lemma cell_cursor_update [simp]:
  "cell (vga_col_update f s) i = cell s i" "cell (vga_row_update g s) i = cell s i"
  "cell (tty_color_update h s) i = cell s i"
  by (simp_all add: cell_def)

lemma get_blank_cursor_update [simp]:
  "get_blank (vga_col_update f s) = get_blank s" "get_blank (vga_row_update g s) = get_blank s"
  "get_blank (memory_update h s) = get_blank s"
  by (simp_all add: get_blank_def)

lemma cell_tty_clear [mem_simps]: "i < n_cells \<Longrightarrow> cell (tty_clear s) i = get_blank s"
  by (simp add: tty_clear_blank mem_simps set_all_cells)

lemma tty_clear_fields [simp]:
  "vga_col (tty_clear s) = 0" "vga_row (tty_clear s) = 0" "tty_color (tty_clear s) = tty_color s"
  "tty.more (tty_clear s) = tty.more s"
  by (simp_all add: tty_clear_blank)

lemma tty_clear_op: "tty_op tty_clear"
  by unfold_locales
    (simp_all add: wf_tty_def vga_dims tty_clear_blank frame_simps set_all_cells)

definition scroll_move :: "mem \<Rightarrow> mem" where
  "scroll_move m = memmove vga_buffer (vga_buffer + 2 * of_nat VGA_COLS)
     (of_nat (VGA_COLS * (VGA_ROWS - 1) * 2)) m"

definition last_row :: "nat list" where
  "last_row = map (\<lambda>col. VGA_COLS * (VGA_ROWS - 1) + col) [0..<VGA_COLS]"

lemma set_last_row: "set last_row = {VGA_COLS * (VGA_ROWS - 1)..<n_cells}"
proof -
  have "set last_row = (\<lambda>c. VGA_COLS * (VGA_ROWS - 1) + c) ` {0..<VGA_COLS}"
    by (simp add: last_row_def)
  then show ?thesis by (simp add: vga_dims image_add_atLeastLessThan)
qed

lemma tty_scroll_up_blank:
  "tty_scroll_up s = blank_all last_row (s\<lparr>memory := scroll_move (memory s)\<rparr>)"
proof -
  have "fold (\<lambda>col s. vga_store (of_nat (k + col)) (get_blank s) s) xs t =
      blank_all (map (\<lambda>col. k + col) xs) t" for k xs and t :: "'a tty_scheme"
    by (induction xs arbitrary: t) simp_all
  then show ?thesis
    by (simp add: tty_scroll_up_def scroll_move_def last_row_def Let_def del: of_nat_add)
qed

lemma scroll_size: "unat (of_nat (VGA_COLS * (VGA_ROWS - 1) * 2) :: u32) = 3840"
  by (simp add: vga_dims)

lemma scroll_region:
  "valid_region vga_buffer (unat (of_nat (VGA_COLS * (VGA_ROWS - 1) * 2) :: u32))"
  "valid_region (vga_buffer + 2 * of_nat VGA_COLS) (unat (of_nat (VGA_COLS * (VGA_ROWS - 1) * 2) :: u32))"
  "unat (of_nat (VGA_COLS * (VGA_ROWS - 1) * 2) :: u32) \<le> 2 ^ 31"
  by (simp_all add: valid_region_def vga_buffer_def vga_dims)

lemma scroll_move_cell:
  assumes "i < VGA_COLS * (VGA_ROWS - 1)"
  shows "load16 (scroll_move m) (vga_buffer + 2 * of_nat i) =
    load16 m (vga_buffer + 2 * of_nat (i + VGA_COLS))"
  using move.move_load16 [OF scroll_region, where k = "2 * i" and m = m, unfolded scroll_size] assms
  by (simp add: scroll_move_def vga_dims algebra_simps)

lemma scroll_move_frame:
  assumes "\<not> vga_byte a"
  shows "scroll_move m a = m a"
  unfolding scroll_move_def
  using assms
  by (intro move.move_frame [OF scroll_region]) (simp add: vga_byte_def in_region_def vga_dims)

lemma cell_tty_scroll_up [mem_simps]:
  "i < n_cells \<Longrightarrow> cell (tty_scroll_up s) i =
    (if i < VGA_COLS * (VGA_ROWS - 1) then cell s (i + VGA_COLS) else get_blank s)"
  by (simp add: tty_scroll_up_blank mem_simps set_last_row)
     (simp add: cell_def scroll_move_cell)

lemma tty_scroll_up_fields [simp]:
  "vga_col (tty_scroll_up s) = vga_col s" "vga_row (tty_scroll_up s) = vga_row s"
  "tty_color (tty_scroll_up s) = tty_color s" "tty.more (tty_scroll_up s) = tty.more s"
  by (simp_all add: tty_scroll_up_blank)

lemma tty_scroll_up_frame [frame_simps]:
  "\<not> vga_byte a \<Longrightarrow> memory (tty_scroll_up s) a = memory s a"
  by (simp add: tty_scroll_up_blank frame_simps set_last_row scroll_move_frame)

lemma tty_scroll_up_op: "tty_op tty_scroll_up"
  by unfold_locales (simp_all add: wf_tty_def frame_simps)

section \<open>Printing a character\<close>

text \<open>The index of the cell under the cursor, and the cursor's move after a character.\<close>

definition cursor :: "'a tty_scheme \<Rightarrow> nat" where
  "cursor s = nat (int VGA_COLS * vga_row s + vga_col s)"

lemma cursor_bound: "wf_tty s \<Longrightarrow> cursor s < n_cells"
  by (simp add: wf_tty_def cursor_def vga_dims nat_less_iff)

lemma cursor_index:
  assumes "wf_tty s"
  shows "word_of_int (int VGA_COLS * vga_row s + vga_col s) = (of_nat (cursor s) :: u32)"
proof -
  have "int VGA_COLS * vga_row s + vga_col s = int (cursor s)"
    using assms by (simp add: wf_tty_def cursor_def vga_dims)
  then show ?thesis by simp
qed

text \<open>What \<open>tty_putc\<close> does to the cursor, before a possible scroll.\<close>

definition next_line :: "'a tty_scheme \<Rightarrow> 'a tty_scheme" where
  "next_line s =
     (if vga_row s + 1 \<ge> int VGA_ROWS then tty_scroll_up (s\<lparr>vga_col := 0\<rparr>)
      else s\<lparr>vga_col := 0, vga_row := vga_row s + 1\<rparr>)"

lemma tty_putc_newline:
  "wf_tty s \<Longrightarrow> tty_putc (ch CHR ''\<newline>'') s = next_line s"
  by (simp add: tty_putc_def next_line_def wf_tty_def vga_dims)

lemma tty_putc_char:
  assumes "wf_tty s" "c \<noteq> ch CHR ''\<newline>''"
  shows "tty_putc c s =
    (let s' = vga_store (of_nat (cursor s)) (char_cell (tty_color s) c) s
     in if vga_col s + 1 \<ge> int VGA_COLS then next_line s' else s'\<lparr>vga_col := vga_col s + 1\<rparr>)"
  using assms unfolding tty_putc_def Let_def cursor_index [OF assms(1)]
  by (simp add: next_line_def wf_tty_def vga_dims vga_store_def)

lemma next_line_fields [simp]:
  "vga_col (next_line s) = 0"
  "vga_row (next_line s) = (if vga_row s + 1 \<ge> int VGA_ROWS then vga_row s else vga_row s + 1)"
  "tty_color (next_line s) = tty_color s" "tty.more (next_line s) = tty.more s"
  by (simp_all add: next_line_def)

lemma next_line_op: "tty_op next_line"
  by unfold_locales (auto simp: next_line_def wf_tty_def vga_dims frame_simps)

lemma next_line_frame [frame_simps]: "\<not> vga_byte a \<Longrightarrow> memory (next_line s) a = memory s a"
  by (simp add: next_line_def frame_simps)

lemma next_line_wf: "wf_tty s \<Longrightarrow> wf_tty (next_line s)"
  by (simp add: wf_tty_def vga_dims)

section \<open>Every operation keeps the console contract\<close>

lemma tty_putc_wf: "wf_tty s \<Longrightarrow> wf_tty (tty_putc c s)"
  by (cases "c = ch CHR ''\<newline>''")
     (auto simp: tty_putc_newline tty_putc_char Let_def next_line_wf wf_tty_def vga_dims
        simp del: of_char_Char)

lemma tty_putc_frame [frame_simps]:
  "wf_tty s \<Longrightarrow> \<not> vga_byte a \<Longrightarrow> memory (tty_putc c s) a = memory s a"
  by (cases "c = ch CHR ''\<newline>''")
     (auto simp: tty_putc_newline tty_putc_char Let_def frame_simps cursor_bound simp del: of_char_Char)

lemma tty_putc_more [simp]: "tty.more (tty_putc c s) = tty.more s"
  by (simp add: tty_putc_def Let_def)

lemma tty_putc_color [simp]: "tty_color (tty_putc c s) = tty_color s"
  by (simp add: tty_putc_def Let_def)

lemma tty_putc_op: "tty_op (tty_putc c)"
  by unfold_locales (simp_all add: tty_putc_wf frame_simps)

lemma tty_set_fg_op: "tty_op (tty_set_fg c)" and tty_set_bg_op: "tty_op (tty_set_bg c)"
  by (unfold_locales, simp_all add: tty_set_fg_def tty_set_bg_def wf_tty_def)

text \<open>The same facts in the form in which the composed operations call them.\<close>

lemmas tty_op_steps =
  tty_op_comp [OF _ tty_putc_op] tty_op_comp [OF _ tty_set_fg_op] tty_op_comp [OF _ tty_set_bg_op]

lemma tty_puts_op: "tty_op (tty_puts cs :: 'a tty_scheme \<Rightarrow> 'a tty_scheme)"
proof (induction cs)
  case Nil
  show ?case by (simp add: tty_op_def)
next
  case (Cons c cs)
  have "tty_op (\<lambda>s :: 'a tty_scheme. tty_puts cs (tty_putc c s))"
    using tty_putc_op Cons.IH by (rule tty_op_comp)
  then show ?case by (cases "c = 0") (simp_all add: tty_op_def)
qed

lemma output_num_op: "tty_op (output_num n)"
  unfolding output_num_def Let_def
  by (cases "n < 10") (simp_all only: if_True if_False, (intro tty_op_steps tty_op_id)+)

lemma tty_print_colormap_op: "tty_op tty_print_colormap"
proof -
  have fg: "tty_op (\<lambda>s :: 'a tty_scheme. output_num (of_nat fg) (tty_set_fg (of_nat fg) s))" for fg
    by (rule tty_op_comp [OF tty_set_fg_op output_num_op])
  have bg: "tty_op (\<lambda>s :: 'a tty_scheme. output_num (of_nat bg) (tty_set_bg (of_nat bg)
      (if bg \<ge> 8 then tty_set_fg 0 s else s)))" for bg
    by (intro tty_op_comp [OF _ output_num_op] tty_op_steps tty_op_if tty_op_id tty_set_fg_op)
  show ?thesis
    unfolding tty_print_colormap_def Let_def
    by (intro tty_op_steps tty_op_comp [OF _ tty_op_fold [OF bg]]
        tty_op_comp [OF _ tty_op_fold [OF fg]] tty_puts_op)
qed

lemma tty_ascii_printable_table_op: "tty_op tty_ascii_printable_table"
proof -
  have "tty_op (\<lambda>s :: 'a tty_scheme.
      let s = (if c mod 32 = 0 \<and> c > 0 then tty_putc (ch CHR ''\<newline>'') s else s);
          s = (if c mod 32 \<noteq> 0 then tty_putc (ch CHR '' '') s else s)
      in if c = 0x00 \<or> c = 0x20 then tty_putc (ch CHR '' '') s else tty_putc (of_nat c) s)" for c
    unfolding Let_def
    by (cases "c = 0 \<or> c = 0x20"; cases "c mod 32 = 0"; cases "0 < c")
       (simp_all only: if_True if_False simp_thms, (intro tty_op_steps tty_op_id)+)
  then show ?thesis
    unfolding tty_ascii_printable_table_def Let_def
    by (intro tty_op_steps tty_op_fold)
qed

interpretation clear: tty_op tty_clear by (rule tty_clear_op)
interpretation init: tty_op tty_init unfolding tty_init_def [abs_def] by (rule tty_clear_op)
interpretation scroll: tty_op tty_scroll_up by (rule tty_scroll_up_op)
interpretation putc: tty_op "tty_putc c" for c by (rule tty_putc_op)
interpretation puts: tty_op "tty_puts cs" for cs by (rule tty_puts_op)
interpretation set_fg: tty_op "tty_set_fg c" for c by (rule tty_set_fg_op)
interpretation set_bg: tty_op "tty_set_bg c" for c by (rule tty_set_bg_op)
interpretation num: tty_op "output_num n" for n by (rule output_num_op)
interpretation colormap: tty_op tty_print_colormap by (rule tty_print_colormap_op)
interpretation table: tty_op tty_ascii_printable_table by (rule tty_ascii_printable_table_op)

end
