(* ===== verification/Out.thy ===== *)
theory Out
  imports Tty
begin

text \<open>
  The output functions of \<^verbatim>\<open>libc/stdio.c\<close>: what the formatting routines call for
  every character, with the running index and the buffer size. An output function of the
  source mutates what its \<open>buffer\<close> argument points to; here it takes that state and returns
  it. \<open>emit\<close> is the effect of sending a whole text, and the locales say what the two kinds of
  output function (a stream, a bounded buffer) make of it.
\<close>

section \<open>Output functions\<close>

type_synonym 's out_fct = "u8 \<Rightarrow> 's \<Rightarrow> u32 \<Rightarrow> u32 \<Rightarrow> 's"

text \<open>\<open>_out_buffer\<close> writes to the memory at the address its buffer pointer holds.\<close>

definition out_buffer :: "u32 \<Rightarrow> mem out_fct" where
  "out_buffer buffer character m idx maxlen =
     (if idx < maxlen then m(buffer + idx := character) else m)"

definition out_null :: "'s out_fct" where
  "out_null character s idx maxlen = s"

text \<open>\<open>_out_char\<close> prints on the console through \<open>_putchar\<close>.\<close>

definition out_char :: "'a tty_scheme out_fct" where
  "out_char character s idx maxlen = (if character \<noteq> 0 then putchar character s else s)"

text \<open>\<open>_out_fct\<close> calls a function of the client, which acts on the client's state.\<close>

definition out_wrap :: "(u8 \<Rightarrow> 's \<Rightarrow> 's) \<Rightarrow> 's out_fct" where
  "out_wrap fct character s idx maxlen = (if character \<noteq> 0 then fct character s else s)"

section \<open>Sending a text\<close>

fun emit :: "'s out_fct \<Rightarrow> u32 \<Rightarrow> u32 \<Rightarrow> u8 list \<Rightarrow> 's \<Rightarrow> 's" where
  "emit out maxlen idx [] s = s"
| "emit out maxlen idx (c # cs) s = emit out maxlen (idx + 1) cs (out c s idx maxlen)"

lemma emit_append:
  "emit out maxlen idx (xs @ ys) s =
     emit out maxlen (idx + of_nat (length xs)) ys (emit out maxlen idx xs s)"
  by (induction xs arbitrary: idx s) (simp_all add: add.assoc)

text \<open>
  A formatting routine sends the text \<open>txt\<close> when its effect is to emit it and its result is
  the index after it; \<open>sends\<close> is how the correctness of every routine is stated.
\<close>

definition sends :: "'s out_fct \<Rightarrow> u32 \<Rightarrow> u32 \<Rightarrow> 's \<Rightarrow> u8 list \<Rightarrow> 's \<times> u32" where
  "sends out maxlen idx s txt = (emit out maxlen idx txt s, idx + of_nat (length txt))"

lemma sends_Nil [simp]: "sends out maxlen idx s [] = (s, idx)"
  by (simp add: sends_def)

lemma sends_Cons [simp]:
  "sends out maxlen (idx + 1) (out c s idx maxlen) cs = sends out maxlen idx s (c # cs)"
  by (simp add: sends_def add.assoc)

lemma sends_append:
  "sends out maxlen (snd (sends out maxlen idx s xs)) (fst (sends out maxlen idx s xs)) ys =
     sends out maxlen idx s (xs @ ys)"
  by (simp add: sends_def emit_append add.assoc)

lemma case_sends:
  "(case sends out maxlen idx s xs of (t, i) \<Rightarrow> sends out maxlen i t ys) =
     sends out maxlen idx s (xs @ ys)"
  by (simp add: sends_def emit_append add.assoc)

section \<open>Streams\<close>

text \<open>
  A stream takes every non-zero character in order, whatever the index: the console and the
  client functions. The terminating zero of a text is dropped.
\<close>

locale stream_sink =
  fixes out :: "'s out_fct" and put :: "u8 \<Rightarrow> 's \<Rightarrow> 's"
  assumes out_put: "out c s idx maxlen = (if c \<noteq> 0 then put c s else s)"
begin

lemma emit_stream: "emit out maxlen idx cs s = fold put (filter (\<lambda>c. c \<noteq> 0) cs) s"
  by (induction cs arbitrary: idx s) (simp_all add: out_put)

lemma out_zero: "out 0 s idx maxlen = s"
  by (simp add: out_put)

end

interpretation console: stream_sink out_char tty_putc
  by unfold_locales (simp add: out_char_def putchar_def)

interpretation wrapped: stream_sink "out_wrap fct" fct for fct
  by unfold_locales (simp add: out_wrap_def)

section \<open>Bounded buffers\<close>

text \<open>
  A bounded buffer stores the character with index \<open>idx\<close> at its place when that place is
  below \<open>maxlen\<close>, and nothing otherwise; \<open>look\<close> reads the place \<open>k\<close> of the state.
\<close>

locale buffer_sink =
  fixes out :: "'s out_fct" and look :: "'s \<Rightarrow> u32 \<Rightarrow> u8"
  assumes look_out: "look (out c s idx maxlen) k = (if k = idx \<and> idx < maxlen then c else look s k)"
begin

text \<open>Places at or past \<open>maxlen\<close> are never written.\<close>

lemma emit_bounded: "\<not> k < maxlen \<Longrightarrow> look (emit out maxlen idx cs s) k = look s k"
  by (induction cs arbitrary: idx s) (auto simp: look_out)

text \<open>The places of a text that does not wrap around the index type hold the text.\<close>

lemma emit_stored:
  assumes "unat idx + length cs \<le> 2 ^ 32"
  shows "look (emit out maxlen idx cs s) k =
    (if unat idx \<le> unat k \<and> unat k < unat idx + length cs \<and> k < maxlen
     then cs ! (unat k - unat idx) else look s k)"
  using assms
proof (induction cs arbitrary: idx s)
  case Nil
  then show ?case by auto
next
  case (Cons c cs)
  have inc: "unat (idx + 1) = Suc (unat idx)" if "cs \<noteq> []"
    using that Cons.prems unat_plus [of idx 1] by (cases cs) auto
  have eq: "k = idx \<longleftrightarrow> unat k = unat idx" by (simp add: word_unat_eq_iff)
  show ?case
  proof (cases "cs = []")
    case True
    moreover have "unat k \<noteq> unat idx" if "k \<noteq> idx" using that eq by simp
    ultimately show ?thesis by (cases "k = idx") (auto simp: look_out)
  next
    case False
    have "look (emit out maxlen (idx + 1) cs (out c s idx maxlen)) k =
      (if unat (idx + 1) \<le> unat k \<and> unat k < unat (idx + 1) + length cs \<and> k < maxlen
       then cs ! (unat k - unat (idx + 1)) else look (out c s idx maxlen) k)"
      using Cons.prems inc [OF False] by (intro Cons.IH) simp
    moreover have "unat k \<noteq> unat idx" if "k \<noteq> idx" using that eq by simp
    ultimately show ?thesis
      using inc [OF False] by (cases "k = idx") (auto simp: look_out nth_Cons')
  qed
qed

end

text \<open>The place \<open>k\<close> of a buffer is the byte \<open>k\<close> above its address.\<close>

definition buffer_at :: "u32 \<Rightarrow> mem \<Rightarrow> u32 \<Rightarrow> u8" where
  "buffer_at buffer m k = m (buffer + k)"

interpretation buffer: buffer_sink "out_buffer buffer" "buffer_at buffer" for buffer
  by unfold_locales (simp add: out_buffer_def buffer_at_def)

lemma out_null_emit [simp]: "emit out_null maxlen idx cs s = s"
  by (induction cs arbitrary: idx) (simp_all add: out_null_def)

end
