(* ===== verification/Ntoa.thy ===== *)
theory Ntoa
  imports Out
begin

text \<open>
  The integer half of the formatting routines of \<^verbatim>\<open>libc/stdio.c\<close>: the flag bits, the
  string helpers, the reversed output with padding, and the conversion of an unsigned number to
  the digits of a base. The digits are collected least significant first in a buffer of 32
  bytes, which is kept here as the list of its bytes and the number of them in use.
\<close>

section \<open>Flags\<close>

definition FLAGS_ZEROPAD :: u32 where "FLAGS_ZEROPAD = push_bit 0 1"
definition FLAGS_LEFT :: u32 where "FLAGS_LEFT = push_bit 1 1"
definition FLAGS_PLUS :: u32 where "FLAGS_PLUS = push_bit 2 1"
definition FLAGS_SPACE :: u32 where "FLAGS_SPACE = push_bit 3 1"
definition FLAGS_HASH :: u32 where "FLAGS_HASH = push_bit 4 1"
definition FLAGS_UPPERCASE :: u32 where "FLAGS_UPPERCASE = push_bit 5 1"
definition FLAGS_CHAR :: u32 where "FLAGS_CHAR = push_bit 6 1"
definition FLAGS_SHORT :: u32 where "FLAGS_SHORT = push_bit 7 1"
definition FLAGS_LONG :: u32 where "FLAGS_LONG = push_bit 8 1"
definition FLAGS_LONG_LONG :: u32 where "FLAGS_LONG_LONG = push_bit 9 1"
definition FLAGS_PRECISION :: u32 where "FLAGS_PRECISION = push_bit 10 1"
definition FLAGS_ADAPT_EXP :: u32 where "FLAGS_ADAPT_EXP = push_bit 11 1"

lemmas flag_defs =
  FLAGS_ZEROPAD_def FLAGS_LEFT_def FLAGS_PLUS_def FLAGS_SPACE_def FLAGS_HASH_def
  FLAGS_UPPERCASE_def FLAGS_CHAR_def FLAGS_SHORT_def FLAGS_LONG_def FLAGS_LONG_LONG_def
  FLAGS_PRECISION_def FLAGS_ADAPT_EXP_def

text \<open>\<^verbatim>\<open>flags & F\<close> as a condition.\<close>

definition has :: "u32 \<Rightarrow> u32 \<Rightarrow> bool" where
  "has flags F \<longleftrightarrow> flags AND F \<noteq> 0"

lemma has_push_bit: "has flags (push_bit n 1) \<longleftrightarrow> bit flags n"
  by (simp add: has_def push_bit_of_1 and_exp_eq_0_iff_not_bit)

lemma has_or: "has flags (F OR G) \<longleftrightarrow> has flags F \<or> has flags G"
  by (simp add: has_def bit.conj_disj_distrib or_eq_0_iff)

lemma has_iff_bit:
  "has flags FLAGS_ZEROPAD \<longleftrightarrow> bit flags 0" "has flags FLAGS_LEFT \<longleftrightarrow> bit flags 1"
  "has flags FLAGS_PLUS \<longleftrightarrow> bit flags 2" "has flags FLAGS_SPACE \<longleftrightarrow> bit flags 3"
  "has flags FLAGS_HASH \<longleftrightarrow> bit flags 4" "has flags FLAGS_UPPERCASE \<longleftrightarrow> bit flags 5"
  "has flags FLAGS_CHAR \<longleftrightarrow> bit flags 6" "has flags FLAGS_SHORT \<longleftrightarrow> bit flags 7"
  "has flags FLAGS_LONG \<longleftrightarrow> bit flags 8" "has flags FLAGS_LONG_LONG \<longleftrightarrow> bit flags 9"
  "has flags FLAGS_PRECISION \<longleftrightarrow> bit flags 10" "has flags FLAGS_ADAPT_EXP \<longleftrightarrow> bit flags 11"
  unfolding flag_defs by (rule has_push_bit)+

lemma and_not_unset: "\<not> has flags F \<Longrightarrow> flags AND NOT F = flags"
proof -
  assume "\<not> has flags F"
  then have "flags AND F = 0" by (simp add: has_def)
  moreover have "flags = (flags AND F) OR (flags AND NOT F)"
    by (rule bit_word_eqI) (auto simp: bit_simps)
  ultimately show ?thesis by simp
qed

section \<open>String helpers\<close>

text \<open>
  The text of a C string up to its terminating zero is a list; the byte after the list is the
  zero. \<^verbatim>\<open>for (s = str; *s && maxsize--; ++s);\<close> with \<open>maxsize\<close> of type \<open>size_t\<close>.
\<close>

fun strnlen_s :: "u8 list \<Rightarrow> u32 \<Rightarrow> u32" where
  "strnlen_s [] maxsize = 0"
| "strnlen_s (c # cs) maxsize =
     (if c \<noteq> 0 \<and> maxsize \<noteq> 0 then 1 + strnlen_s cs (maxsize - 1) else 0)"

text \<open>The comparisons are on promoted \<open>char\<close>s, that is, signed.\<close>

definition is_digit :: "u8 \<Rightarrow> bool" where
  "is_digit c \<longleftrightarrow> sint c \<ge> sint (ch CHR ''0'') \<and> sint c \<le> sint (ch CHR ''9'')"

text \<open>
  \<open>_atoi\<close> advances the caller's string pointer past the digits; it returns the value (with
  the wrap-around of \<open>unsigned int\<close>) and the rest of the string.
\<close>

fun atoi_loop :: "u32 \<Rightarrow> u8 list \<Rightarrow> u32 \<times> u8 list" where
  "atoi_loop i [] = (i, [])"
| "atoi_loop i (c # cs) =
     (if is_digit c then atoi_loop (i * 10 + (scast c - of_char CHR ''0'')) cs else (i, c # cs))"

definition atoi :: "u8 list \<Rightarrow> u32 \<times> u8 list" where
  "atoi str = atoi_loop 0 str"

section \<open>Reversed output\<close>

text \<open>\<^verbatim>\<open>for (size_t i = len; i < width; i++) out(' ', buffer, idx++, maxlen);\<close>\<close>

function pad_before :: "'s out_fct \<Rightarrow> u32 \<Rightarrow> u32 \<Rightarrow> u32 \<Rightarrow> u32 \<Rightarrow> 's \<Rightarrow> 's \<times> u32" where
  "pad_before out maxlen i width idx s =
     (if i < width then pad_before out maxlen (i + 1) width (idx + 1) (out (ch CHR '' '') s idx maxlen)
      else (s, idx))"
  by pat_completeness auto
termination
  by (relation "measure (\<lambda>(out, maxlen, i, width, idx, s). unat width - unat i)")
     (auto simp: unat_diff_inc_less)

text \<open>\<^verbatim>\<open>while (len) out(buf[--len], buffer, idx++, maxlen);\<close>\<close>

fun put_reverse :: "'s out_fct \<Rightarrow> u32 \<Rightarrow> u8 list \<Rightarrow> nat \<Rightarrow> u32 \<Rightarrow> 's \<Rightarrow> 's \<times> u32" where
  "put_reverse out maxlen buf 0 idx s = (s, idx)"
| "put_reverse out maxlen buf (Suc len) idx s =
     put_reverse out maxlen buf len (idx + 1) (out (buf ! len) s idx maxlen)"

text \<open>\<^verbatim>\<open>while (idx - start_idx < width) out(' ', buffer, idx++, maxlen);\<close>\<close>

function pad_after :: "'s out_fct \<Rightarrow> u32 \<Rightarrow> u32 \<Rightarrow> u32 \<Rightarrow> u32 \<Rightarrow> 's \<Rightarrow> 's \<times> u32" where
  "pad_after out maxlen start width idx s =
     (if idx - start < width
      then pad_after out maxlen start width (idx + 1) (out (ch CHR '' '') s idx maxlen)
      else (s, idx))"
  by pat_completeness auto
termination
proof (relation "measure (\<lambda>(out, maxlen, start, width, idx, s). unat width - unat (idx - start))")
  fix out :: "'s out_fct" and maxlen start width idx :: u32 and s :: 's
  assume "idx - start < width"
  then show "((out, maxlen, start, width, idx + 1, out (ch CHR '' '') s idx maxlen),
      (out, maxlen, start, width, idx, s)) \<in>
    measure (\<lambda>(out, maxlen, start, width, idx, s). unat width - unat (idx - start))"
    using unat_diff_inc_less [of "idx - start" width] by (simp add: algebra_simps)
qed simp

declare pad_before.simps [simp del] pad_after.simps [simp del]

definition out_rev ::
  "'s out_fct \<Rightarrow> u32 \<Rightarrow> u32 \<Rightarrow> u8 list \<Rightarrow> nat \<Rightarrow> u32 \<Rightarrow> u32 \<Rightarrow> 's \<Rightarrow> 's \<times> u32" where
  "out_rev out idx maxlen buf len width flags s =
     (let start_idx = idx;
          (s, idx) = (if \<not> has flags FLAGS_LEFT \<and> \<not> has flags FLAGS_ZEROPAD
                      then pad_before out maxlen (of_nat len) width idx s else (s, idx));
          (s, idx) = put_reverse out maxlen buf len idx s
      in if has flags FLAGS_LEFT then pad_after out maxlen start_idx width idx s else (s, idx))"

section \<open>Numbers\<close>

definition PRINTF_NTOA_BUFFER_SIZE :: nat where "PRINTF_NTOA_BUFFER_SIZE = 32"

text \<open>
  \<^verbatim>\<open>while (len < limit && len < PRINTF_NTOA_BUFFER_SIZE) buf[len++] = '0';\<close>
\<close>

function zero_fill :: "nat \<Rightarrow> u8 list \<Rightarrow> nat \<Rightarrow> u8 list \<times> nat" where
  "zero_fill limit buf len =
     (if len < limit \<and> len < PRINTF_NTOA_BUFFER_SIZE
      then zero_fill limit (buf[len := ch CHR ''0'']) (len + 1) else (buf, len))"
  by pat_completeness auto
termination
  by (relation "measure (\<lambda>(limit, buf, len). limit - len)") auto

declare zero_fill.simps [simp del]

text \<open>The first part of \<open>_ntoa_format\<close>, ``pad leading zeros''; it may decrement \<open>width\<close>.\<close>

definition ntoa_pad ::
  "u8 list \<Rightarrow> nat \<Rightarrow> bool \<Rightarrow> u32 \<Rightarrow> u32 \<Rightarrow> u32 \<Rightarrow> u8 list \<times> nat \<times> u32" where
  "ntoa_pad buf len negative prec width flags =
     (if \<not> has flags FLAGS_LEFT
      then (let width = (if width \<noteq> 0 \<and> has flags FLAGS_ZEROPAD \<and>
                            (negative \<or> has flags (FLAGS_PLUS OR FLAGS_SPACE))
                         then width - 1 else width);
                (buf, len) = zero_fill (unat prec) buf len;
                (buf, len) = (if has flags FLAGS_ZEROPAD then zero_fill (unat width) buf len
                              else (buf, len))
            in (buf, len, width))
      else (buf, len, width))"

text \<open>``handle hash''\<close>

definition ntoa_hash ::
  "u8 list \<Rightarrow> nat \<Rightarrow> u32 \<Rightarrow> u32 \<Rightarrow> u32 \<Rightarrow> u32 \<Rightarrow> u8 list \<times> nat" where
  "ntoa_hash buf len base prec width flags =
     (if has flags FLAGS_HASH
      then (let len = (if \<not> has flags FLAGS_PRECISION \<and> len \<noteq> 0 \<and>
                          (len = unat prec \<or> len = unat width)
                       then (let len = len - 1
                             in if len \<noteq> 0 \<and> base = 16 then len - 1 else len)
                       else len);
                (buf, len) =
                  (if base = 16 \<and> \<not> has flags FLAGS_UPPERCASE \<and> len < PRINTF_NTOA_BUFFER_SIZE
                   then (buf[len := ch CHR ''x''], len + 1)
                   else if base = 16 \<and> has flags FLAGS_UPPERCASE \<and> len < PRINTF_NTOA_BUFFER_SIZE
                   then (buf[len := ch CHR ''X''], len + 1)
                   else if base = 2 \<and> len < PRINTF_NTOA_BUFFER_SIZE
                   then (buf[len := ch CHR ''b''], len + 1)
                   else (buf, len))
            in if len < PRINTF_NTOA_BUFFER_SIZE then (buf[len := ch CHR ''0''], len + 1)
               else (buf, len))
      else (buf, len))"

text \<open>The sign, the same in \<open>_ntoa_format\<close> and \<open>_ftoa\<close>.\<close>

definition put_sign :: "u8 list \<Rightarrow> nat \<Rightarrow> bool \<Rightarrow> u32 \<Rightarrow> u8 list \<times> nat" where
  "put_sign buf len negative flags =
     (if len < PRINTF_NTOA_BUFFER_SIZE
      then (if negative then (buf[len := ch CHR ''-''], len + 1)
            else if has flags FLAGS_PLUS then (buf[len := ch CHR ''+''], len + 1)
            else if has flags FLAGS_SPACE then (buf[len := ch CHR '' ''], len + 1)
            else (buf, len))
      else (buf, len))"

definition ntoa_format ::
  "'s out_fct \<Rightarrow> u32 \<Rightarrow> u32 \<Rightarrow> u8 list \<Rightarrow> nat \<Rightarrow> bool \<Rightarrow> u32 \<Rightarrow> u32 \<Rightarrow> u32 \<Rightarrow> u32 \<Rightarrow> 's \<Rightarrow> 's \<times> u32"
where
  "ntoa_format out idx maxlen buf len negative base prec width flags s =
     (let (buf, len, width) = ntoa_pad buf len negative prec width flags;
          (buf, len) = ntoa_hash buf len base prec width flags;
          (buf, len) = put_sign buf len negative flags
      in out_rev out idx maxlen buf len width flags s)"

text \<open>
  \<open>buf[len++] = digit < 10 ? '0' + digit : (flags & FLAGS_UPPERCASE ? 'A' : 'a') + digit - 10\<close>
\<close>

definition digit_char :: "u32 \<Rightarrow> u8 \<Rightarrow> u8" where
  "digit_char flags digit =
     (if digit < 10 then ch CHR ''0'' + digit
      else (if has flags FLAGS_UPPERCASE then ch CHR ''A'' else ch CHR ''a'') + digit - 10)"

text \<open>
  The digit loop, which \<open>_ntoa_long\<close> and \<open>_ntoa_long_long\<close> share at their two widths:
  \<^verbatim>\<open>do { ... } while (value && (len < PRINTF_NTOA_BUFFER_SIZE));\<close>
\<close>

function digit_loop ::
  "'w::len word \<Rightarrow> 'w word \<Rightarrow> u32 \<Rightarrow> u8 list \<Rightarrow> nat \<Rightarrow> u8 list \<times> nat" where
  "digit_loop value base flags buf len =
     (let digit = ucast (value mod base);
          buf = buf[len := digit_char flags digit];
          len = len + 1;
          value = value div base
      in if value \<noteq> 0 \<and> len < PRINTF_NTOA_BUFFER_SIZE
         then digit_loop value base flags buf len else (buf, len))"
  by pat_completeness auto
termination
  by (relation "measure (\<lambda>(value, base, flags, buf, len). PRINTF_NTOA_BUFFER_SIZE - len)") auto

declare digit_loop.simps [simp del]

definition no_hash_for_zero :: "'w::len word \<Rightarrow> u32 \<Rightarrow> u32" where
  "no_hash_for_zero value flags = (if value = 0 then flags AND NOT FLAGS_HASH else flags)"

text \<open>
  The stack buffer is uninitialised in the code; it is read below \<open>len\<close> only, where it has
  been written, so its first content is immaterial and zeros stand for it.
\<close>

definition ntoa_buf :: "u8 list" where
  "ntoa_buf = replicate PRINTF_NTOA_BUFFER_SIZE 0"

definition ntoa_digits :: "'w::len word \<Rightarrow> 'w word \<Rightarrow> u32 \<Rightarrow> u8 list \<times> nat" where
  "ntoa_digits value base flags =
     (if \<not> has flags FLAGS_PRECISION \<or> value \<noteq> 0
      then digit_loop value base flags ntoa_buf 0 else (ntoa_buf, 0))"

definition ntoa_long ::
  "'s out_fct \<Rightarrow> u32 \<Rightarrow> u32 \<Rightarrow> u32 \<Rightarrow> bool \<Rightarrow> u32 \<Rightarrow> u32 \<Rightarrow> u32 \<Rightarrow> u32 \<Rightarrow> 's \<Rightarrow> 's \<times> u32" where
  "ntoa_long out idx maxlen value negative base prec width flags s =
     (let flags = no_hash_for_zero value flags;
          (buf, len) = ntoa_digits value base flags
      in ntoa_format out idx maxlen buf len negative base prec width flags s)"

definition ntoa_long_long ::
  "'s out_fct \<Rightarrow> u32 \<Rightarrow> u32 \<Rightarrow> u64 \<Rightarrow> bool \<Rightarrow> u64 \<Rightarrow> u32 \<Rightarrow> u32 \<Rightarrow> u32 \<Rightarrow> 's \<Rightarrow> 's \<times> u32" where
  "ntoa_long_long out idx maxlen value negative base prec width flags s =
     (let flags = no_hash_for_zero value flags;
          (buf, len) = ntoa_digits value base flags
      in ntoa_format out idx maxlen buf len negative (ucast base) prec width flags s)"

end
