(* ===== verification/Ftoa.thy ===== *)
theory Ftoa
  imports Dbl Ntoa
begin

text \<open>
  The floating-point half of the formatting routines of \<^verbatim>\<open>libc/stdio.c\<close>: \<open>_ftoa\<close> for
  fixed notation and \<open>_etoa\<close> for the exponential one. A result \<open>None\<close> means that the code
  has no defined result: it reads past its table of powers of ten, or the two functions call
  each other deeper than the fuel allows.
\<close>

section \<open>Fixed notation\<close>

definition PRINTF_FTOA_BUFFER_SIZE :: nat where "PRINTF_FTOA_BUFFER_SIZE = 32"

definition PRINTF_DEFAULT_FLOAT_PRECISION :: u32 where "PRINTF_DEFAULT_FLOAT_PRECISION = 6"

definition PRINTF_MAX_FLOAT :: dbl where "PRINTF_MAX_FLOAT = d_int 1000000000"

definition DBL_MAX :: dbl where "DBL_MAX = Fin (2 ^ 53 - 1) 971"

text \<open>The constant \<open>0.5\<close>.\<close>

definition d_half :: dbl where "d_half = Fin 1 (- 1)"

definition pow10 :: "int list" where
  "pow10 = [1, 10, 100, 1000, 10000, 100000, 1000000, 10000000, 100000000, 1000000000]"

text \<open>\<open>pow10[prec]\<close>; past its end the code reads what is behind the table.\<close>

definition pow10_at :: "u32 \<Rightarrow> dbl option" where
  "pow10_at prec = (if unat prec < length pow10 then Some (d_int (pow10 ! unat prec)) else None)"

text \<open>\<^verbatim>\<open>while ((len < PRINTF_FTOA_BUFFER_SIZE) && (prec > 9U)) { buf[len++] = '0'; prec--; }\<close>\<close>

function limit_prec :: "u8 list \<Rightarrow> nat \<Rightarrow> u32 \<Rightarrow> u8 list \<times> nat \<times> u32" where
  "limit_prec buf len prec =
     (if len < PRINTF_FTOA_BUFFER_SIZE \<and> prec > 9
      then limit_prec (buf[len := ch CHR ''0'']) (len + 1) (prec - 1) else (buf, len, prec))"
  by pat_completeness auto
termination
  by (relation "measure (\<lambda>(buf, len, prec). PRINTF_FTOA_BUFFER_SIZE - len)") auto

text \<open>
  \<open>whole\<close>, \<open>frac\<close> and \<open>diff\<close>: the integer part, the fraction scaled by the power of ten
  and cut, and what the cut leaves. \<open>tmp\<close> and \<open>diff\<close> are \<open>double\<close> variables.
\<close>

definition ftoa_split :: "dbl \<Rightarrow> dbl \<Rightarrow> int \<times> u32 \<times> dbl" where
  "ftoa_split val p10 =
     (let whole = d_trunc val;
          tmp = to_double (d_mul (d_sub val (d_int whole)) p10);
          frac = of_int (d_trunc tmp);
          diff = to_double (d_sub tmp (d_int (uint frac)))
      in (whole, frac, diff))"

definition ftoa_round :: "dbl \<Rightarrow> int \<times> u32 \<times> dbl \<Rightarrow> int \<times> u32" where
  "ftoa_round p10 = (\<lambda>(whole, frac, diff).
     if d_less d_half diff
     then (let frac = frac + 1
           in if d_le p10 (d_int (uint frac)) then (whole + 1, 0) else (whole, frac))
     else if d_less diff d_half then (whole, frac)
     else if frac = 0 \<or> frac AND 1 \<noteq> 0 then (whole, frac + 1)
     else (whole, frac))"

text \<open>The rounding of the integer part when no decimals are printed.\<close>

definition ftoa_round_whole :: "dbl \<Rightarrow> int \<Rightarrow> int" where
  "ftoa_round_whole val whole =
     (let diff = to_double (d_sub val (d_int whole))
      in if (\<not> d_less diff d_half \<or> d_less d_half diff) \<and> odd whole then whole + 1 else whole)"

text \<open>``now do fractional part, as an unsigned number''\<close>

function frac_digits :: "u8 list \<Rightarrow> nat \<Rightarrow> u32 \<Rightarrow> u32 \<Rightarrow> u8 list \<times> nat \<times> u32" where
  "frac_digits buf len frac count =
     (if len < PRINTF_FTOA_BUFFER_SIZE
      then (let count = count - 1;
                buf = buf[len := ucast (48 + frac mod 10)];
                len = len + 1;
                frac = frac div 10
            in if frac = 0 then (buf, len, count) else frac_digits buf len frac count)
      else (buf, len, count))"
  by pat_completeness auto
termination
  by (relation "measure (\<lambda>(buf, len, frac, count). PRINTF_FTOA_BUFFER_SIZE - len)") auto

text \<open>\<^verbatim>\<open>while ((len < PRINTF_FTOA_BUFFER_SIZE) && (count-- > 0U)) buf[len++] = '0';\<close>\<close>

function count_zeros :: "u8 list \<Rightarrow> nat \<Rightarrow> u32 \<Rightarrow> u8 list \<times> nat" where
  "count_zeros buf len count =
     (if len < PRINTF_FTOA_BUFFER_SIZE \<and> count > 0
      then count_zeros (buf[len := ch CHR ''0'']) (len + 1) (count - 1) else (buf, len))"
  by pat_completeness auto
termination
  by (relation "measure (\<lambda>(buf, len, count). PRINTF_FTOA_BUFFER_SIZE - len)") auto

text \<open>``do whole part, number is reversed''; \<open>whole\<close> is never negative here.\<close>

function whole_digits :: "u8 list \<Rightarrow> nat \<Rightarrow> int \<Rightarrow> u8 list \<times> nat" where
  "whole_digits buf len whole =
     (if len < PRINTF_FTOA_BUFFER_SIZE
      then (let buf = buf[len := of_int (48 + whole mod 10)];
                len = len + 1;
                whole = whole div 10
            in if whole = 0 then (buf, len) else whole_digits buf len whole)
      else (buf, len))"
  by pat_completeness auto
termination
  by (relation "measure (\<lambda>(buf, len, whole). PRINTF_FTOA_BUFFER_SIZE - len)") auto

declare limit_prec.simps [simp del] frac_digits.simps [simp del] count_zeros.simps [simp del]
  whole_digits.simps [simp del]

text \<open>The decimals and the point, when decimals are printed.\<close>

definition ftoa_decimals :: "u8 list \<Rightarrow> nat \<Rightarrow> u32 \<Rightarrow> u32 \<Rightarrow> u8 list \<times> nat" where
  "ftoa_decimals buf len frac prec =
     (let (buf, len, count) = frac_digits buf len frac prec;
          (buf, len) = count_zeros buf len count
      in if len < PRINTF_FTOA_BUFFER_SIZE then (buf[len := ch CHR ''.''], len + 1) else (buf, len))"

text \<open>\<^verbatim>\<open>while ((len < width) && (len < PRINTF_FTOA_BUFFER_SIZE)) buf[len++] = '0';\<close>\<close>

definition ftoa_pad :: "u8 list \<Rightarrow> nat \<Rightarrow> bool \<Rightarrow> u32 \<Rightarrow> u32 \<Rightarrow> u8 list \<times> nat \<times> u32" where
  "ftoa_pad buf len negative width flags =
     (if \<not> has flags FLAGS_LEFT \<and> has flags FLAGS_ZEROPAD
      then (let width = (if width \<noteq> 0 \<and> (negative \<or> has flags (FLAGS_PLUS OR FLAGS_SPACE))
                         then width - 1 else width);
                (buf, len) = zero_fill (unat width) buf len
            in (buf, len, width))
      else (buf, len, width))"

text \<open>\<open>_ftoa\<close> from ``test for negative'' on, for values in the range of fixed notation.\<close>

definition ftoa_fixed ::
  "'s out_fct \<Rightarrow> u32 \<Rightarrow> u32 \<Rightarrow> dbl \<Rightarrow> u32 \<Rightarrow> u32 \<Rightarrow> u32 \<Rightarrow> 's \<Rightarrow> ('s \<times> u32) option" where
  "ftoa_fixed out idx maxlen val prec width flags s =
     (let negative = d_less val (d_int 0);
          val = (if negative then to_double (d_sub (d_int 0) val) else val);
          prec = (if \<not> has flags FLAGS_PRECISION then PRINTF_DEFAULT_FLOAT_PRECISION else prec);
          (buf, len, prec) = limit_prec (replicate PRINTF_FTOA_BUFFER_SIZE 0) 0 prec
      in do {
        p10 \<leftarrow> pow10_at prec;
        let (whole, frac) = ftoa_round p10 (ftoa_split val p10);
        let (whole, buf, len) =
          (if prec = 0 then (ftoa_round_whole val whole, buf, len)
           else (whole, ftoa_decimals buf len frac prec));
        let (buf, len) = whole_digits buf len whole;
        let (buf, len, width) = ftoa_pad buf len negative width flags;
        let (buf, len) = put_sign buf len negative flags;
        Some (out_rev out idx maxlen buf len width flags s)
      })"

section \<open>Exponential notation\<close>

text \<open>
  ``determine the decimal exponent'': the decimal exponent of a positive value and an
  approximation of the power of ten with that exponent, the variables \<open>expval\<close> and
  \<open>conv.F\<close> of the code after ``correct for rounding errors''.
\<close>

definition etoa_log10 :: "u64 \<Rightarrow> int" where
  "etoa_log10 U =
     (let exp2 = uint (drop_bit 52 U AND 0x7FF) - 1023;
          F = bits_dbl ((U AND (push_bit 52 1 - 1)) OR push_bit 52 1023)
      in d_trunc (d_add (d_add (d_dec 1760912590558 13) (d_mul (d_int exp2) (d_dec 301029995663981 15)))
           (d_mul (d_sub F (Fin 3 (- 1))) (d_dec 289529654602168 15))))"

definition etoa_pow10 :: "int \<Rightarrow> dbl" where
  "etoa_pow10 expval =
     (let exp2 = d_trunc (d_add (d_mul (d_int expval) (d_dec 3321928094887362 15)) d_half);
          z = to_double (d_sub (d_mul (d_int expval) (d_dec 2302585092994046 15))
                (d_mul (d_int exp2) (d_dec 6931471805599453 16)));
          z2 = to_double (d_mul z z);
          F = bits_dbl (push_bit 52 (of_int (exp2 + 1023)))
      in to_double (d_mul F (d_add (d_int 1)
           (d_div (d_mul (d_int 2) z)
              (d_add (d_sub (d_int 2) z)
                 (d_div z2 (d_add (d_int 6) (d_div z2 (d_add (d_int 10) (d_div z2 (d_int 14)))))))))))"

definition etoa_exponent :: "dbl \<Rightarrow> int \<times> dbl" where
  "etoa_exponent val =
     (let expval = etoa_log10 (dbl_bits val);
          F = etoa_pow10 expval
      in if d_less val F then (expval - 1, to_double (d_div F (d_int 10))) else (expval, F))"

text \<open>
  The layout: the precision, the flags, the characters set aside for the exponent, the
  exponent to print and the width of the floating part. In the \<open>%g\<close> mode ``prec'' is the
  number of significant figures.
\<close>

definition etoa_layout ::
  "dbl \<Rightarrow> int \<Rightarrow> u32 \<Rightarrow> u32 \<Rightarrow> u32 \<Rightarrow> u32 \<times> u32 \<times> u32 \<times> int \<times> u32" where
  "etoa_layout val expval prec width flags =
     (let minwidth = (if expval < 100 \<and> expval > - 100 then 4 else 5);
          (prec, flags, minwidth, expval) =
            (if has flags FLAGS_ADAPT_EXP
             then (if d_le (d_dec 1 4) val \<and> d_less val (d_int 1000000)
                   then (if sint prec > expval then prec - of_int expval - 1 else 0,
                         flags OR FLAGS_PRECISION, 0, 0)
                   else (if prec > 0 \<and> has flags FLAGS_PRECISION then prec - 1 else prec,
                         flags, minwidth, expval))
             else (prec, flags, minwidth, expval));
          fwidth = (if width > minwidth then width - minwidth else 0);
          fwidth = (if has flags FLAGS_LEFT \<and> minwidth \<noteq> 0 then 0 else fwidth)
      in (prec, flags, minwidth, expval, fwidth))"

text \<open>``output the exponent part''\<close>

definition etoa_suffix ::
  "'s out_fct \<Rightarrow> u32 \<Rightarrow> u32 \<Rightarrow> u32 \<Rightarrow> int \<Rightarrow> u32 \<Rightarrow> u32 \<Rightarrow> u32 \<Rightarrow> 's \<Rightarrow> 's \<times> u32" where
  "etoa_suffix out start_idx idx maxlen expval minwidth width flags s =
     (if minwidth \<noteq> 0
      then (let s = out (if has flags FLAGS_UPPERCASE then ch CHR ''E'' else ch CHR ''e'') s idx maxlen;
                (s, idx) = ntoa_long out (idx + 1) maxlen
                  (of_int (if expval < 0 then - expval else expval)) (expval < 0) 10 0
                  (minwidth - 1) (FLAGS_ZEROPAD OR FLAGS_PLUS) s
            in if has flags FLAGS_LEFT then pad_after out maxlen start_idx width idx s else (s, idx))
      else (s, idx))"

text \<open>The test for special values, the same in \<open>_etoa\<close> and (one by one) in \<open>_ftoa\<close>.\<close>

definition not_finite :: "dbl \<Rightarrow> bool" where
  "not_finite val \<longleftrightarrow> \<not> d_eq val val \<or> d_less DBL_MAX val \<or> d_less val (d_neg DBL_MAX)"

text \<open>
  \<open>_ftoa\<close> and \<open>_etoa\<close> call each other: \<open>_ftoa\<close> hands values beyond the range of fixed notation
  to \<open>_etoa\<close>, which scales them into the range and hands them back. \<open>etoa_with\<close> is \<open>_etoa\<close>
  with the \<open>_ftoa\<close> it calls, and the fuel of \<open>ftoa_fuel\<close> counts the nested calls of \<open>_ftoa\<close>.
\<close>

type_synonym 's float_fct =
  "'s out_fct \<Rightarrow> u32 \<Rightarrow> u32 \<Rightarrow> dbl \<Rightarrow> u32 \<Rightarrow> u32 \<Rightarrow> u32 \<Rightarrow> 's \<Rightarrow> ('s \<times> u32) option"

definition etoa_with :: "'s float_fct \<Rightarrow> 's float_fct" where
  "etoa_with ftoa out idx maxlen val prec width flags s =
     (if not_finite val then ftoa out idx maxlen val prec width flags s
      else (let negative = d_less val (d_int 0);
                val = (if negative then d_neg val else val);
                prec = (if \<not> has flags FLAGS_PRECISION then PRINTF_DEFAULT_FLOAT_PRECISION else prec);
                (expval, F) = etoa_exponent val;
                (prec, flags, minwidth, expval, fwidth) = etoa_layout val expval prec width flags;
                val = (if expval \<noteq> 0 then to_double (d_div val F) else val);
                start_idx = idx
            in do {
              (s, idx) \<leftarrow> ftoa out idx maxlen (if negative then d_neg val else val) prec fwidth
                (flags AND NOT FLAGS_ADAPT_EXP) s;
              Some (etoa_suffix out start_idx idx maxlen expval minwidth width flags s)
            }))"

primrec ftoa_fuel :: "nat \<Rightarrow> 's float_fct" where
  "ftoa_fuel 0 out idx maxlen val prec width flags s = None"
| "ftoa_fuel (Suc fuel) out idx maxlen val prec width flags s =
     (if \<not> d_eq val val then Some (out_rev out idx maxlen (cstr ''nan'') 3 width flags s)
      else if d_less val (d_neg DBL_MAX)
      then Some (out_rev out idx maxlen (cstr ''fni-'') 4 width flags s)
      else if d_less DBL_MAX val
      then Some (out_rev out idx maxlen
             (if has flags FLAGS_PLUS then cstr ''fni+'' else cstr ''fni'')
             (if has flags FLAGS_PLUS then 4 else 3) width flags s)
      else if d_less PRINTF_MAX_FLOAT val \<or> d_less val (d_neg PRINTF_MAX_FLOAT)
      then etoa_with (ftoa_fuel fuel) out idx maxlen val prec width flags s
      else ftoa_fixed out idx maxlen val prec width flags s)"

text \<open>
  Two nested calls are enough for a call of \<open>_ftoa\<close> whose value \<open>_etoa\<close> scales into the range
  of fixed notation, one for \<open>_etoa\<close> itself.
\<close>

definition FTOA_DEPTH :: nat where "FTOA_DEPTH = 2"

definition ftoa :: "'s float_fct" where
  "ftoa = ftoa_fuel FTOA_DEPTH"

definition etoa :: "'s float_fct" where
  "etoa = etoa_with ftoa"

end
