(* ===== verification/Vsnprintf.thy ===== *)
theory Vsnprintf
  imports Ftoa
begin

text \<open>
  \<open>_vsnprintf\<close> of \<^verbatim>\<open>libc/stdio.c\<close>, the evaluation of a format string, and the functions of
  its interface. The format is the list of its characters up to the terminating zero; a
  result \<open>None\<close> means that the behaviour of the code is undefined: the format pointer runs
  past the terminating zero, an argument is missing or has another type than its directive
  reads, or a floating-point conversion has no result.
\<close>

section \<open>Format pointer and arguments\<close>

definition peek :: "u8 list \<Rightarrow> u8" where
  "peek fmt = (case fmt of [] \<Rightarrow> 0 | c # cs \<Rightarrow> c)"

text \<open>\<open>format++\<close>; the character behind the terminating zero is not part of the string.\<close>

definition advance :: "u8 list \<Rightarrow> u8 list option" where
  "advance fmt = (case fmt of [] \<Rightarrow> None | c # cs \<Rightarrow> Some cs)"

text \<open>
  The variable arguments as the i686 calling convention passes them: \<open>int\<close>, \<open>long\<close> and
  pointers in a word, \<open>long long\<close> in two, \<open>double\<close>; a string argument is a pointer with the
  text it points to. A directive that reads a word from a \<open>long long\<close> gets its lower half.
\<close>

datatype va_arg = VWord u32 | VLongLong u64 | VDouble dbl | VStr u32 "u8 list"

fun va_word :: "va_arg list \<Rightarrow> (u32 \<times> va_arg list) option" where
  "va_word (VWord w # va) = Some (w, va)"
| "va_word (VStr p cs # va) = Some (p, va)"
| "va_word (VLongLong w # va) = Some (ucast w, VWord (ucast (drop_bit 32 w)) # va)"
| "va_word va = None"

fun va_long_long :: "va_arg list \<Rightarrow> (u64 \<times> va_arg list) option" where
  "va_long_long (VLongLong w # va) = Some (w, va)"
| "va_long_long va = None"

fun va_double :: "va_arg list \<Rightarrow> (dbl \<times> va_arg list) option" where
  "va_double (VDouble d # va) = Some (d, va)"
| "va_double va = None"

fun va_str :: "va_arg list \<Rightarrow> (u8 list \<times> va_arg list) option" where
  "va_str (VStr p cs # va) = Some (cs, va)"
| "va_str va = None"

section \<open>The fields of a directive\<close>

text \<open>``evaluate flags''\<close>

fun eval_flags :: "u32 \<Rightarrow> u8 list \<Rightarrow> u32 \<times> u8 list" where
  "eval_flags flags [] = (flags, [])"
| "eval_flags flags (c # fmt) =
     (if c = ch CHR ''0'' then eval_flags (flags OR FLAGS_ZEROPAD) fmt
      else if c = ch CHR ''-'' then eval_flags (flags OR FLAGS_LEFT) fmt
      else if c = ch CHR ''+'' then eval_flags (flags OR FLAGS_PLUS) fmt
      else if c = ch CHR '' '' then eval_flags (flags OR FLAGS_SPACE) fmt
      else if c = ch CHR ''#'' then eval_flags (flags OR FLAGS_HASH) fmt
      else (flags, c # fmt))"

text \<open>``evaluate width field''\<close>

definition eval_width ::
  "u32 \<Rightarrow> u8 list \<Rightarrow> va_arg list \<Rightarrow> (u32 \<times> u32 \<times> u8 list \<times> va_arg list) option" where
  "eval_width flags fmt va =
     (if is_digit (peek fmt) then (let (width, fmt) = atoi fmt in Some (flags, width, fmt, va))
      else if peek fmt = ch CHR ''*''
      then do {
        (w, va) \<leftarrow> va_word va;
        let (flags, width) = (if sint w < 0 then (flags OR FLAGS_LEFT, - w) else (flags, w));
        fmt \<leftarrow> advance fmt;
        Some (flags, width, fmt, va)
      }
      else Some (flags, 0, fmt, va))"

text \<open>``evaluate precision field''\<close>

definition eval_precision ::
  "u32 \<Rightarrow> u8 list \<Rightarrow> va_arg list \<Rightarrow> (u32 \<times> u32 \<times> u8 list \<times> va_arg list) option" where
  "eval_precision flags fmt va =
     (if peek fmt = ch CHR ''.''
      then do {
        let flags = flags OR FLAGS_PRECISION;
        fmt \<leftarrow> advance fmt;
        if is_digit (peek fmt)
        then (let (precision, fmt) = atoi fmt in Some (flags, precision, fmt, va))
        else if peek fmt = ch CHR ''*''
        then do {
          (prec, va) \<leftarrow> va_word va;
          fmt \<leftarrow> advance fmt;
          Some (flags, if sint prec > 0 then prec else 0, fmt, va)
        }
        else Some (flags, 0, fmt, va)
      }
      else Some (flags, 0, fmt, va))"

text \<open>
  ``evaluate length field''. On i686 \<open>ptrdiff_t\<close> and \<open>size_t\<close> have the size of \<open>long\<close>,
  \<open>intmax_t\<close> has not.
\<close>

definition eval_length :: "u32 \<Rightarrow> u8 list \<Rightarrow> (u32 \<times> u8 list) option" where
  "eval_length flags fmt =
     (if peek fmt = ch CHR ''l''
      then do {
        fmt \<leftarrow> advance fmt;
        if peek fmt = ch CHR ''l''
        then do { fmt \<leftarrow> advance fmt; Some (flags OR FLAGS_LONG OR FLAGS_LONG_LONG, fmt) }
        else Some (flags OR FLAGS_LONG, fmt)
      }
      else if peek fmt = ch CHR ''h''
      then do {
        fmt \<leftarrow> advance fmt;
        if peek fmt = ch CHR ''h''
        then do { fmt \<leftarrow> advance fmt; Some (flags OR FLAGS_SHORT OR FLAGS_CHAR, fmt) }
        else Some (flags OR FLAGS_SHORT, fmt)
      }
      else if peek fmt = ch CHR ''t'' then do { fmt \<leftarrow> advance fmt; Some (flags OR FLAGS_LONG, fmt) }
      else if peek fmt = ch CHR ''j'' then do { fmt \<leftarrow> advance fmt; Some (flags OR FLAGS_LONG_LONG, fmt) }
      else if peek fmt = ch CHR ''z'' then do { fmt \<leftarrow> advance fmt; Some (flags OR FLAGS_LONG, fmt) }
      else Some (flags, fmt))"

text \<open>The fields together: flags, width, precision, the rest of the format from the specifier on.\<close>

definition eval_fields ::
  "u8 list \<Rightarrow> va_arg list \<Rightarrow> (u32 \<times> u32 \<times> u32 \<times> u8 list \<times> va_arg list) option" where
  "eval_fields fmt va = do {
     let (flags, fmt) = eval_flags 0 fmt;
     (flags, width, fmt, va) \<leftarrow> eval_width flags fmt va;
     (flags, precision, fmt, va) \<leftarrow> eval_precision flags fmt va;
     (flags, fmt) \<leftarrow> eval_length flags fmt;
     Some (flags, width, precision, fmt, va)
   }"

section \<open>The specifiers\<close>

text \<open>The base of an integer specifier and the flags it clears or sets.\<close>

definition int_base :: "u8 \<Rightarrow> u32" where
  "int_base c =
     (if c = ch CHR ''x'' \<or> c = ch CHR ''X'' then 16
      else if c = ch CHR ''o'' then 8
      else if c = ch CHR ''b'' then 2 else 10)"

definition is_signed :: "u8 \<Rightarrow> bool" where
  "is_signed c \<longleftrightarrow> c = ch CHR ''i'' \<or> c = ch CHR ''d''"

definition int_flags :: "u8 \<Rightarrow> u32 \<Rightarrow> u32" where
  "int_flags c flags =
     (let flags = (if int_base c = 10 then flags AND NOT FLAGS_HASH else flags);
          flags = (if c = ch CHR ''X'' then flags OR FLAGS_UPPERCASE else flags);
          flags = (if \<not> is_signed c then flags AND NOT (FLAGS_PLUS OR FLAGS_SPACE) else flags)
      in if has flags FLAGS_PRECISION then flags AND NOT FLAGS_ZEROPAD else flags)"

text \<open>The promotions of a signed and of an unsigned argument without \<open>l\<close>.\<close>

definition int_arg :: "u32 \<Rightarrow> u32 \<Rightarrow> u32" where
  "int_arg flags w =
     (if has flags FLAGS_CHAR then scast (ucast w :: u8)
      else if has flags FLAGS_SHORT then scast (ucast w :: u16) else w)"

definition uint_arg :: "u32 \<Rightarrow> u32 \<Rightarrow> u32" where
  "uint_arg flags w =
     (if has flags FLAGS_CHAR then ucast (ucast w :: u8)
      else if has flags FLAGS_SHORT then ucast (ucast w :: u16) else w)"

text \<open>\<^verbatim>\<open>value > 0 ? value : 0 - value\<close>\<close>

definition magnitude :: "'w::len word \<Rightarrow> 'w word" where
  "magnitude v = (if sint v > 0 then v else 0 - v)"

type_synonym 's conversion =
  "'s out_fct \<Rightarrow> u32 \<Rightarrow> u32 \<Rightarrow> u32 \<Rightarrow> u32 \<Rightarrow> u32 \<Rightarrow> va_arg list \<Rightarrow> 's \<Rightarrow> (('s \<times> u32) \<times> va_arg list) option"

definition conv_int :: "u8 \<Rightarrow> 's conversion" where
  "conv_int c out idx maxlen flags width precision va s =
     (let base = int_base c; flags = int_flags c flags
      in if is_signed c
         then (if has flags FLAGS_LONG_LONG
               then do {
                 (v, va) \<leftarrow> va_long_long va;
                 Some (ntoa_long_long out idx maxlen (magnitude v) (sint v < 0) (ucast base) precision width flags s, va)
               }
               else if has flags FLAGS_LONG
               then do {
                 (v, va) \<leftarrow> va_word va;
                 Some (ntoa_long out idx maxlen (magnitude v) (sint v < 0) base precision width flags s, va)
               }
               else do {
                 (v, va) \<leftarrow> va_word va;
                 let v = int_arg flags v;
                 Some (ntoa_long out idx maxlen (magnitude v) (sint v < 0) base precision width flags s, va)
               })
         else (if has flags FLAGS_LONG_LONG
               then do {
                 (v, va) \<leftarrow> va_long_long va;
                 Some (ntoa_long_long out idx maxlen v False (ucast base) precision width flags s, va)
               }
               else if has flags FLAGS_LONG
               then do {
                 (v, va) \<leftarrow> va_word va;
                 Some (ntoa_long out idx maxlen v False base precision width flags s, va)
               }
               else do {
                 (v, va) \<leftarrow> va_word va;
                 Some (ntoa_long out idx maxlen (uint_arg flags v) False base precision width flags s, va)
               }))"

definition conv_fixed :: "u8 \<Rightarrow> 's conversion" where
  "conv_fixed c out idx maxlen flags width precision va s =
     (let flags = (if c = ch CHR ''F'' then flags OR FLAGS_UPPERCASE else flags)
      in do {
        (d, va) \<leftarrow> va_double va;
        r \<leftarrow> ftoa out idx maxlen d precision width flags s;
        Some (r, va)
      })"

definition conv_exp :: "u8 \<Rightarrow> 's conversion" where
  "conv_exp c out idx maxlen flags width precision va s =
     (let flags = (if c = ch CHR ''g'' \<or> c = ch CHR ''G'' then flags OR FLAGS_ADAPT_EXP else flags);
          flags = (if c = ch CHR ''E'' \<or> c = ch CHR ''G'' then flags OR FLAGS_UPPERCASE else flags)
      in do {
        (d, va) \<leftarrow> va_double va;
        r \<leftarrow> etoa out idx maxlen d precision width flags s;
        Some (r, va)
      })"

text \<open>
  \<^verbatim>\<open>while (l++ < width) out(' ', buffer, idx++, maxlen);\<close> is the padding loop of \<open>_out_rev\<close>.
\<close>

definition conv_char :: "'s conversion" where
  "conv_char out idx maxlen flags width precision va s = do {
     let l = 1;
     let (s, idx) = (if \<not> has flags FLAGS_LEFT then pad_before out maxlen l width idx s else (s, idx));
     (w, va) \<leftarrow> va_word va;
     let s = out (ucast w) s idx maxlen;
     let idx = idx + 1;
     Some (if has flags FLAGS_LEFT then pad_before out maxlen l width idx s else (s, idx), va)
   }"

text \<open>\<^verbatim>\<open>while ((*p != 0) && (!(flags & FLAGS_PRECISION) || precision--)) out(*(p++), ...);\<close>\<close>

fun put_string :: "'s out_fct \<Rightarrow> u32 \<Rightarrow> u32 \<Rightarrow> u32 \<Rightarrow> u8 list \<Rightarrow> u32 \<Rightarrow> 's \<Rightarrow> 's \<times> u32" where
  "put_string out maxlen flags precision [] idx s = (s, idx)"
| "put_string out maxlen flags precision (c # p) idx s =
     (if c \<noteq> 0 \<and> (\<not> has flags FLAGS_PRECISION \<or> precision \<noteq> 0)
      then put_string out maxlen flags (precision - 1) p (idx + 1) (out c s idx maxlen)
      else (s, idx))"

definition conv_string :: "'s conversion" where
  "conv_string out idx maxlen flags width precision va s = do {
     (p, va) \<leftarrow> va_str va;
     let l = strnlen_s p (if precision \<noteq> 0 then precision else - 1);
     let l = (if has flags FLAGS_PRECISION then (if l < precision then l else precision) else l);
     let (s, idx) = (if \<not> has flags FLAGS_LEFT then pad_before out maxlen l width idx s else (s, idx));
     let (s, idx) = put_string out maxlen flags precision p idx s;
     Some (if has flags FLAGS_LEFT then pad_before out maxlen l width idx s else (s, idx), va)
   }"

text \<open>On i686 \<open>uintptr_t\<close> has the size of \<open>long\<close> and a pointer has four bytes.\<close>

definition conv_pointer :: "'s conversion" where
  "conv_pointer out idx maxlen flags width precision va s = do {
     let width = 4 * 2;
     let flags = flags OR (FLAGS_ZEROPAD OR FLAGS_UPPERCASE);
     (p, va) \<leftarrow> va_word va;
     Some (ntoa_long out idx maxlen p False 16 precision width flags s, va)
   }"

definition convert :: "u8 \<Rightarrow> 's conversion" where
  "convert c out idx maxlen flags width precision va s =
     (if c \<in> set (cstr ''diuxXob'') then conv_int c out idx maxlen flags width precision va s
      else if c \<in> set (cstr ''fF'') then conv_fixed c out idx maxlen flags width precision va s
      else if c \<in> set (cstr ''eEgG'') then conv_exp c out idx maxlen flags width precision va s
      else if c = ch CHR ''c'' then conv_char out idx maxlen flags width precision va s
      else if c = ch CHR ''s'' then conv_string out idx maxlen flags width precision va s
      else if c = ch CHR ''p'' then conv_pointer out idx maxlen flags width precision va s
      else Some ((out c s idx maxlen, idx + 1), va))"

section \<open>The format loop\<close>

lemma length_advance: "advance fmt = Some fmt' \<Longrightarrow> length fmt = Suc (length fmt')"
  by (auto simp: advance_def split: list.splits)

lemma length_eval_flags: "eval_flags flags fmt = (flags', fmt') \<Longrightarrow> length fmt' \<le> length fmt"
  by (induction flags fmt arbitrary: flags' fmt' rule: eval_flags.induct)
     (fastforce split: if_splits)+

lemma length_atoi_loop: "atoi_loop i fmt = (n, fmt') \<Longrightarrow> length fmt' \<le> length fmt"
  by (induction i fmt rule: atoi_loop.induct) (auto split: if_splits)

lemma length_atoi: "atoi fmt = (n, fmt') \<Longrightarrow> length fmt' \<le> length fmt"
  by (simp add: atoi_def length_atoi_loop)

lemma length_eval_width:
  "eval_width flags fmt va = Some (flags', w, fmt', va') \<Longrightarrow> length fmt' \<le> length fmt"
  by (auto simp: eval_width_def Let_def bind_eq_Some_conv dest: length_atoi length_advance
      split: if_splits prod.splits)

lemma length_eval_precision:
  "eval_precision flags fmt va = Some (flags', p, fmt', va') \<Longrightarrow> length fmt' \<le> length fmt"
  by (auto simp: eval_precision_def Let_def bind_eq_Some_conv dest!: length_atoi length_advance
      split: if_splits prod.splits)

lemma length_eval_length:
  "eval_length flags fmt = Some (flags', fmt') \<Longrightarrow> length fmt' \<le> length fmt"
  by (auto simp: eval_length_def bind_eq_Some_conv dest!: length_advance split: if_splits)

lemma length_eval_fields:
  assumes "eval_fields fmt va = Some (flags, width, precision, fmt', va')"
  shows "length fmt' \<le> length fmt"
proof -
  obtain f0 fmt0 f1 w1 fmt1 va1 f2 p2 fmt2 va2
    where "eval_flags 0 fmt = (f0, fmt0)" "eval_width f0 fmt0 va = Some (f1, w1, fmt1, va1)"
      "eval_precision f1 fmt1 va1 = Some (f2, p2, fmt2, va2)" "eval_length f2 fmt2 = Some (flags, fmt')"
    using assms by (auto simp: eval_fields_def bind_eq_Some_conv split: prod.splits)
  then show ?thesis
    using length_eval_flags length_eval_width length_eval_precision length_eval_length
    by (meson order_trans)
qed

function vsnprintf_loop ::
  "'s out_fct \<Rightarrow> u32 \<Rightarrow> u8 list \<Rightarrow> va_arg list \<Rightarrow> u32 \<Rightarrow> 's \<Rightarrow> ('s \<times> u32) option" where
  "vsnprintf_loop out maxlen [] va idx s = Some (s, idx)"
| "vsnprintf_loop out maxlen (c # fmt) va idx s =
     (if c = 0 then Some (s, idx)
      else if c \<noteq> ch CHR ''%''
      then vsnprintf_loop out maxlen fmt va (idx + 1) (out c s idx maxlen)
      else do {
        (flags, width, precision, fmt, va) \<leftarrow> eval_fields fmt va;
        ((s, idx), va) \<leftarrow> convert (peek fmt) out idx maxlen flags width precision va s;
        fmt \<leftarrow> advance fmt;
        vsnprintf_loop out maxlen fmt va idx s
      })"
  by pat_completeness auto
termination
  by (relation "measure (\<lambda>(out, maxlen, fmt, va, idx, s). length fmt)")
     (auto dest!: length_eval_fields length_advance)

definition internal_vsnprintf ::
  "'s out_fct \<Rightarrow> bool \<Rightarrow> u32 \<Rightarrow> u8 list \<Rightarrow> va_arg list \<Rightarrow> 's \<Rightarrow> ('s \<times> u32) option" where
  "internal_vsnprintf out null_buffer maxlen fmt va s = do {
     let out = (if null_buffer then out_null else out);
     (s, idx) \<leftarrow> vsnprintf_loop out maxlen fmt va 0 s;
     Some (out 0 s (if idx < maxlen then idx else maxlen - 1) maxlen, idx)
   }"

section \<open>The interface\<close>

text \<open>
  The header's macros give \<open>printf_\<close>, \<open>sprintf_\<close> and the others their usual names.
  The state is the console for \<open>printf\<close> and \<open>vprintf\<close>, the memory for the buffer functions
  and the client's own for \<open>fctprintf\<close>. The result is the number of characters.
\<close>

definition printf :: "u8 list \<Rightarrow> va_arg list \<Rightarrow> 'a tty_scheme \<Rightarrow> ('a tty_scheme \<times> u32) option" where
  "printf fmt va s = internal_vsnprintf out_char False (- 1) fmt va s"

definition sprintf :: "u32 \<Rightarrow> u8 list \<Rightarrow> va_arg list \<Rightarrow> mem \<Rightarrow> (mem \<times> u32) option" where
  "sprintf buffer fmt va m = internal_vsnprintf (out_buffer buffer) (buffer = 0) (- 1) fmt va m"

definition snprintf :: "u32 \<Rightarrow> u32 \<Rightarrow> u8 list \<Rightarrow> va_arg list \<Rightarrow> mem \<Rightarrow> (mem \<times> u32) option" where
  "snprintf buffer count fmt va m = internal_vsnprintf (out_buffer buffer) (buffer = 0) count fmt va m"

definition vprintf :: "u8 list \<Rightarrow> va_arg list \<Rightarrow> 'a tty_scheme \<Rightarrow> ('a tty_scheme \<times> u32) option" where
  "vprintf fmt va s = internal_vsnprintf out_char False (- 1) fmt va s"

definition vsnprintf :: "u32 \<Rightarrow> u32 \<Rightarrow> u8 list \<Rightarrow> va_arg list \<Rightarrow> mem \<Rightarrow> (mem \<times> u32) option" where
  "vsnprintf buffer count fmt va m = internal_vsnprintf (out_buffer buffer) (buffer = 0) count fmt va m"

definition fctprintf :: "(u8 \<Rightarrow> 's \<Rightarrow> 's) \<Rightarrow> u8 list \<Rightarrow> va_arg list \<Rightarrow> 's \<Rightarrow> ('s \<times> u32) option" where
  "fctprintf fct fmt va s = internal_vsnprintf (out_wrap fct) False (- 1) fmt va s"

end
