(* ===== verification/Ntoa_Text.thy ===== *)
theory Ntoa_Text
  imports Ntoa
begin

text \<open>
  The integer formatting routines as functions on texts: the reference for what
  \<open>_ntoa_long\<close> and \<open>_ntoa_long_long\<close> print, with lists in place of the 32-byte buffer, and
  the proof that the routines send exactly this text to whatever output function they get
  and never touch a byte outside their buffer.
\<close>

section \<open>The loops of the reversed output\<close>

lemma pad_before_sends [emit_simps]:
  "pad_before out maxlen i width idx s =
     sends out maxlen idx s (replicate (unat width - unat i) (ch CHR '' ''))"
proof (induction out maxlen i width idx s rule: pad_before.induct)
  case (1 out maxlen i width idx s)
  show ?case
  proof (cases "i < width")
    case True
    have "unat width - unat i = Suc (unat width - unat (i + 1))"
      using unat_inc_less [OF True] True by (simp add: word_less_nat_alt)
    with True show ?thesis
      using "1.IH" [OF True] by (simp add: pad_before.simps [of out maxlen i width])
  next
    case False
    then show ?thesis by (simp add: pad_before.simps [of out maxlen i width] word_less_nat_alt)
  qed
qed

lemma put_reverse_sends [emit_simps]:
  "len \<le> length buf \<Longrightarrow>
   put_reverse out maxlen buf len idx s = sends out maxlen idx s (rev (take len buf))"
proof (induction len arbitrary: idx s)
  case (Suc len)
  then show ?case by (simp add: take_Suc_conv_app_nth)
qed simp

lemma pad_after_sends [emit_simps]:
  "pad_after out maxlen start width idx s =
     sends out maxlen idx s (replicate (unat width - unat (idx - start)) (ch CHR '' ''))"
proof (induction out maxlen start width idx s rule: pad_after.induct)
  case (1 out maxlen start width idx s)
  show ?case
  proof (cases "idx - start < width")
    case True
    have "unat (idx + 1 - start) = Suc (unat (idx - start))"
      using unat_inc_less [OF True] by (simp add: algebra_simps)
    then have "unat width - unat (idx - start) = Suc (unat width - unat (idx + 1 - start))"
      using True by (simp add: word_less_nat_alt)
    with True show ?thesis
      using "1.IH" [OF True] by (simp add: pad_after.simps [of out maxlen start width])
  next
    case False
    then show ?thesis
      by (simp add: pad_after.simps [of out maxlen start width] word_less_nat_alt)
  qed
qed

text \<open>What \<open>_out_rev\<close> prints of the reversed text \<open>cs\<close>.\<close>

definition pad_text :: "u32 \<Rightarrow> u8 list \<Rightarrow> u8 list" where
  "pad_text width cs = replicate (unat width - length cs) (ch CHR '' '')"

definition out_rev_text :: "u8 list \<Rightarrow> u32 \<Rightarrow> u32 \<Rightarrow> u8 list" where
  "out_rev_text cs width flags =
     (if \<not> has flags FLAGS_LEFT \<and> \<not> has flags FLAGS_ZEROPAD then pad_text width cs else []) @
     rev cs @ (if has flags FLAGS_LEFT then pad_text width cs else [])"

lemma out_rev_sends [emit_simps]:
  assumes "len \<le> length buf" "len < 2 ^ 32"
  shows "out_rev out idx maxlen buf len width flags s =
    sends out maxlen idx s (out_rev_text (take len buf) width flags)"
proof (cases "has flags FLAGS_LEFT")
  case True
  have "unat (idx + of_nat len - idx :: u32) = len" using assms(2) by simp
  with True assms show ?thesis
    by (simp add: out_rev_def out_rev_text_def pad_text_def emit_simps case_sends)
       (simp add: sends_def emit_append add.assoc)
next
  case False
  with assms show ?thesis
    by (cases "has flags FLAGS_ZEROPAD")
       (simp_all add: out_rev_def out_rev_text_def pad_text_def emit_simps case_sends)
qed

section \<open>The buffer and its text\<close>

text \<open>The bytes of the buffer in use are the text \<open>cs\<close>, and they fit.\<close>

definition holds :: "u8 list \<times> nat \<Rightarrow> u8 list \<Rightarrow> bool" where
  "holds b cs \<longleftrightarrow> length (fst b) = PRINTF_NTOA_BUFFER_SIZE \<and> snd b = length cs \<and>
     length cs \<le> PRINTF_NTOA_BUFFER_SIZE \<and> take (snd b) (fst b) = cs"

lemma holds_empty: "holds (ntoa_buf, 0) []"
  by (simp add: holds_def ntoa_buf_def)

lemma holds_len: "holds (buf, len) cs \<Longrightarrow> len = length cs"
  by (simp add: holds_def)

lemma holds_take: "holds (buf, len) cs \<Longrightarrow> take len buf = cs"
  unfolding holds_def fst_conv snd_conv by blast

lemma holds_put:
  assumes "holds (buf, len) cs" "len < PRINTF_NTOA_BUFFER_SIZE"
  shows "holds (buf[len := c], Suc len) (cs @ [c])"
  using assms by (auto simp: holds_def take_Suc_conv_app_nth)

lemma holds_drop:
  assumes "holds (buf, len) cs"
  shows "holds (buf, len - 1) (butlast cs)"
proof -
  have "butlast (take (length cs) buf) = take (length cs - 1) buf"
    using assms by (intro butlast_take) (simp add: holds_def)
  with assms show ?thesis by (auto simp: holds_def)
qed

lemma zero_fill_holds:
  assumes "holds (buf, len) cs"
  shows "holds (zero_fill limit buf len)
    (cs @ replicate (min limit PRINTF_NTOA_BUFFER_SIZE - length cs) (ch CHR ''0''))"
  using assms
proof (induction limit buf len arbitrary: cs rule: zero_fill.induct)
  case (1 limit buf len)
  note len = holds_len [OF "1.prems"]
  show ?case
  proof (cases "len < limit \<and> len < PRINTF_NTOA_BUFFER_SIZE")
    case True
    have "min limit PRINTF_NTOA_BUFFER_SIZE - length cs =
        Suc (min limit PRINTF_NTOA_BUFFER_SIZE - length (cs @ [ch CHR ''0'']))"
      using True len by (simp add: Suc_diff_Suc)
    with True show ?thesis
      using "1.IH" [OF True, of "cs @ [ch CHR ''0'']"] holds_put [OF "1.prems"]
      by (simp add: zero_fill.simps [of limit buf len])
  next
    case False
    then have "zero_fill limit buf len = (buf, len)" by (subst zero_fill.simps) auto
    moreover have "min limit PRINTF_NTOA_BUFFER_SIZE - length cs = 0" using False len by auto
    ultimately show ?thesis using "1.prems" by simp
  qed
qed

section \<open>The text of a number\<close>

text \<open>The digits of a number in a base, least significant first.\<close>

function nat_digits :: "nat \<Rightarrow> nat \<Rightarrow> nat list" where
  "nat_digits b n = n mod b # (if b < 2 \<or> n div b = 0 then [] else nat_digits b (n div b))"
  by pat_completeness auto
termination
  by (relation "measure snd") (auto simp: div_less_dividend intro!: div_less_dividend Nat.gr0I)

declare nat_digits.simps [simp del]

fun digits_value :: "nat \<Rightarrow> nat list \<Rightarrow> nat" where
  "digits_value b [] = 0"
| "digits_value b (d # ds) = d + b * digits_value b ds"

lemma digits_value_nat_digits: "2 \<le> b \<Longrightarrow> digits_value b (nat_digits b n) = n"
proof (induction b n rule: nat_digits.induct)
  case (1 b n)
  then show ?case
    by (cases "n div b = 0") (simp_all add: nat_digits.simps [of b n] mod_eq_self_iff_div_eq_0)
qed

lemma nat_digits_less: "2 \<le> b \<Longrightarrow> d \<in> set (nat_digits b n) \<Longrightarrow> d < b"
proof (induction b n rule: nat_digits.induct)
  case (1 b n)
  then show ?case
    by (cases "n div b = 0") (auto simp: nat_digits.simps [of b n])
qed

lemma nat_digits_not_Nil [simp]: "nat_digits b n \<noteq> []"
  by (simp add: nat_digits.simps [of b n])

lemma nat_digits_last: "2 \<le> b \<Longrightarrow> n \<noteq> 0 \<Longrightarrow> last (nat_digits b n) \<noteq> 0"
proof (induction b n rule: nat_digits.induct)
  case (1 b n)
  show ?case
  proof (cases "n div b = 0")
    case True
    with "1.prems" show ?thesis by (auto simp: nat_digits.simps [of b n] div_eq_0_iff)
  next
    case False
    with "1.prems" "1.IH" show ?thesis by (simp add: nat_digits.simps [of b n])
  qed
qed

lemma length_nat_digits:
  "2 \<le> b \<Longrightarrow> n < b ^ k \<Longrightarrow> 0 < k \<Longrightarrow> length (nat_digits b n) \<le> k"
proof (induction b n arbitrary: k rule: nat_digits.induct)
  case (1 b n)
  show ?case
  proof (cases "n div b = 0")
    case True
    with "1.prems" show ?thesis by (simp add: nat_digits.simps [of b n])
  next
    case False
    then have "b \<le> n" using "1.prems"(1) by (simp add: div_eq_0_iff)
    then obtain k' where k: "k = Suc k'" "0 < k'"
      using "1.prems" by (cases k; cases "k - 1") auto
    then have "n div b < b ^ k'"
      using "1.prems" by (simp add: less_mult_imp_div_less mult.commute)
    with False "1.prems" k show ?thesis
      using "1.IH" [of k'] by (simp add: nat_digits.simps [of b n])
  qed
qed

section \<open>The parts of \<open>_ntoa_format\<close>\<close>

definition zeros_to :: "u32 \<Rightarrow> u8 list \<Rightarrow> u8 list" where
  "zeros_to limit cs =
     cs @ replicate (min (unat limit) PRINTF_NTOA_BUFFER_SIZE - length cs) (ch CHR ''0'')"

text \<open>The width that remains for the digits when the zero padding leaves room for a sign.\<close>

definition zeropad_width :: "bool \<Rightarrow> u32 \<Rightarrow> u32 \<Rightarrow> u32" where
  "zeropad_width negative width flags =
     (if \<not> has flags FLAGS_LEFT \<and> width \<noteq> 0 \<and> has flags FLAGS_ZEROPAD \<and>
         (negative \<or> has flags (FLAGS_PLUS OR FLAGS_SPACE))
      then width - 1 else width)"

definition pad_digits :: "u8 list \<Rightarrow> bool \<Rightarrow> u32 \<Rightarrow> u32 \<Rightarrow> u32 \<Rightarrow> u8 list" where
  "pad_digits cs negative prec width flags =
     (if has flags FLAGS_LEFT then cs
      else if has flags FLAGS_ZEROPAD
      then zeros_to (zeropad_width negative width flags) (zeros_to prec cs)
      else zeros_to prec cs)"

lemma ntoa_pad_holds:
  assumes "holds (buf, len) cs" "ntoa_pad buf len negative prec width flags = (buf', len', width')"
  shows "holds (buf', len') (pad_digits cs negative prec width flags) \<and>
    width' = zeropad_width negative width flags"
proof (cases "has flags FLAGS_LEFT")
  case True
  with assms show ?thesis by (auto simp: ntoa_pad_def pad_digits_def zeropad_width_def)
next
  case False
  obtain b1 l1 where z1: "zero_fill (unat prec) buf len = (b1, l1)" by (cases "zero_fill (unat prec) buf len")
  have h1: "holds (b1, l1) (zeros_to prec cs)"
    using zero_fill_holds [OF assms(1), of "unat prec"] by (simp add: z1 zeros_to_def)
  let ?w = "zeropad_width negative width flags"
  obtain b2 l2 where z2: "zero_fill (unat ?w) b1 l1 = (b2, l2)" by (cases "zero_fill (unat ?w) b1 l1")
  have h2: "holds (b2, l2) (zeros_to ?w (zeros_to prec cs))"
    using zero_fill_holds [OF h1, of "unat ?w"] by (simp add: z2 zeros_to_def)
  have "ntoa_pad buf len negative prec width flags =
      (if has flags FLAGS_ZEROPAD then (b2, l2, ?w) else (b1, l1, ?w))"
    using False z1 z2 by (auto simp: ntoa_pad_def zeropad_width_def Let_def split: if_splits)
  then show ?thesis
    using False assms(2) h1 h2 by (auto simp: pad_digits_def split: if_splits)
qed

text \<open>``handle hash'': the characters dropped first, then the prefix, which is reversed here.\<close>

definition hash_drop :: "u8 list \<Rightarrow> u32 \<Rightarrow> u32 \<Rightarrow> u32 \<Rightarrow> u32 \<Rightarrow> u8 list" where
  "hash_drop cs base prec width flags =
     (if \<not> has flags FLAGS_PRECISION \<and> cs \<noteq> [] \<and> (length cs = unat prec \<or> length cs = unat width)
      then (if butlast cs \<noteq> [] \<and> base = 16 then butlast (butlast cs) else butlast cs)
      else cs)"

definition hash_letter :: "u32 \<Rightarrow> u32 \<Rightarrow> u8 list" where
  "hash_letter base flags =
     (if base = 16 then (if has flags FLAGS_UPPERCASE then [ch CHR ''X''] else [ch CHR ''x''])
      else if base = 2 then [ch CHR ''b''] else [])"

definition append_max :: "u8 list \<Rightarrow> u8 list \<Rightarrow> u8 list" where
  "append_max cs ds = take PRINTF_NTOA_BUFFER_SIZE (cs @ ds)"

definition hash_digits :: "u8 list \<Rightarrow> u32 \<Rightarrow> u32 \<Rightarrow> u32 \<Rightarrow> u32 \<Rightarrow> u8 list" where
  "hash_digits cs base prec width flags =
     (if has flags FLAGS_HASH
      then append_max (append_max (hash_drop cs base prec width flags) (hash_letter base flags))
             [ch CHR ''0'']
      else cs)"

lemma append_max_Nil: "length cs \<le> PRINTF_NTOA_BUFFER_SIZE \<Longrightarrow> append_max cs [] = cs"
  by (simp add: append_max_def)

lemma holds_append_max:
  assumes "holds (buf, len) cs"
  shows "holds (if len < PRINTF_NTOA_BUFFER_SIZE then (buf[len := c], len + 1) else (buf, len))
    (append_max cs [c])"
proof (cases "len < PRINTF_NTOA_BUFFER_SIZE")
  case True
  with assms have "append_max cs [c] = cs @ [c]" by (simp add: append_max_def holds_def)
  with True holds_put [OF assms] show ?thesis by simp
next
  case False
  with assms have "append_max cs [c] = cs" by (simp add: append_max_def holds_def)
  with False assms show ?thesis by simp
qed

lemma hash_drop_holds:
  assumes "holds (buf, len) cs"
  shows "holds (buf,
    if \<not> has flags FLAGS_PRECISION \<and> len \<noteq> 0 \<and> (len = unat prec \<or> len = unat width)
    then (if len - 1 \<noteq> 0 \<and> base = 16 then len - 1 - 1 else len - 1) else len)
    (hash_drop cs base prec width flags)"
proof -
  have len: "len = length cs" using holds_len [OF assms] .
  then have tests: "len \<noteq> 0 \<longleftrightarrow> cs \<noteq> []" "len - 1 \<noteq> 0 \<longleftrightarrow> butlast cs \<noteq> []"
    "\<And>x. len = x \<longleftrightarrow> length cs = x"
    by (cases cs rule: rev_cases; simp)+
  show ?thesis
    unfolding hash_drop_def tests
    using assms holds_drop [OF assms] holds_drop [OF holds_drop [OF assms]]
    by (auto simp del: One_nat_def)
qed

lemma ntoa_hash_holds:
  assumes "holds (buf, len) cs"
  shows "holds (ntoa_hash buf len base prec width flags) (hash_digits cs base prec width flags)"
proof (cases "has flags FLAGS_HASH")
  case True
  let ?N = PRINTF_NTOA_BUFFER_SIZE
  define l where "l =
    (if \<not> has flags FLAGS_PRECISION \<and> len \<noteq> 0 \<and> (len = unat prec \<or> len = unat width)
     then (if len - 1 \<noteq> 0 \<and> base = 16 then len - 1 - 1 else len - 1) else len)"
  define b2 where "b2 =
    (if base = 16 \<and> \<not> has flags FLAGS_UPPERCASE \<and> l < ?N then (buf[l := ch CHR ''x''], l + 1)
     else if base = 16 \<and> has flags FLAGS_UPPERCASE \<and> l < ?N then (buf[l := ch CHR ''X''], l + 1)
     else if base = 2 \<and> l < ?N then (buf[l := ch CHR ''b''], l + 1) else (buf, l))"
  have h1: "holds (buf, l) (hash_drop cs base prec width flags)"
    unfolding l_def by (rule hash_drop_holds [OF assms])
  then have "length (hash_drop cs base prec width flags) \<le> ?N" by (simp add: holds_def)
  then have h2: "holds b2 (append_max (hash_drop cs base prec width flags) (hash_letter base flags))"
    using holds_append_max [OF h1, of "ch CHR ''x''"] holds_append_max [OF h1, of "ch CHR ''X''"]
      holds_append_max [OF h1, of "ch CHR ''b''"] h1
    by (auto simp: b2_def hash_letter_def append_max_Nil simp del: of_char_Char split: if_splits)
  obtain buf2 len2 where b2: "b2 = (buf2, len2)" by (cases b2)
  have "ntoa_hash buf len base prec width flags =
      (if len2 < ?N then (buf2[len2 := ch CHR ''0''], len2 + 1) else (buf2, len2))"
    using True b2 unfolding ntoa_hash_def Let_def l_def [symmetric] b2_def [symmetric] by simp
  then show ?thesis
    using True holds_append_max [OF h2 [unfolded b2], of "ch CHR ''0''"]
    by (simp only: hash_digits_def if_True)
next
  case False
  with assms show ?thesis by (simp add: ntoa_hash_def hash_digits_def)
qed

definition sign_text :: "bool \<Rightarrow> u32 \<Rightarrow> u8 list" where
  "sign_text negative flags =
     (if negative then [ch CHR ''-''] else if has flags FLAGS_PLUS then [ch CHR ''+'']
      else if has flags FLAGS_SPACE then [ch CHR '' ''] else [])"

lemma put_sign_holds:
  assumes "holds (buf, len) cs"
  shows "holds (put_sign buf len negative flags) (append_max cs (sign_text negative flags))"
proof -
  have "length cs \<le> PRINTF_NTOA_BUFFER_SIZE" using assms by (simp add: holds_def)
  then show ?thesis
    using holds_append_max [OF assms, of "ch CHR ''-''"] holds_append_max [OF assms, of "ch CHR ''+''"]
      holds_append_max [OF assms, of "ch CHR '' ''"] assms
    by (auto simp: put_sign_def sign_text_def append_max_Nil simp del: of_char_Char split: if_splits)
qed

text \<open>The text of \<open>_ntoa_format\<close>, from the digits least significant first.\<close>

definition ntoa_format_text :: "u8 list \<Rightarrow> bool \<Rightarrow> u32 \<Rightarrow> u32 \<Rightarrow> u32 \<Rightarrow> u32 \<Rightarrow> u8 list" where
  "ntoa_format_text cs negative base prec width flags =
     (let w = zeropad_width negative width flags;
          cs = pad_digits cs negative prec width flags;
          cs = hash_digits cs base prec w flags;
          cs = append_max cs (sign_text negative flags)
      in out_rev_text cs w flags)"

lemma ntoa_format_sends [emit_simps]:
  assumes "holds (buf, len) cs"
  shows "ntoa_format out idx maxlen buf len negative base prec width flags s =
    sends out maxlen idx s (ntoa_format_text cs negative base prec width flags)"
proof -
  obtain b1 l1 w where p: "ntoa_pad buf len negative prec width flags = (b1, l1, w)"
    by (cases "ntoa_pad buf len negative prec width flags")
  have h1: "holds (b1, l1) (pad_digits cs negative prec width flags)"
    and w: "w = zeropad_width negative width flags"
    using ntoa_pad_holds [OF assms p] by auto
  obtain b2 l2 where q: "ntoa_hash b1 l1 base prec w flags = (b2, l2)"
    by (cases "ntoa_hash b1 l1 base prec w flags")
  have h2: "holds (b2, l2) (hash_digits (pad_digits cs negative prec width flags) base prec w flags)"
    using ntoa_hash_holds [OF h1, of base prec w flags] by (simp only: q)
  obtain b3 l3 where r: "put_sign b2 l2 negative flags = (b3, l3)"
    by (cases "put_sign b2 l2 negative flags")
  have h3: "holds (b3, l3) (append_max (hash_digits (pad_digits cs negative prec width flags)
      base prec w flags) (sign_text negative flags))"
    using put_sign_holds [OF h2, of negative flags] by (simp only: r)
  then have "l3 \<le> length b3" "l3 < 2 ^ 32"
    by (auto simp: holds_def PRINTF_NTOA_BUFFER_SIZE_def)
  moreover have "take l3 b3 = append_max (hash_digits (pad_digits cs negative prec width flags)
      base prec w flags) (sign_text negative flags)"
    using h3 by (rule holds_take)
  moreover have "ntoa_format out idx maxlen buf len negative base prec width flags s =
      out_rev out idx maxlen b3 l3 w flags s"
    by (simp add: ntoa_format_def p q r)
  ultimately show ?thesis
    by (simp add: ntoa_format_text_def Let_def out_rev_sends) (simp add: w)
qed

section \<open>The digit loop\<close>

definition digits_text :: "'w::len word \<Rightarrow> 'w word \<Rightarrow> u32 \<Rightarrow> u8 list" where
  "digits_text value base flags =
     map (\<lambda>d. digit_char flags (of_nat d)) (nat_digits (unat base) (unat value))"

lemma digit_loop_holds:
  fixes v base :: "'w::len word"
  assumes "2 \<le> unat base" "holds (buf, len) cs" "len < PRINTF_NTOA_BUFFER_SIZE"
  shows "holds (digit_loop v base flags buf len)
    (append_max cs (digits_text v base flags))"
  using assms
proof (induction v base flags buf len arbitrary: cs rule: digit_loop.induct)
  case (1 v base flags buf len)
  let ?d = "digit_char flags (ucast (v mod base))" and ?N = PRINTF_NTOA_BUFFER_SIZE
  have len: "len = length cs" by (rule holds_len [OF "1.prems"(2)])
  have put: "holds (buf[len := ?d], Suc len) (cs @ [?d])"
    using "1.prems" by (intro holds_put)
  have d: "?d = digit_char flags (of_nat (unat v mod unat base))"
    by (simp only: unat_mod [symmetric] of_nat_unat)
  have zero: "v div base = 0 \<longleftrightarrow> unat v div unat base = 0"
    by (simp only: unat_div [symmetric] unat_eq_zero)
  have cons: "digits_text v base flags =
      ?d # (if v div base = 0 then [] else digits_text (v div base) base flags)"
    using "1.prems"(1)
    by (simp add: digits_text_def nat_digits.simps [of _ "unat v"] d zero unat_div)
  show ?case
  proof (cases "v div base \<noteq> 0 \<and> Suc len < ?N")
    case True
    then have "holds (digit_loop (v div base) base flags (buf[len := ?d]) (Suc len))
        (append_max (cs @ [?d]) (digits_text (v div base) base flags))"
      using "1.IH" [OF refl refl refl refl] put "1.prems"(1) by simp
    with True show ?thesis
      by (simp add: digit_loop.simps [of v base] Let_def cons append_max_def)
  next
    case False
    then have loop: "digit_loop v base flags buf len = (buf[len := ?d], Suc len)"
      by (subst digit_loop.simps) (auto simp: Let_def)
    have room: "?N - length cs = Suc 0" if "v div base \<noteq> 0"
      using that False "1.prems"(3) len by linarith
    have "append_max cs (digits_text v base flags) = cs @ [?d]"
      using room False "1.prems"(3) len by (auto simp: cons append_max_def)
    with loop put show ?thesis by simp
  qed
qed

section \<open>The text of \<open>_ntoa_long\<close> and \<open>_ntoa_long_long\<close>\<close>

definition ntoa_text ::
  "'w::len word \<Rightarrow> 'w word \<Rightarrow> bool \<Rightarrow> u32 \<Rightarrow> u32 \<Rightarrow> u32 \<Rightarrow> u8 list" where
  "ntoa_text v base negative prec width flags =
     (let flags = no_hash_for_zero v flags;
          cs = (if \<not> has flags FLAGS_PRECISION \<or> v \<noteq> 0
                then append_max [] (digits_text v base flags) else [])
      in ntoa_format_text cs negative (ucast base) prec width flags)"

lemma ntoa_digits_holds:
  assumes "2 \<le> unat base"
  shows "holds (ntoa_digits v base flags)
    (if \<not> has flags FLAGS_PRECISION \<or> v \<noteq> 0 then append_max [] (digits_text v base flags) else [])"
  using digit_loop_holds [OF assms holds_empty]
  by (simp add: ntoa_digits_def holds_empty PRINTF_NTOA_BUFFER_SIZE_def)

lemma ntoa_long_sends [emit_simps]:
  assumes "2 \<le> unat base"
  shows "ntoa_long out idx maxlen v negative base prec width flags s =
    sends out maxlen idx s (ntoa_text v base negative prec width flags)"
proof -
  let ?f = "no_hash_for_zero v flags"
  obtain buf len where d: "ntoa_digits v base ?f = (buf, len)" by (cases "ntoa_digits v base ?f")
  have "holds (buf, len)
      (if \<not> has ?f FLAGS_PRECISION \<or> v \<noteq> 0 then append_max [] (digits_text v base ?f) else [])"
    using ntoa_digits_holds [OF assms, of v ?f] by (simp only: d)
  then show ?thesis
    by (simp add: ntoa_long_def d ntoa_format_sends) (simp add: ntoa_text_def Let_def)
qed

lemma ntoa_long_long_sends [emit_simps]:
  assumes "2 \<le> unat base"
  shows "ntoa_long_long out idx maxlen v negative base prec width flags s =
    sends out maxlen idx s (ntoa_text v base negative prec width flags)"
proof -
  let ?f = "no_hash_for_zero v flags"
  obtain buf len where d: "ntoa_digits v base ?f = (buf, len)" by (cases "ntoa_digits v base ?f")
  have "holds (buf, len)
      (if \<not> has ?f FLAGS_PRECISION \<or> v \<noteq> 0 then append_max [] (digits_text v base ?f) else [])"
    using ntoa_digits_holds [OF assms, of v ?f] by (simp only: d)
  then show ?thesis
    by (simp add: ntoa_long_long_def d ntoa_format_sends) (simp add: ntoa_text_def Let_def)
qed

end
