(* ===== verification/Ntoa_Props.thy ===== *)
theory Ntoa_Props
  imports Ntoa_Text
begin

text \<open>
  What the printed integers mean: the digits denote the number (modulo what fits in the 32-byte
  buffer), decimal output is the usual decimal notation with sign and padding, and reading it
  back gives the number; and where the fixed buffer and the \<open>#\<close> flag make the output wrong.
\<close>

section \<open>Digits and their value\<close>

text \<open>The value of a digit character, in either case.\<close>

definition char_digit :: "u8 \<Rightarrow> nat" where
  "char_digit c =
     (if c \<le> ch CHR ''9'' then unat c - 48 else if c \<le> ch CHR ''Z'' then unat c - 55 else unat c - 87)"

lemma digits_value_take:
  "2 \<le> b \<Longrightarrow> digits_value b (take k (nat_digits b n)) = n mod b ^ k"
proof (induction k arbitrary: n)
  case 0
  then show ?case by simp
next
  case (Suc k)
  show ?case
  proof (cases "n div b = 0")
    case True
    then have "n < b" using Suc.prems by (simp add: div_eq_0_iff)
    also have "b \<le> b ^ Suc k" using Suc.prems by simp
    finally have "n mod b ^ Suc k = n" by simp
    with True \<open>n < b\<close> show ?thesis by (simp add: nat_digits.simps [of b n] del: power_Suc)
  next
    case False
    have "digits_value b (take (Suc k) (nat_digits b n)) = n mod b + b * (n div b mod b ^ k)"
      using False Suc by (simp add: nat_digits.simps [of b n])
    also have "\<dots> = n mod (b * b ^ k)" by (simp add: mod_mult2_eq)
    finally show ?thesis by simp
  qed
qed

lemma char_digit_char:
  assumes "d < 36"
  shows "char_digit (digit_char flags (of_nat d)) = d"
proof -
  have d: "unat (of_nat d :: u8) = d" using assms by (simp add: unat_of_nat)
  show ?thesis
  proof (cases "d < 10")
    case True
    then have "unat (48 + of_nat d :: u8) = 48 + d" by (subst unat_plus) (simp_all add: d)
    with True show ?thesis
      by (simp add: digit_char_def char_digit_def word_less_nat_alt word_le_nat_alt d)
  next
    case False
    have up: "unat (55 + of_nat d :: u8) = 55 + d" and lo: "unat (87 + of_nat d :: u8) = 87 + d"
      using assms by (subst unat_plus, simp_all add: d)+
    have "ch CHR ''A'' + of_nat d - 10 = (55 + of_nat d :: u8)"
      and "ch CHR ''a'' + of_nat d - 10 = (87 + of_nat d :: u8)" by simp_all
    with False assms up lo show ?thesis
      by (simp add: digit_char_def char_digit_def word_less_nat_alt word_le_nat_alt d
          del: of_char_Char) simp
  qed
qed

lemma nat_digits_unat_less:
  fixes base :: "'w::len word"
  assumes "2 \<le> unat base" "unat base \<le> 36" "d \<in> set (nat_digits (unat base) n)"
  shows "d < 36"
  using nat_digits_less [OF assms(1,3)] assms(2) by simp

lemma map_char_digit:
  assumes "2 \<le> unat base" "unat base \<le> 36"
  shows "map char_digit (digits_text v base flags) = nat_digits (unat base) (unat v)"
proof -
  have "map char_digit (digits_text v base flags) =
      map (\<lambda>d. char_digit (digit_char flags (of_nat d))) (nat_digits (unat base) (unat v))"
    by (simp add: digits_text_def comp_def)
  also have "\<dots> = map (\<lambda>d. d) (nat_digits (unat base) (unat v))"
    using nat_digits_unat_less [OF assms] by (intro map_cong refl char_digit_char)
  finally show ?thesis by simp
qed

text \<open>
  The digits the conversion leaves in the buffer denote the number modulo
  \<open>base ^ 32\<close>, in every base up to 36 and at both widths (\<open>long\<close> and \<open>long long\<close>); so
  a 32-bit number is converted exactly in every base.
\<close>

lemma ntoa_digits_value:
  fixes v base :: "'w::len word"
  assumes "2 \<le> unat base" "unat base \<le> 36"
  shows "(let (buf, len) = ntoa_digits v base flags
          in digits_value (unat base) (map char_digit (take len buf)) = unat v mod unat base ^ 32)"
proof -
  obtain buf len where d: "ntoa_digits v base flags = (buf, len)" by (cases "ntoa_digits v base flags")
  let ?t = "if \<not> has flags FLAGS_PRECISION \<or> v \<noteq> 0 then append_max [] (digits_text v base flags) else []"
  have "holds (buf, len) ?t" using ntoa_digits_holds [OF assms(1), of v flags] by (simp only: d)
  then have "take len buf = ?t" by (rule holds_take)
  moreover have "digits_value (unat base) (map char_digit ?t) = unat v mod unat base ^ 32"
    using assms digits_value_take [OF assms(1), of 32 "unat v"]
    by (simp add: append_max_def PRINTF_NTOA_BUFFER_SIZE_def map_char_digit flip: take_map)
  ultimately show ?thesis by (simp add: d)
qed

lemma append_max_digits32:
  fixes v base :: u32
  assumes "2 \<le> unat base"
  shows "append_max [] (digits_text v base flags) = digits_text v base flags"
proof -
  have "unat v < 2 ^ 32" using unat_lt [of v] by simp
  also have "(2::nat) ^ 32 \<le> unat base ^ 32" using assms by (intro power_mono) simp_all
  finally have "length (nat_digits (unat base) (unat v)) \<le> 32"
    using assms by (intro length_nat_digits) simp_all
  then show ?thesis by (simp add: append_max_def digits_text_def PRINTF_NTOA_BUFFER_SIZE_def)
qed

text \<open>
  C19: \<open>long\<close> numbers are converted exactly: whatever the base from 2 to 36, the digits of a 32-bit
  number fit the buffer and denote the number. Zero has one digit, or none when a precision is
  given; otherwise the most significant digit, which is the last in the buffer, is not a zero.
\<close>

theorem ntoa_long_digits_exact:
  fixes v base :: u32
  assumes "2 \<le> unat base" "unat base \<le> 36"
  shows "(let (buf, len) = ntoa_digits v base flags
          in digits_value (unat base) (map char_digit (take len buf)) = unat v \<and> len \<le> 32 \<and>
             (if v = 0 then len = (if has flags FLAGS_PRECISION then 0 else 1)
              else 0 < len \<and> char_digit (buf ! (len - 1)) \<noteq> 0))"
proof -
  obtain buf len where d: "ntoa_digits v base flags = (buf, len)" by (cases "ntoa_digits v base flags")
  let ?t = "digits_text v base flags"
  have h: "holds (buf, len) (if has flags FLAGS_PRECISION \<longrightarrow> v \<noteq> 0 then ?t else [])"
    using ntoa_digits_holds [OF assms(1), of v flags] unfolding append_max_digits32 [OF assms(1)] d by auto
  note tk = holds_take [OF h]
  have len: "len = length (if has flags FLAGS_PRECISION \<longrightarrow> v \<noteq> 0 then ?t else [])" "len \<le> 32"
    using h by (simp_all add: holds_def PRINTF_NTOA_BUFFER_SIZE_def)
  show ?thesis
  proof (cases "v = 0")
    case True
    then have "?t = [digit_char flags 0]" by (simp add: digits_text_def nat_digits.simps)
    moreover have "map char_digit ?t = [0]" using True map_char_digit [OF assms, of v flags] by (simp add: nat_digits.simps)
    ultimately show ?thesis unfolding d Let_def prod.case tk using True len(1) by simp
  next
    case False
    then have t: "take len buf = ?t" "len = length ?t" using tk len(1) by simp_all
    have ne: "?t \<noteq> []" by (simp add: digits_text_def)
    then have "buf ! (len - 1) = last ?t"
      using t by (metis diff_less last_conv_nth length_greater_0_conv nth_take zero_less_one)
    then have "char_digit (buf ! (len - 1)) = last (nat_digits (unat base) (unat v))"
      using ne map_char_digit [OF assms, of v flags] by (metis last_map)
    then have "char_digit (buf ! (len - 1)) \<noteq> 0"
      using nat_digits_last [OF assms(1), of "unat v"] False by (simp add: unat_eq_zero)
    then show ?thesis
      unfolding d Let_def prod.case t(1) map_char_digit [OF assms] digits_value_nat_digits [OF assms(1)]
      using ne t(2) len(2) False by simp
  qed
qed

theorem ntoa_long_digits_exact_witness:
  "(let (buf, len) = ntoa_digits (0xFFFFFFFF :: u32) 2 0
    in digits_value 2 (map char_digit (take len buf)) = 0xFFFFFFFF \<and>
       len \<le> 32 \<and> 0 < len \<and> char_digit (buf ! (len - 1)) \<noteq> 0)"
  using ntoa_long_digits_exact [where v = "0xFFFFFFFF" and base = 2 and flags = 0] by simp

section \<open>Decimal output\<close>

text \<open>The usual decimal notation of a number.\<close>

definition decimal :: "nat \<Rightarrow> u8 list" where
  "decimal n = rev (map (\<lambda>d. ch CHR ''0'' + of_nat d) (nat_digits 10 n))"

lemma digits_text_decimal: "unat base = 10 \<Longrightarrow> rev (digits_text v base flags) = decimal (unat v)"
proof -
  assume base: "unat base = 10"
  have "digit_char flags (of_nat d) = ch CHR ''0'' + of_nat d" if "d \<in> set (nat_digits 10 n)" for d n
    using nat_digits_less [OF _ that] by (simp add: digit_char_def word_less_nat_alt unat_of_nat)
  then show ?thesis by (simp add: digits_text_def decimal_def base cong: map_cong)
qed

lemma length_decimal_le: "length (decimal n) \<le> k" if "n < 10 ^ k" "0 < k"
  using length_nat_digits [OF _ that] by (simp add: decimal_def)

lemma decimal_not_Nil [simp]: "decimal n \<noteq> []"
  by (simp add: decimal_def)

text \<open>The words whose decimal notation leaves room for a sign in the buffer: all of both widths.\<close>

lemma length_decimal_word:
  fixes v :: "'w::len word"
  assumes "LENGTH('w) \<le> 64"
  shows "length (decimal (unat v)) \<le> 20"
proof -
  have "unat v < 2 ^ LENGTH('w)" by (rule unat_lt)
  also have "(2::nat) ^ LENGTH('w) \<le> 2 ^ 64" using assms by (intro power_increasing) simp_all
  also have "(2::nat) ^ 64 < 10 ^ 20" by simp
  finally show ?thesis by (intro length_decimal_le) simp_all
qed

lemma append_max_short:
  "length cs + length ds \<le> 32 \<Longrightarrow> append_max cs ds = cs @ ds"
  by (simp add: append_max_def PRINTF_NTOA_BUFFER_SIZE_def)

lemma append_max_full: "length cs = 32 \<Longrightarrow> append_max cs ds = cs"
  by (simp add: append_max_def PRINTF_NTOA_BUFFER_SIZE_def)

lemma length_sign_text: "length (sign_text negative flags) \<le> 1"
  by (simp add: sign_text_def)

lemma rev_sign_text [simp]: "rev (sign_text negative flags) = sign_text negative flags"
  by (simp add: sign_text_def)

lemma sign_text_Nil_iff:
  "sign_text negative flags = [] \<longleftrightarrow> \<not> negative \<and> \<not> has flags (FLAGS_PLUS OR FLAGS_SPACE)"
  by (simp add: sign_text_def has_or)

lemma length_digits_text:
  fixes v base :: "'w::len word"
  assumes "unat base = 10" "LENGTH('w) \<le> 64"
  shows "length (digits_text v base flags) = length (decimal (unat v))"
    and "length (digits_text v base flags) \<le> 20"
proof -
  show "length (digits_text v base flags) = length (decimal (unat v))"
    by (simp only: digits_text_decimal [OF assms(1), where flags = flags, symmetric] length_rev)
  with length_decimal_word [OF assms(2), of v] show "length (digits_text v base flags) \<le> 20"
    by simp
qed

definition no_flag :: "u32 \<Rightarrow> u32 list \<Rightarrow> bool" where
  "no_flag flags Fs \<longleftrightarrow> list_all (\<lambda>F. \<not> has flags F) Fs"

lemma unat_ten: "unat (10 :: u32) = 10" "unat (10 :: u64) = 10"
  by simp_all

lemma length_u: "LENGTH(32) \<le> 64" "LENGTH(64) \<le> 64"
  by simp_all

lemma ntoa_sends_dec:
  "ntoa_long out idx maxlen v negative 10 prec width flags s =
     sends out maxlen idx s (ntoa_text v 10 negative prec width flags)"
  "ntoa_long_long out idx maxlen w negative 10 prec width flags s =
     sends out maxlen idx s (ntoa_text w 10 negative prec width flags)"
  by (simp_all add: ntoa_long_sends ntoa_long_long_sends)

lemma ntoa_text_decimal:
  fixes v base :: "'w::len word"
  assumes "unat base = 10" "LENGTH('w) \<le> 64"
    and "no_flag flags [FLAGS_ZEROPAD, FLAGS_HASH, FLAGS_PRECISION]"
  shows "ntoa_text v base negative 0 width flags =
    (let body = sign_text negative flags @ decimal (unat v)
     in if has flags FLAGS_LEFT then body @ pad_text width body else pad_text width body @ body)"
proof -
  let ?t = "digits_text v base flags"
  note len = length_digits_text [OF assms(1,2), where v = v and flags = flags]
  have f: "no_hash_for_zero v flags = flags"
    using assms(3) by (simp add: no_hash_for_zero_def no_flag_def and_not_unset)
  have "append_max [] ?t = ?t" using len(2) by (simp add: append_max_short)
  moreover have "append_max ?t (sign_text negative flags) = ?t @ sign_text negative flags"
    using len(2) length_sign_text [of negative flags] by (simp add: append_max_short)
  ultimately show ?thesis
    using assms(3)
    by (simp add: ntoa_text_def f no_flag_def ntoa_format_text_def pad_digits_def zeropad_width_def
        zeros_to_def hash_digits_def out_rev_text_def pad_text_def Let_def
        digits_text_decimal [OF assms(1)] len(1) add.commute)
qed

text \<open>
  Plain decimal output. Without the \<open>0\<close> and \<open>#\<close> flags and without a precision, \<open>_ntoa_long\<close> and
  \<open>_ntoa_long_long\<close> send the sign (\<open>-\<close>, or what the \<open>+\<close> or space flag asks for) and the decimal
  notation of the number, padded with spaces to the field width on the right with the \<open>-\<close>
  flag and on the left otherwise.
\<close>

definition decimal_field :: "bool \<Rightarrow> u32 \<Rightarrow> u32 \<Rightarrow> nat \<Rightarrow> u8 list" where
  "decimal_field negative width flags n =
     (let body = sign_text negative flags @ decimal n
      in if has flags FLAGS_LEFT then body @ pad_text width body else pad_text width body @ body)"

lemma ntoa_decimal:
  assumes "no_flag flags [FLAGS_ZEROPAD, FLAGS_HASH, FLAGS_PRECISION]"
  shows "ntoa_long out idx maxlen v negative 10 0 width flags s =
      sends out maxlen idx s (decimal_field negative width flags (unat v)) \<and>
    ntoa_long_long out idx maxlen w negative 10 0 width flags s =
      sends out maxlen idx s (decimal_field negative width flags (unat w))"
  by (simp only: ntoa_sends_dec decimal_field_def)
    (simp only: ntoa_text_decimal assms unat_ten length_u simp_thms)

lemma ntoa_zeropad_text:
  fixes v base :: "'w::len word"
  assumes "unat base = 10" "LENGTH('w) \<le> 64" "has flags FLAGS_ZEROPAD"
    and "no_flag flags [FLAGS_LEFT, FLAGS_HASH, FLAGS_PRECISION]"
  shows "ntoa_text v base negative 0 width flags =
    rev (append_max (zeros_to (zeropad_width negative width flags) (digits_text v base flags))
       (sign_text negative flags))"
proof -
  let ?t = "digits_text v base flags"
  have f: "no_hash_for_zero v flags = flags"
    using assms(4) by (simp add: no_hash_for_zero_def no_flag_def and_not_unset)
  have "append_max [] ?t = ?t"
    using length_digits_text(2) [OF assms(1,2), where v = v and flags = flags]
    by (simp add: append_max_short)
  moreover have "zeros_to 0 ?t = ?t" by (simp add: zeros_to_def)
  ultimately show ?thesis
    using assms(3,4)
    by (simp add: ntoa_text_def f no_flag_def ntoa_format_text_def pad_digits_def hash_digits_def
        out_rev_text_def Let_def)
qed

lemma unat_zeropad_width:
  assumes "has flags FLAGS_ZEROPAD" "\<not> has flags FLAGS_LEFT"
  shows "unat (zeropad_width negative width flags) = unat width - length (sign_text negative flags)"
proof (cases "sign_text negative flags = []")
  case True
  then have "\<not> negative \<and> \<not> has flags (FLAGS_PLUS OR FLAGS_SPACE)"
    by (simp only: sign_text_Nil_iff not_False_eq_True)
  then show ?thesis unfolding True by (simp add: zeropad_width_def)
next
  case False
  then have "length (sign_text negative flags) = 1"
    using length_sign_text [of negative flags] by (cases "sign_text negative flags") auto
  moreover have "negative \<or> has flags (FLAGS_PLUS OR FLAGS_SPACE)"
    using False unfolding sign_text_Nil_iff by blast
  ultimately show ?thesis using assms by (simp add: zeropad_width_def unat_minus_one)
qed

lemma ntoa_text_zeropad:
  fixes v base :: "'w::len word"
  assumes "unat base = 10" "LENGTH('w) \<le> 64" "has flags FLAGS_ZEROPAD"
    and "no_flag flags [FLAGS_LEFT, FLAGS_HASH, FLAGS_PRECISION]" "unat width \<le> 32"
  shows "ntoa_text v base negative 0 width flags =
    sign_text negative flags @
    replicate (unat width - length (sign_text negative flags @ decimal (unat v))) (ch CHR ''0'') @
    decimal (unat v)"
proof -
  let ?t = "digits_text v base flags" and ?s = "sign_text negative flags"
  let ?w = "zeropad_width negative width flags"
  note len = length_digits_text [OF assms(1,2), where v = v and flags = flags]
  have w: "unat ?w = unat width - length ?s"
    using assms(3,4) by (intro unat_zeropad_width) (simp_all add: no_flag_def)
  have "append_max (zeros_to ?w ?t) ?s = zeros_to ?w ?t @ ?s"
    using len(2) assms(5) length_sign_text [of negative flags]
    by (intro append_max_short) (auto simp: zeros_to_def w PRINTF_NTOA_BUFFER_SIZE_def)
  then show ?thesis
    using assms(5) len(1)
    by (simp add: ntoa_zeropad_text [OF assms(1-4)] zeros_to_def w PRINTF_NTOA_BUFFER_SIZE_def
        digits_text_decimal [OF assms(1)] min_def)
qed

text \<open>
  Zero padding. With the \<open>0\<close> flag and a field width of at most 32, \<open>_ntoa_long\<close> and
  \<open>_ntoa_long_long\<close> send the sign, then zeros up to the field width, then the decimal number.
\<close>

definition zeropad_field :: "bool \<Rightarrow> u32 \<Rightarrow> u32 \<Rightarrow> nat \<Rightarrow> u8 list" where
  "zeropad_field negative width flags n =
     sign_text negative flags @
     replicate (unat width - length (sign_text negative flags @ decimal n)) (ch CHR ''0'') @ decimal n"

lemma ntoa_zeropad:
  assumes "has flags FLAGS_ZEROPAD" "no_flag flags [FLAGS_LEFT, FLAGS_HASH, FLAGS_PRECISION]"
    and "unat width \<le> 32"
  shows "ntoa_long out idx maxlen v negative 10 0 width flags s =
      sends out maxlen idx s (zeropad_field negative width flags (unat v)) \<and>
    ntoa_long_long out idx maxlen w negative 10 0 width flags s =
      sends out maxlen idx s (zeropad_field negative width flags (unat w))"
  by (simp only: ntoa_sends_dec zeropad_field_def)
    (simp only: ntoa_text_zeropad assms unat_ten length_u simp_thms)

lemma ntoa_text_zeropad_full:
  fixes v base :: "'w::len word"
  assumes "unat base = 10" "LENGTH('w) \<le> 64" "has flags FLAGS_ZEROPAD"
    and "no_flag flags [FLAGS_LEFT, FLAGS_HASH, FLAGS_PRECISION]" "32 < unat width"
  shows "ntoa_text v base True 0 width flags =
    replicate (32 - length (decimal (unat v))) (ch CHR ''0'') @ decimal (unat v)"
proof -
  let ?t = "digits_text v base flags" and ?w = "zeropad_width True width flags"
  note len = length_digits_text [OF assms(1,2), where v = v and flags = flags]
  have "width \<noteq> 0" using assms(5) by auto
  then have "unat ?w = unat width - 1"
    using assms(3,4) by (simp add: zeropad_width_def no_flag_def unat_minus_one)
  then have z: "zeros_to ?w ?t = ?t @ replicate (32 - length ?t) (ch CHR ''0'')"
    using assms(5) by (simp add: zeros_to_def PRINTF_NTOA_BUFFER_SIZE_def)
  have "append_max (zeros_to ?w ?t) (sign_text True flags) = zeros_to ?w ?t"
    using len(2) by (intro append_max_full) (simp add: z)
  then show ?thesis
    by (simp add: ntoa_zeropad_text [OF assms(1-4)] z digits_text_decimal [OF assms(1)] len(1))
qed

text \<open>
  C35: beyond that, the 32-byte buffer is full of zeros before the sign is written: for a
  field width above 32 the output has 32 characters, and a negative number loses its minus sign.
\<close>

theorem ntoa_zeropad_loses_sign:
  assumes "has flags FLAGS_ZEROPAD" "no_flag flags [FLAGS_LEFT, FLAGS_HASH, FLAGS_PRECISION]"
    and "32 < unat width"
  shows "ntoa_long out idx maxlen v True 10 0 width flags s =
    sends out maxlen idx s (replicate (32 - length (decimal (unat v))) (ch CHR ''0'') @ decimal (unat v))"
  by (simp only: ntoa_sends_dec ntoa_text_zeropad_full assms unat_ten length_u simp_thms)

theorem ntoa_zeropad_loses_sign_witness:
  "ntoa_long (\<lambda>c s idx maxlen. s @ [c]) 0 100 5 True 10 0 40 FLAGS_ZEROPAD [] =
     (replicate 31 (ch CHR ''0'') @ cstr ''5'', 32)"
  using ntoa_zeropad_loses_sign [where flags = FLAGS_ZEROPAD and v = 5 and width = 40 and idx = 0
      and out = "\<lambda>c s idx maxlen. s @ [c]" and s = "[]" and maxlen = 100]
  by (simp add: no_flag_def has_def flag_defs decimal_def nat_digits.simps sends_def eval_simps)

section \<open>The \<open>#\<close> flag\<close>

lemma rev_butlast2: "rev (butlast (butlast xs)) = drop 2 (rev xs)"
proof -
  have "butlast (butlast (rev (rev xs))) = rev (tl (tl (rev xs)))" by (simp only: butlast_rev)
  then show ?thesis by (simp add: drop_Suc numeral_2_eq_2)
qed

lemma ntoa_text_hash_drops:
  fixes v :: u32
  assumes "length (nat_digits 16 (unat v)) = unat width" "2 < unat width" "flags = FLAGS_HASH"
  shows "ntoa_text v 16 False 0 width flags =
    cstr ''0x'' @ drop 2 (rev (digits_text v 16 flags))"
proof -
  let ?t = "digits_text v 16 flags"
  have v: "v \<noteq> 0" using assms(1,2) by (auto simp: nat_digits.simps)
  have len: "length ?t = unat width" using assms(1) by (simp add: digits_text_def)
  have "length ?t \<le> 8"
    using length_nat_digits [of 16 "unat v" 8] unat_lt32 [of v] by (simp add: digits_text_def)
  moreover have "append_max [] ?t = ?t" by (intro append_max_digits32) simp
  moreover have "zeros_to 0 ?t = ?t" by (simp add: zeros_to_def)
  moreover have "hash_drop ?t 16 0 width FLAGS_HASH = butlast (butlast ?t)"
  proof -
    have "?t \<noteq> []" "butlast ?t \<noteq> []" using len assms(2) by (auto simp flip: length_greater_0_conv)
    then show ?thesis using len by (simp add: hash_drop_def has_def flag_defs)
  qed
  moreover have "rev (butlast (butlast ?t)) = drop 2 (rev ?t)"
    by (rule rev_butlast2)
  ultimately show ?thesis
    using v len
    by (simp add: ntoa_text_def no_hash_for_zero_def assms(3) ntoa_format_text_def pad_digits_def
        hash_digits_def zeropad_width_def out_rev_text_def hash_letter_def sign_text_def
        pad_text_def append_max_short append_max_Nil PRINTF_NTOA_BUFFER_SIZE_def has_def flag_defs Let_def)
qed

text \<open>
  C36: with the \<open>#\<close> flag and a field width equal to the number of hexadecimal digits, but no
  zero padding, the conversion takes the two leading digits for padding zeros and overwrites
  them with the \<open>0x\<close> prefix: what is printed after the prefix is the number without its two
  most significant digits.
\<close>

theorem ntoa_hash_drops_digits:
  assumes "length (nat_digits 16 (unat v)) = unat width" "2 < unat width"
  shows "ntoa_long out idx maxlen v False 16 0 width FLAGS_HASH s =
    sends out maxlen idx s (cstr ''0x'' @ drop 2 (rev (digits_text v 16 FLAGS_HASH)))"
  using ntoa_text_hash_drops [OF assms refl] by (simp add: emit_simps)

theorem ntoa_hash_drops_digits_witness:
  "ntoa_long (\<lambda>c s idx maxlen. s @ [c]) 0 100 0x1234 False 16 0 4 FLAGS_HASH [] = (cstr ''0x34'', 4)"
  using ntoa_hash_drops_digits [where v = "0x1234" and width = 4 and idx = 0
      and out = "\<lambda>c s idx maxlen. s @ [c]" and s = "[]" and maxlen = 100]
  by (simp add: nat_digits.simps digits_text_def digit_char_def sends_def)

section \<open>Reading numbers and strings\<close>

lemma is_digit_iff: "is_digit c \<longleftrightarrow> 48 \<le> unat c \<and> unat c \<le> 57"
proof -
  have "unat c < 256" using unat_lt [of c] by simp
  then show ?thesis by (auto simp: is_digit_def sint_u8 simp del: of_nat_unat)
qed

lemma digit_of_nat:
  assumes "d < 10"
  shows "is_digit (ch CHR ''0'' + of_nat d)"
    and "scast (ch CHR ''0'' + of_nat d :: u8) - of_char CHR ''0'' = (of_nat d :: u32)"
proof -
  have d: "unat (of_nat d :: u8) = d" using assms by (simp add: unat_of_nat)
  then have u: "unat (ch CHR ''0'' + of_nat d :: u8) = 48 + d"
    using assms by (subst unat_plus) simp_all
  then show "is_digit (ch CHR ''0'' + of_nat d)" using assms by (simp add: is_digit_iff)
  have "sint (ch CHR ''0'' + of_nat d :: u8) = int (48 + d)"
    using assms unfolding sint_u8 u by (intro if_P) simp
  moreover have "(scast w :: u32) = word_of_int (sint w)" for w :: u8 by simp
  ultimately have "(scast (ch CHR ''0'' + of_nat d :: u8) :: u32) = of_nat (48 + d)"
    by (metis of_int_of_nat_eq)
  then show "scast (ch CHR ''0'' + of_nat d :: u8) - of_char CHR ''0'' = (of_nat d :: u32)"
    by simp
qed

lemma atoi_loop_digits:
  assumes "\<forall>d\<in>set ds. d < 10" "rest = [] \<or> \<not> is_digit (hd rest)"
  shows "atoi_loop i (map (\<lambda>d. ch CHR ''0'' + of_nat d) ds @ rest) =
    (fold (\<lambda>d a. a * 10 + of_nat d) ds i, rest)"
  using assms
proof (induction ds arbitrary: i)
  case Nil
  then show ?case by (cases rest) simp_all
next
  case (Cons d ds)
  then show ?case
    using digit_of_nat [of d] by (simp del: of_char_Char)
qed

lemma fold_digits_value:
  "fold (\<lambda>d a. a * 10 + of_nat d) (rev ds) 0 = (of_nat (digits_value 10 ds) :: u32)"
  by (induction ds) (simp_all add: algebra_simps)

lemma atoi_reads_decimal:
  assumes "rest = [] \<or> \<not> is_digit (hd rest)"
  shows "atoi (decimal n @ rest) = (of_nat n, rest)"
proof -
  have "\<forall>d\<in>set (rev (nat_digits 10 n)). d < 10" by (auto dest: nat_digits_less [rotated])
  then have "atoi (decimal n @ rest) =
      (fold (\<lambda>d a. a * 10 + of_nat d) (rev (nat_digits 10 n)) 0, rest)"
    using atoi_loop_digits [of "rev (nat_digits 10 n)" rest 0] assms
    by (simp only: atoi_def decimal_def rev_map)
  then show ?thesis by (simp add: fold_digits_value digits_value_nat_digits)
qed

text \<open>
  \<open>_atoi\<close> reads back what the decimal conversion prints: on the decimal notation of a
  number followed by something that is not a digit it returns the number, modulo \<open>2^32\<close>, and
  leaves the string pointer at what follows.
\<close>

lemma atoi_decimal:
  assumes "rest = [] \<or> \<not> is_digit (hd rest)"
  shows "atoi (decimal n @ rest) = (of_nat n, rest)"
  using assms by (rule atoi_reads_decimal)

text \<open>
  \<open>_strnlen_s\<close> is the length of the string up to its terminating zero, capped by the
  maximal size.
\<close>

lemma strnlen_s_correct:
  assumes "length str < 2 ^ 32"
  shows "unat (strnlen_s str maxsize) = min (length (takeWhile (\<lambda>c. c \<noteq> 0) str)) (unat maxsize)"
  using assms
proof (induction str maxsize rule: strnlen_s.induct)
  case (2 c cs maxsize)
  show ?case
  proof (cases "c \<noteq> 0 \<and> maxsize \<noteq> 0")
    case True
    have IH: "unat (strnlen_s cs (maxsize - 1)) =
        min (length (takeWhile (\<lambda>c. c \<noteq> 0) cs)) (unat (maxsize - 1))"
      using 2 True by simp
    also have "\<dots> \<le> length cs" by (simp add: length_takeWhile_le min.coboundedI1)
    finally have "unat (1 + strnlen_s cs (maxsize - 1)) = 1 + unat (strnlen_s cs (maxsize - 1))"
      using 2(2) by (subst unat_plus) simp_all
    moreover have "unat maxsize = Suc (unat (maxsize - 1))"
      using True by (simp add: unat_minus_one unat_gt_0)
    ultimately show ?thesis using True IH by simp
  next
    case False
    then show ?thesis by auto
  qed
qed simp

end
