(* ===== verification/Ftoa_Text.thy ===== *)
theory Ftoa_Text
  imports Ftoa Ntoa_Props
begin

text \<open>
  The floating-point formatting as functions on texts: what \<open>_ftoa\<close> and \<open>_etoa\<close> send to
  whatever output function they get, with lists in place of the 32-byte buffer.
\<close>

section \<open>The loops\<close>

lemma FTOA_BUFFER_SIZE [simp]: "PRINTF_FTOA_BUFFER_SIZE = PRINTF_NTOA_BUFFER_SIZE"
  by (simp add: PRINTF_FTOA_BUFFER_SIZE_def PRINTF_NTOA_BUFFER_SIZE_def)

lemma append_max_assoc: "append_max (append_max cs ds) es = append_max cs (ds @ es)"
  by (simp add: append_max_def min_def)

lemma append_max_saturated: "length cs = PRINTF_NTOA_BUFFER_SIZE \<Longrightarrow> append_max cs ds = cs"
  by (simp add: append_max_def)

lemma length_append_max [simp]:
  "length (append_max cs ds) = min (length cs + length ds) PRINTF_NTOA_BUFFER_SIZE"
  by (simp add: append_max_def min.commute)

lemma append_max_room: "length cs + length ds \<le> PRINTF_NTOA_BUFFER_SIZE \<Longrightarrow> append_max cs ds = cs @ ds"
  by (simp add: append_max_def)

lemma holds_full: "holds (buf, len) cs \<Longrightarrow> \<not> len < PRINTF_NTOA_BUFFER_SIZE \<Longrightarrow> append_max cs ds = cs"
  by (intro append_max_saturated) (simp add: holds_def)

definition limit_zeros :: "u32 \<Rightarrow> nat" where
  "limit_zeros prec = min PRINTF_NTOA_BUFFER_SIZE (unat prec - 9)"

lemma limit_prec_holds:
  assumes "holds (buf, len) cs"
  shows "\<exists>buf' len'. limit_prec buf len prec =
      (buf', len', prec - of_nat (min (PRINTF_NTOA_BUFFER_SIZE - length cs) (unat prec - 9))) \<and>
    holds (buf', len')
      (cs @ replicate (min (PRINTF_NTOA_BUFFER_SIZE - length cs) (unat prec - 9)) (ch CHR ''0''))"
  using assms
proof (induction buf len prec arbitrary: cs rule: limit_prec.induct)
  case (1 buf len prec)
  note len = holds_len [OF "1.prems"]
  let ?n = "\<lambda>cs prec. min (PRINTF_NTOA_BUFFER_SIZE - length cs) (unat (prec :: u32) - 9)"
  show ?case
  proof (cases "len < PRINTF_NTOA_BUFFER_SIZE \<and> prec > 9")
    case True
    then have "prec \<noteq> 0" "9 < unat prec" by (auto simp: word_less_nat_alt)
    then have "unat (prec - 1) = unat prec - 1" by (intro unat_minus_one)
    with True len \<open>9 < unat prec\<close> have n: "?n cs prec = Suc (?n (cs @ [ch CHR ''0'']) (prec - 1))"
      by auto
    have "holds (buf[len := ch CHR ''0''], len + 1) (cs @ [ch CHR ''0''])"
      using holds_put [OF "1.prems"] True by simp
    with True n show ?thesis
      using "1.IH" [of "cs @ [ch CHR ''0'']"] by (simp add: limit_prec.simps [of buf len prec] algebra_simps)
  next
    case False
    then have "?n cs prec = 0" using len by (auto simp: word_less_nat_alt not_less)
    moreover have "limit_prec buf len prec = (buf, len, prec)"
      using False by (subst limit_prec.simps) auto
    ultimately show ?thesis using "1.prems" by simp
  qed
qed

lemma decimal_rev: "rev (decimal n) = (ch CHR ''0'' + of_nat (n mod 10)) #
    (if n div 10 = 0 then [] else rev (decimal (n div 10)))"
  by (simp add: decimal_def rev_map nat_digits.simps [of 10 n])

lemma frac_digit: "(ucast (48 + frac mod 10 :: u32) :: u8) = ch CHR ''0'' + of_nat (unat frac mod 10)"
proof -
  have "unat (48 + frac mod 10) = 48 + unat frac mod 10"
    by (subst unat_plus) (simp_all add: unat_mod)
  then have "(ucast (48 + frac mod 10) :: u8) = of_nat (48 + unat frac mod 10)"
    by (metis of_nat_unat)
  then show ?thesis by simp
qed

lemma frac_digits_holds:
  assumes "holds (buf, len) cs"
  shows "\<exists>buf' len'. frac_digits buf len frac count =
      (buf', len', count - of_nat (length (append_max cs (rev (decimal (unat frac)))) - length cs)) \<and>
    holds (buf', len') (append_max cs (rev (decimal (unat frac))))"
  using assms
proof (induction buf len frac count arbitrary: cs rule: frac_digits.induct)
  case (1 buf len frac count)
  note len = holds_len [OF "1.prems"]
  let ?c = "ucast (48 + frac mod 10) :: u8"
  show ?case
  proof (cases "len < PRINTF_NTOA_BUFFER_SIZE")
    case True
    note c = frac_digit [of frac]
    have zero: "frac div 10 = 0 \<longleftrightarrow> unat (frac div 10) = 0" by (simp add: unat_eq_zero)
    have divn: "unat (frac div 10) = unat frac div 10" by (simp add: unat_div)
    have put: "holds (buf[len := ?c], Suc len) (cs @ [?c])"
      using holds_put [OF "1.prems" True] .
    show ?thesis
    proof (cases "frac div 10 = 0")
      case z: True
      then have "append_max cs (rev (decimal (unat frac))) = cs @ [?c]"
        using True len zero divn by (subst decimal_rev) (simp add: c append_max_room)
      with put z True show ?thesis by (simp add: frac_digits.simps [of buf len frac] Let_def)
    next
      case z: False
      let ?ds = "rev (decimal (unat (frac div 10)))"
      have ds: "rev (decimal (unat frac)) = ?c # ?ds"
        using z zero by (subst decimal_rev) (simp add: c divn)
      have app: "append_max (cs @ [?c]) ?ds = append_max cs (?c # ?ds)"
        by (simp add: append_max_def)
      have "length (append_max cs (?c # ?ds)) - length cs =
          Suc (length (append_max (cs @ [?c]) ?ds) - length (cs @ [?c]))"
        using True len by simp
      then have "count - of_nat (length (append_max cs (?c # ?ds)) - length cs) =
          count - 1 - of_nat (length (append_max (cs @ [?c]) ?ds) - length (cs @ [?c]))"
        by (simp only: of_nat_Suc diff_diff_eq)
      moreover have "len < PRINTF_FTOA_BUFFER_SIZE" using True by simp
      ultimately show ?thesis
        using z put "1.IH" [OF _ refl refl refl refl z, of "cs @ [?c]"]
        by (simp only: frac_digits.simps [of buf len frac] Let_def if_True if_False ds app Suc_eq_plus1 simp_thms)
    qed
  next
    case False
    then show ?thesis
      using "1.prems" holds_full [OF "1.prems"] by (simp add: frac_digits.simps [of buf len])
  qed
qed

lemma count_zeros_holds:
  assumes "holds (buf, len) cs"
  shows "holds (count_zeros buf len count) (append_max cs (replicate (unat count) (ch CHR ''0'')))"
  using assms
proof (induction buf len count arbitrary: cs rule: count_zeros.induct)
  case (1 buf len count)
  note len = holds_len [OF "1.prems"]
  show ?case
  proof (cases "len < PRINTF_FTOA_BUFFER_SIZE \<and> count > 0")
    case True
    then have "unat count = Suc (unat (count - 1))"
      by (simp add: unat_minus_one unat_gt_0 word_gt_0)
    moreover have "append_max (cs @ [c]) ds = append_max cs (c # ds)" for c :: u8 and ds
      by (simp add: append_max_def)
    moreover have "holds (buf[len := ch CHR ''0''], len + 1) (cs @ [ch CHR ''0''])"
      using holds_put [OF "1.prems"] True by simp
    ultimately show ?thesis
      using True "1.IH" [of "cs @ [ch CHR ''0'']"] by (simp add: count_zeros.simps [of buf len count])
  next
    case False
    then have "count_zeros buf len count = (buf, len)" by (subst count_zeros.simps) auto
    moreover have "append_max cs (replicate (unat count) (ch CHR ''0'')) = cs"
    proof (cases "len < PRINTF_NTOA_BUFFER_SIZE")
      case True
      then have "count = 0" using False by (simp add: word_gt_0)
      then show ?thesis using True len by (simp add: append_max_def)
    qed (rule holds_full [OF "1.prems"])
    ultimately show ?thesis using "1.prems" by simp
  qed
qed

lemma whole_digit:
  assumes "0 \<le> whole"
  shows "(of_int (48 + whole mod 10) :: u8) = ch CHR ''0'' + of_nat (nat whole mod 10)"
proof -
  have "whole mod 10 = int (nat whole mod 10)" using assms by (simp add: zmod_int)
  then have "(of_int (48 + whole mod 10) :: u8) = of_int (48 + int (nat whole mod 10))" by simp
  then show ?thesis by (simp only: of_int_add of_int_numeral of_int_of_nat_eq) simp
qed

lemma whole_digits_holds:
  assumes "holds (buf, len) cs" "0 \<le> whole"
  shows "holds (whole_digits buf len whole) (append_max cs (rev (decimal (nat whole))))"
  using assms
proof (induction buf len whole arbitrary: cs rule: whole_digits.induct)
  case (1 buf len whole)
  note len = holds_len [OF "1.prems"(1)]
  let ?c = "of_int (48 + whole mod 10) :: u8"
  note c = whole_digit [OF "1.prems"(2)]
  have zero: "whole div 10 = 0 \<longleftrightarrow> nat whole div 10 = 0"
    using "1.prems"(2) by (auto simp: nat_eq_iff)
  have divn: "nat (whole div 10) = nat whole div 10"
    using "1.prems"(2) by (simp add: nat_div_distrib)
  show ?case
  proof (cases "len < PRINTF_NTOA_BUFFER_SIZE")
    case True
    have put: "holds (buf[len := ?c], Suc len) (cs @ [?c])"
      using holds_put [OF "1.prems"(1) True] .
    show ?thesis
    proof (cases "whole div 10 = 0")
      case z: True
      then have "append_max cs (rev (decimal (nat whole))) = cs @ [?c]"
        using True len zero by (subst decimal_rev) (simp add: c append_max_room)
      with put z True show ?thesis by (simp add: whole_digits.simps [of buf len whole] Let_def)
    next
      case z: False
      let ?ds = "rev (decimal (nat (whole div 10)))"
      have ds: "rev (decimal (nat whole)) = ?c # ?ds"
        using z zero by (subst decimal_rev) (simp only: c divn if_False)
      have app: "append_max (cs @ [?c]) ?ds = append_max cs (?c # ?ds)"
        by (simp add: append_max_def)
      have "len < PRINTF_FTOA_BUFFER_SIZE" "0 \<le> whole div 10" using True "1.prems"(2) by simp_all
      with z put show ?thesis
        using "1.IH" [OF _ refl refl refl z, of "cs @ [?c]"]
        by (simp only: whole_digits.simps [of buf len whole] Let_def if_True if_False ds app
            Suc_eq_plus1 simp_thms)
    qed
  next
    case False
    then show ?thesis
      using "1.prems"(1) holds_full [OF "1.prems"(1)] by (simp add: whole_digits.simps [of buf len])
  qed
qed

section \<open>Decimals and fixed notation\<close>

definition decimals_text :: "u8 list \<Rightarrow> u32 \<Rightarrow> u32 \<Rightarrow> u8 list" where
  "decimals_text cs frac prec =
     (let ds = append_max cs (rev (decimal (unat frac)));
          count = prec - of_nat (length ds - length cs);
          zs = append_max ds (replicate (unat count) (ch CHR ''0''))
      in append_max zs [ch CHR ''.''])"

lemma ftoa_decimals_holds:
  assumes "holds (buf, len) cs"
  shows "holds (ftoa_decimals buf len frac prec) (decimals_text cs frac prec)"
proof -
  let ?ds = "append_max cs (rev (decimal (unat frac)))"
  let ?count = "prec - of_nat (length ?ds - length cs)"
  obtain b1 l1 where f: "frac_digits buf len frac prec = (b1, l1, ?count)" and h1: "holds (b1, l1) ?ds"
    using frac_digits_holds [OF assms] by blast
  obtain b2 l2 where z: "count_zeros b1 l1 ?count = (b2, l2)" by (cases "count_zeros b1 l1 ?count")
  have h2: "holds (b2, l2) (append_max ?ds (replicate (unat ?count) (ch CHR ''0'')))"
    using count_zeros_holds [OF h1, of ?count] by (simp only: z)
  show ?thesis
    using holds_append_max [OF h2, of "ch CHR ''.''"]
    by (simp only: ftoa_decimals_def decimals_text_def f z Let_def prod.case FTOA_BUFFER_SIZE)
qed

lemma ftoa_pad_holds:
  assumes "holds (buf, len) cs"
  shows "\<exists>buf' len'. ftoa_pad buf len negative width flags =
      (buf', len', zeropad_width negative width flags) \<and>
    holds (buf', len')
      (if \<not> has flags FLAGS_LEFT \<and> has flags FLAGS_ZEROPAD
       then zeros_to (zeropad_width negative width flags) cs else cs)"
proof -
  let ?w = "zeropad_width negative width flags"
  obtain b l where z: "zero_fill (unat ?w) buf len = (b, l)" by (cases "zero_fill (unat ?w) buf len")
  have "holds (b, l) (zeros_to ?w cs)"
    using zero_fill_holds [OF assms, of "unat ?w"] by (simp add: z zeros_to_def)
  with assms z show ?thesis
    by (auto simp: ftoa_pad_def zeropad_width_def Let_def split: if_splits)
qed

definition ftoa_fixed_text :: "dbl \<Rightarrow> u32 \<Rightarrow> u32 \<Rightarrow> u32 \<Rightarrow> u8 list option" where
  "ftoa_fixed_text val prec width flags =
     (let negative = d_less val (d_int 0);
          val = (if negative then to_double (d_sub (d_int 0) val) else val);
          prec = (if \<not> has flags FLAGS_PRECISION then PRINTF_DEFAULT_FLOAT_PRECISION else prec);
          cs = replicate (limit_zeros prec) (ch CHR ''0'');
          prec = prec - of_nat (limit_zeros prec);
          w = zeropad_width negative width flags
      in do {
        p10 \<leftarrow> pow10_at prec;
        let (whole, frac) = ftoa_round p10 (ftoa_split val p10);
        let (whole, cs) =
          (if prec = 0 then (ftoa_round_whole val whole, cs) else (whole, decimals_text cs frac prec));
        let cs = append_max cs (rev (decimal (nat whole)));
        let cs = (if \<not> has flags FLAGS_LEFT \<and> has flags FLAGS_ZEROPAD then zeros_to w cs else cs);
        let cs = append_max cs (sign_text negative flags);
        Some (out_rev_text cs w flags)
      })"

text \<open>The integer part is not negative.\<close>

lemma d_trunc_nonneg: "0 \<le> m \<Longrightarrow> 0 \<le> d_trunc (Fin m e)"
  by (simp add: pos_imp_zdiv_nonneg_iff)

lemma d_trunc_fp_round: "0 \<le> m \<Longrightarrow> 0 \<le> d_trunc (fp_round p emin emax m e)"
  using fp_round_nonneg [of m p emin emax e] d_trunc_nonneg
  by (cases "fp_round p emin emax m e") auto

lemma d_less_zero: "d_less (Fin m e) (d_int 0) \<longleftrightarrow> m < 0"
  by (simp add: d_int_def align_def mult_less_0_iff)

lemma d_abs_trunc_nonneg:
  "0 \<le> d_trunc (if d_less val (d_int 0) then to_double (d_sub (d_int 0) val) else val)"
proof (cases val)
  case (Fin m e)
  show ?thesis
  proof (cases "m < 0")
    case True
    have "\<exists>m' e'. d_sub (d_int 0) (Fin m e) = ext_round m' e' \<and> 0 \<le> m'"
      using True
      by (intro exI [of _ "if 0 \<le> e then - (m * 2 ^ nat e) else - m"] exI [of _ "min 0 e"])
         (simp add: d_sub_def d_int_def align_def mult_le_0_iff)
    then obtain m' e' where r: "d_sub (d_int 0) (Fin m e) = fp_round 64 (- 16445) 16383 m' e'" "0 \<le> m'"
      by (auto simp: ext_round_def)
    then have "0 \<le> d_trunc (to_double (d_sub (d_int 0) (Fin m e)))"
      using fp_round_nonneg [of m' 64 "- 16445" 16383 e'] d_trunc_fp_round
      by (cases "fp_round 64 (- 16445) 16383 m' e'") auto
    with True Fin show ?thesis by (simp only: d_less_zero if_True)
  next
    case False
    then have "0 \<le> d_trunc (Fin m e)" by (intro d_trunc_nonneg) simp
    with Fin False show ?thesis by (simp only: d_less_zero if_False)
  qed
qed (auto simp: d_int_def d_sub_def)

lemma ftoa_round_nonneg: "0 \<le> whole \<Longrightarrow> 0 \<le> fst (ftoa_round p10 (whole, frac, diff))"
  by (simp add: ftoa_round_def Let_def)

text \<open>The integer part, the padding and the sign behind the decimals.\<close>

lemma ftoa_number_holds:
  fixes negative :: bool and width flags :: u32 and cs :: "u8 list" and wh :: int
  assumes "holds (b1, l1) cs" "0 \<le> wh"
  defines "w \<equiv> zeropad_width negative width flags" and "cs2 \<equiv> append_max cs (rev (decimal (nat wh)))"
  obtains b2 l2 b3 l3 b4 l4 where "whole_digits b1 l1 wh = (b2, l2)"
    "ftoa_pad b2 l2 negative width flags = (b3, l3, w)" "put_sign b3 l3 negative flags = (b4, l4)"
    "holds (b4, l4) (append_max (if \<not> has flags FLAGS_LEFT \<and> has flags FLAGS_ZEROPAD then zeros_to w cs2 else cs2)
       (sign_text negative flags))"
proof -
  obtain b2 l2 where e: "whole_digits b1 l1 wh = (b2, l2)" by (cases "whole_digits b1 l1 wh")
  have h2: "holds (b2, l2) cs2" using whole_digits_holds [OF assms(1,2)] by (simp only: e cs2_def)
  define cs3 where "cs3 = (if \<not> has flags FLAGS_LEFT \<and> has flags FLAGS_ZEROPAD then zeros_to w cs2 else cs2)"
  obtain b3 l3 where f: "ftoa_pad b2 l2 negative width flags = (b3, l3, w)" and h3: "holds (b3, l3) cs3"
    using ftoa_pad_holds [OF h2, of negative width flags] unfolding w_def [symmetric] cs3_def [symmetric] by blast
  obtain b4 l4 where g: "put_sign b3 l3 negative flags = (b4, l4)" by (cases "put_sign b3 l3 negative flags")
  have "holds (b4, l4) (append_max cs3 (sign_text negative flags))"
    using put_sign_holds [OF h3, of negative flags] by (simp only: g)
  with e f g show thesis by (intro that) (simp_all only: cs3_def)
qed

lemma ftoa_fixed_sends [emit_simps]:
  "ftoa_fixed out idx maxlen val prec width flags s =
     map_option (sends out maxlen idx s) (ftoa_fixed_text val prec width flags)"
proof -
  define negative where "negative = d_less val (d_int 0)"
  define v where "v = (if negative then to_double (d_sub (d_int 0) val) else val)"
  define pr where "pr = (if \<not> has flags FLAGS_PRECISION then PRINTF_DEFAULT_FLOAT_PRECISION else prec)"
  define prc where "prc = pr - of_nat (limit_zeros pr)"
  define w where "w = zeropad_width negative width flags"
  define cs where "cs = replicate (limit_zeros pr) (ch CHR ''0'')"
  have "holds (replicate PRINTF_NTOA_BUFFER_SIZE 0, 0) []" by (simp add: holds_def)
  from limit_prec_holds [OF this, of pr] obtain b0 l0
    where l: "limit_prec (replicate PRINTF_NTOA_BUFFER_SIZE 0) 0 pr = (b0, l0, prc)"
      and h0: "holds (b0, l0) cs"
    by (auto simp: limit_zeros_def prc_def cs_def)
  show ?thesis
  proof (cases "pow10_at prc")
    case None
    then show ?thesis
      by (simp add: ftoa_fixed_def ftoa_fixed_text_def Let_def l flip: negative_def v_def pr_def prc_def)
  next
    case (Some p10)
    obtain whole frac where r: "ftoa_round p10 (ftoa_split v p10) = (whole, frac)"
      by (cases "ftoa_round p10 (ftoa_split v p10)")
    have whole: "0 \<le> whole"
      using ftoa_round_nonneg [OF d_abs_trunc_nonneg [of val]] r
      by (auto simp: ftoa_split_def Let_def v_def negative_def) (metis fst_conv)+
    define wh where "wh = (if prc = 0 then ftoa_round_whole v whole else whole)"
    define cs1 where "cs1 = (if prc = 0 then cs else decimals_text cs frac prc)"
    have wh: "0 \<le> wh" using whole by (simp add: wh_def ftoa_round_whole_def Let_def)
    obtain b1 l1 where d: "(if prc = 0 then (b0, l0) else ftoa_decimals b0 l0 frac prc) = (b1, l1)"
      by fastforce
    have h1: "holds (b1, l1) cs1"
      using h0 ftoa_decimals_holds [OF h0, of frac prc] d by (auto simp: cs1_def split: if_splits)
    define cs2 where "cs2 = append_max cs1 (rev (decimal (nat wh)))"
    define cs3 where "cs3 = (if \<not> has flags FLAGS_LEFT \<and> has flags FLAGS_ZEROPAD then zeros_to w cs2 else cs2)"
    obtain b2 l2 b3 l3 b4 l4 where n: "whole_digits b1 l1 wh = (b2, l2)"
      "ftoa_pad b2 l2 negative width flags = (b3, l3, w)" "put_sign b3 l3 negative flags = (b4, l4)"
      and h4: "holds (b4, l4) (append_max cs3 (sign_text negative flags))"
      by (rule ftoa_number_holds [OF h1 wh, of negative width flags, folded w_def cs2_def, folded cs3_def])
    then have "l4 \<le> length b4" "l4 < 2 ^ 32" by (auto simp: holds_def PRINTF_NTOA_BUFFER_SIZE_def)
    note send = out_rev_sends [OF this, unfolded holds_take [OF h4]]
    have branch: "(if prc = 0 then (ftoa_round_whole v whole, b0, l0)
        else (whole, ftoa_decimals b0 l0 frac prc)) = (wh, b1, l1)"
      using d by (auto simp: wh_def)
    have "ftoa_fixed out idx maxlen val prec width flags s =
        Some (out_rev out idx maxlen b4 l4 w flags s)"
      unfolding ftoa_fixed_def Let_def FTOA_BUFFER_SIZE negative_def [symmetric] v_def [symmetric]
        pr_def [symmetric] l prod.case Some bind.bind_lunit r branch n by simp
    moreover have "ftoa_fixed_text val prec width flags =
        Some (out_rev_text (append_max cs3 (sign_text negative flags)) w flags)"
      unfolding ftoa_fixed_text_def Let_def negative_def [symmetric] v_def [symmetric]
        pr_def [symmetric] w_def [symmetric] cs_def [symmetric] prc_def [symmetric]
        prod.case Some bind.bind_lunit r
      by (simp add: wh_def cs1_def cs2_def cs3_def)
    ultimately show ?thesis by (simp add: send)
  qed
qed

section \<open>Exponential notation\<close>

definition etoa_suffix_text :: "u32 \<Rightarrow> int \<Rightarrow> u32 \<Rightarrow> u32 \<Rightarrow> u32 \<Rightarrow> u8 list" where
  "etoa_suffix_text printed expval minwidth width flags =
     (if minwidth \<noteq> 0
      then (let cs = (if has flags FLAGS_UPPERCASE then ch CHR ''E'' else ch CHR ''e'') #
              ntoa_text (of_int \<bar>expval\<bar> :: u32) 10 (expval < 0) 0 (minwidth - 1)
                (FLAGS_ZEROPAD OR FLAGS_PLUS)
            in if has flags FLAGS_LEFT
               then cs @ replicate (unat width - unat (printed + of_nat (length cs))) (ch CHR '' '')
               else cs)
      else [])"

lemma sends_Cons_pair: "(case sends out maxlen (idx + 1) (out c s idx maxlen) cs of (t, i) \<Rightarrow> f t i) =
    (case sends out maxlen idx s (c # cs) of (t, i) \<Rightarrow> f t i)"
  by simp

lemma etoa_suffix_sends:
  "etoa_suffix out start_idx idx maxlen expval minwidth width flags s =
     sends out maxlen idx s (etoa_suffix_text (idx - start_idx) expval minwidth width flags)"
proof (cases "minwidth = 0")
  case True
  then show ?thesis by (simp add: etoa_suffix_def etoa_suffix_text_def)
next
  case False
  define c where "c = (if has flags FLAGS_UPPERCASE then ch CHR ''E'' else ch CHR ''e'')"
  define ds where "ds = ntoa_text (of_int \<bar>expval\<bar> :: u32) 10 (expval < 0) 0 (minwidth - 1)
    (FLAGS_ZEROPAD OR FLAGS_PLUS)"
  have abs: "(if expval < 0 then - expval else expval) = \<bar>expval\<bar>" by simp
  have n: "ntoa_long out (idx + 1) maxlen (of_int \<bar>expval\<bar>) (expval < 0) 10 0 (minwidth - 1)
      (FLAGS_ZEROPAD OR FLAGS_PLUS) (out c s idx maxlen) = sends out maxlen idx s (c # ds)"
    by (simp add: ntoa_long_sends flip: ds_def)
  have idx: "snd (sends out maxlen idx s (c # ds)) - start_idx =
      idx - start_idx + of_nat (length (c # ds))" by (simp add: sends_def algebra_simps)
  obtain t i where st: "sends out maxlen idx s (c # ds) = (t, i)" by (cases "sends out maxlen idx s (c # ds)")
  have "etoa_suffix out start_idx idx maxlen expval minwidth width flags s =
      (if has flags FLAGS_LEFT then pad_after out maxlen start_idx width i t else (t, i))"
    using False n st unfolding etoa_suffix_def Let_def abs c_def [symmetric] by simp
  moreover have "pad_after out maxlen start_idx width i t =
      sends out maxlen idx s ((c # ds) @
        replicate (unat width - unat (idx - start_idx + of_nat (length (c # ds)))) (ch CHR '' ''))"
    using sends_append [of out maxlen idx s "c # ds"] idx
    by (simp only: st fst_conv snd_conv pad_after_sends)
  ultimately show ?thesis
    using False st unfolding etoa_suffix_text_def Let_def c_def [symmetric] ds_def [symmetric]
    by (simp only: if_False not_False_eq_True if_True simp_thms split: if_split) simp
qed

type_synonym float_text = "dbl \<Rightarrow> u32 \<Rightarrow> u32 \<Rightarrow> u32 \<Rightarrow> u8 list option"

definition etoa_text_with :: "float_text \<Rightarrow> float_text" where
  "etoa_text_with ftoa_text val prec width flags =
     (if not_finite val then ftoa_text val prec width flags
      else (let negative = d_less val (d_int 0);
                val = (if negative then d_neg val else val);
                prec = (if \<not> has flags FLAGS_PRECISION then PRINTF_DEFAULT_FLOAT_PRECISION else prec);
                (expval, F) = etoa_exponent val;
                (prec, flags, minwidth, expval, fwidth) = etoa_layout val expval prec width flags;
                val = (if expval \<noteq> 0 then to_double (d_div val F) else val)
            in do {
              cs \<leftarrow> ftoa_text (if negative then d_neg val else val) prec fwidth
                (flags AND NOT FLAGS_ADAPT_EXP);
              Some (cs @ etoa_suffix_text (of_nat (length cs)) expval minwidth width flags)
            }))"

primrec ftoa_text_fuel :: "nat \<Rightarrow> float_text" where
  "ftoa_text_fuel 0 val prec width flags = None"
| "ftoa_text_fuel (Suc fuel) val prec width flags =
     (if \<not> d_eq val val then Some (out_rev_text (cstr ''nan'') width flags)
      else if d_less val (d_neg DBL_MAX) then Some (out_rev_text (cstr ''fni-'') width flags)
      else if d_less DBL_MAX val
      then Some (out_rev_text (if has flags FLAGS_PLUS then cstr ''fni+'' else cstr ''fni'') width flags)
      else if d_less PRINTF_MAX_FLOAT val \<or> d_less val (d_neg PRINTF_MAX_FLOAT)
      then etoa_text_with (ftoa_text_fuel fuel) val prec width flags
      else ftoa_fixed_text val prec width flags)"

definition ftoa_text :: float_text where
  "ftoa_text = ftoa_text_fuel FTOA_DEPTH"

definition etoa_text :: float_text where
  "etoa_text = etoa_text_with ftoa_text"

lemma etoa_with_sends:
  assumes "\<And>idx val prec width flags s. ft out idx maxlen val prec width flags s =
    map_option (sends out maxlen idx s) (ftt val prec width flags)"
  shows "etoa_with ft out idx maxlen val prec width flags s =
    map_option (sends out maxlen idx s) (etoa_text_with ftt val prec width flags)"
proof -
  have bind: "(do { (s, idx) \<leftarrow> map_option (sends out maxlen idx s) r;
        Some (etoa_suffix out idx0 idx maxlen expval minwidth width flags s) }) =
      map_option (sends out maxlen idx s) (do { cs \<leftarrow> r;
        Some (cs @ etoa_suffix_text (of_nat (length cs)) expval minwidth width flags) })"
    if "idx0 = idx" for r expval minwidth width flags idx0
    using that sends_append [of out maxlen idx s]
    by (cases r) (simp_all add: etoa_suffix_sends, simp add: sends_def emit_append add.assoc)
  show ?thesis
    by (simp add: etoa_with_def etoa_text_with_def assms bind Let_def split: prod.split)
qed

lemma ftoa_fuel_sends:
  "ftoa_fuel fuel out idx maxlen val prec width flags s =
     map_option (sends out maxlen idx s) (ftoa_text_fuel fuel val prec width flags)"
proof (induction fuel arbitrary: idx val prec width flags s)
  case (Suc fuel)
  show ?case
    using etoa_with_sends [where ft = "ftoa_fuel fuel" and ftt = "ftoa_text_fuel fuel", OF Suc.IH]
    by (simp add: ftoa_fixed_sends out_rev_sends)
qed simp

lemma ftoa_sends [emit_simps]:
  "ftoa out idx maxlen val prec width flags s =
     map_option (sends out maxlen idx s) (ftoa_text val prec width flags)"
  by (simp add: ftoa_def ftoa_text_def ftoa_fuel_sends)

lemma etoa_sends [emit_simps]:
  "etoa out idx maxlen val prec width flags s =
     map_option (sends out maxlen idx s) (etoa_text val prec width flags)"
  using etoa_with_sends [where ft = ftoa and ftt = ftoa_text, OF ftoa_sends]
  by (simp add: etoa_def etoa_text_def)

end
