(* ===== verification/Vsnprintf_Text.thy ===== *)
theory Vsnprintf_Text
  imports Vsnprintf Ftoa_Text
begin

text \<open>
  The text a format string denotes, independent of where it is sent, and the proof that
  \<open>_vsnprintf\<close> sends exactly this text to whatever output function it gets.
\<close>

section \<open>The text of a directive\<close>

type_synonym text_conversion =
  "u32 \<Rightarrow> u32 \<Rightarrow> u32 \<Rightarrow> va_arg list \<Rightarrow> (u8 list \<times> va_arg list) option"

definition signed_text :: "'w::len word \<Rightarrow> u32 \<Rightarrow> u32 \<Rightarrow> u32 \<Rightarrow> u32 \<Rightarrow> u8 list" where
  "signed_text v base precision width flags =
     ntoa_text (magnitude v) (ucast base) (sint v < 0) precision width flags"

definition unsigned_text :: "'w::len word \<Rightarrow> u32 \<Rightarrow> u32 \<Rightarrow> u32 \<Rightarrow> u32 \<Rightarrow> u8 list" where
  "unsigned_text v base precision width flags =
     ntoa_text v (ucast base) False precision width flags"

definition conv_int_text :: "u8 \<Rightarrow> text_conversion" where
  "conv_int_text c flags width precision va =
     (let base = int_base c; flags = int_flags c flags
      in if has flags FLAGS_LONG_LONG
         then do {
           (v, va) \<leftarrow> va_long_long va;
           Some (if is_signed c then signed_text v base precision width flags
                 else unsigned_text v base precision width flags, va)
         }
         else do {
           (v, va) \<leftarrow> va_word va;
           Some (if is_signed c
                 then signed_text (if has flags FLAGS_LONG then v else int_arg flags v) base precision width flags
                 else unsigned_text (if has flags FLAGS_LONG then v else uint_arg flags v) base precision width flags,
                 va)
         })"

definition conv_fixed_text :: "u8 \<Rightarrow> text_conversion" where
  "conv_fixed_text c flags width precision va =
     (let flags = (if c = ch CHR ''F'' then flags OR FLAGS_UPPERCASE else flags)
      in do { (d, va) \<leftarrow> va_double va; r \<leftarrow> ftoa_text d precision width flags; Some (r, va) })"

definition conv_exp_text :: "u8 \<Rightarrow> text_conversion" where
  "conv_exp_text c flags width precision va =
     (let flags = (if c = ch CHR ''g'' \<or> c = ch CHR ''G'' then flags OR FLAGS_ADAPT_EXP else flags);
          flags = (if c = ch CHR ''E'' \<or> c = ch CHR ''G'' then flags OR FLAGS_UPPERCASE else flags)
      in do { (d, va) \<leftarrow> va_double va; r \<leftarrow> etoa_text d precision width flags; Some (r, va) })"

text \<open>A text whose length is counted as \<open>l\<close>, padded with spaces to the width on one side.\<close>

definition padded :: "u32 \<Rightarrow> u32 \<Rightarrow> u32 \<Rightarrow> u8 list \<Rightarrow> u8 list" where
  "padded flags width l cs =
     (let pad = replicate (unat width - unat l) (ch CHR '' '')
      in if has flags FLAGS_LEFT then cs @ pad else pad @ cs)"

definition conv_char_text :: text_conversion where
  "conv_char_text flags width precision va = do {
     (w, va) \<leftarrow> va_word va;
     Some (padded flags width 1 [ucast w], va)
   }"

fun string_text :: "u32 \<Rightarrow> u32 \<Rightarrow> u8 list \<Rightarrow> u8 list" where
  "string_text flags precision [] = []"
| "string_text flags precision (c # p) =
     (if c \<noteq> 0 \<and> (\<not> has flags FLAGS_PRECISION \<or> precision \<noteq> 0)
      then c # string_text flags (precision - 1) p else [])"

definition string_length :: "u32 \<Rightarrow> u32 \<Rightarrow> u8 list \<Rightarrow> u32" where
  "string_length flags precision p =
     (let l = strnlen_s p (if precision \<noteq> 0 then precision else - 1)
      in if has flags FLAGS_PRECISION then (if l < precision then l else precision) else l)"

definition conv_string_text :: text_conversion where
  "conv_string_text flags width precision va = do {
     (p, va) \<leftarrow> va_str va;
     Some (padded flags width (string_length flags precision p) (string_text flags precision p), va)
   }"

definition conv_pointer_text :: text_conversion where
  "conv_pointer_text flags width precision va = do {
     (p, va) \<leftarrow> va_word va;
     Some (unsigned_text p 16 precision 8 (flags OR (FLAGS_ZEROPAD OR FLAGS_UPPERCASE)), va)
   }"

definition convert_text :: "u8 \<Rightarrow> text_conversion" where
  "convert_text c flags width precision va =
     (if c \<in> set (cstr ''diuxXob'') then conv_int_text c flags width precision va
      else if c \<in> set (cstr ''fF'') then conv_fixed_text c flags width precision va
      else if c \<in> set (cstr ''eEgG'') then conv_exp_text c flags width precision va
      else if c = ch CHR ''c'' then conv_char_text flags width precision va
      else if c = ch CHR ''s'' then conv_string_text flags width precision va
      else if c = ch CHR ''p'' then conv_pointer_text flags width precision va
      else Some ([c], va))"

section \<open>The conversions send their texts\<close>

text \<open>A conversion sends a text and goes on with the remaining arguments.\<close>

definition sent :: "'s out_fct \<Rightarrow> u32 \<Rightarrow> u32 \<Rightarrow> 's \<Rightarrow> (u8 list \<times> va_arg list) option \<Rightarrow>
    (('s \<times> u32) \<times> va_arg list) option" where
  "sent out maxlen idx s r = map_option (\<lambda>(cs, va). (sends out maxlen idx s cs, va)) r"

lemma sent_simps [simp]:
  "sent out maxlen idx s None = None"
  "sent out maxlen idx s (Some (cs, va)) = Some (sends out maxlen idx s cs, va)"
  by (simp_all add: sent_def)

lemma int_base_ge_2: "2 \<le> unat (int_base c)" "2 \<le> unat (ucast (int_base c) :: u64)"
  by (simp_all add: int_base_def)

lemma conv_int_sent:
  "conv_int c out idx maxlen flags width precision va s =
     sent out maxlen idx s (conv_int_text c flags width precision va)"
  by (cases "va_long_long va"; cases "va_word va")
     (auto simp: conv_int_def conv_int_text_def Let_def emit_simps int_base_ge_2 signed_text_def
       unsigned_text_def)

lemma conv_fixed_sent:
  "conv_fixed c out idx maxlen flags width precision va s =
     sent out maxlen idx s (conv_fixed_text c flags width precision va)"
proof (cases "va_double va")
  case (Some a)
  obtain d va' where "a = (d, va')" by (cases a)
  moreover obtain f where "f = (if c = ch CHR ''F'' then flags OR FLAGS_UPPERCASE else flags)" by simp
  ultimately show ?thesis
    using Some by (cases "ftoa_text d precision width f")
      (simp_all add: conv_fixed_def conv_fixed_text_def Let_def ftoa_sends del: of_char_Char)
qed (simp add: conv_fixed_def conv_fixed_text_def)

lemma conv_exp_sent:
  "conv_exp c out idx maxlen flags width precision va s =
     sent out maxlen idx s (conv_exp_text c flags width precision va)"
proof (cases "va_double va")
  case (Some a)
  obtain d va' where "a = (d, va')" by (cases a)
  moreover obtain f where "f =
      (if c = ch CHR ''E'' \<or> c = ch CHR ''G''
       then (if c = ch CHR ''g'' \<or> c = ch CHR ''G'' then flags OR FLAGS_ADAPT_EXP else flags) OR FLAGS_UPPERCASE
       else (if c = ch CHR ''g'' \<or> c = ch CHR ''G'' then flags OR FLAGS_ADAPT_EXP else flags))" by simp
  ultimately show ?thesis
    using Some by (cases "etoa_text d precision width f")
      (simp_all add: conv_exp_def conv_exp_text_def Let_def etoa_sends del: of_char_Char)
qed (simp add: conv_exp_def conv_exp_text_def)

lemma conv_char_sent:
  "conv_char out idx maxlen flags width precision va s =
     sent out maxlen idx s (conv_char_text flags width precision va)"
proof (cases "va_word va")
  case (Some a)
  then show ?thesis
    by (cases a) (simp add: conv_char_def conv_char_text_def padded_def emit_simps sends_def emit_append add.assoc)
qed (simp add: conv_char_def conv_char_text_def)

lemma put_string_sends [emit_simps]:
  "put_string out maxlen flags precision p idx s =
     sends out maxlen idx s (string_text flags precision p)"
  by (induction out maxlen flags precision p idx s rule: put_string.induct) simp_all

lemma conv_string_sent:
  "conv_string out idx maxlen flags width precision va s =
     sent out maxlen idx s (conv_string_text flags width precision va)"
proof (cases "va_str va")
  case (Some a)
  then show ?thesis
    by (cases a) (simp add: conv_string_def conv_string_text_def padded_def string_length_def Let_def
        emit_simps sends_def emit_append add.assoc)
qed (simp add: conv_string_def conv_string_text_def)

lemma conv_pointer_sent:
  "conv_pointer out idx maxlen flags width precision va s =
     sent out maxlen idx s (conv_pointer_text flags width precision va)"
  by (cases "va_word va")
     (auto simp: conv_pointer_def conv_pointer_text_def emit_simps unsigned_text_def)

lemma convert_sent:
  "convert c out idx maxlen flags width precision va s =
     sent out maxlen idx s (convert_text c flags width precision va)"
  unfolding convert_def convert_text_def
  by (simp add: conv_int_sent conv_fixed_sent conv_exp_sent conv_char_sent conv_string_sent
      conv_pointer_sent del: of_char_Char) (simp add: sends_def)

section \<open>The text of a format string\<close>

function format_text :: "u8 list \<Rightarrow> va_arg list \<Rightarrow> u8 list option" where
  "format_text [] va = Some []"
| "format_text (c # fmt) va =
     (if c = 0 then Some []
      else if c \<noteq> ch CHR ''%'' then map_option ((#) c) (format_text fmt va)
      else do {
        (flags, width, precision, fmt, va) \<leftarrow> eval_fields fmt va;
        (cs, va) \<leftarrow> convert_text (peek fmt) flags width precision va;
        fmt \<leftarrow> advance fmt;
        map_option ((@) cs) (format_text fmt va)
      })"
  by pat_completeness auto
termination
  by (relation "measure (\<lambda>(fmt, va). length fmt)") (auto dest!: length_eval_fields length_advance)

lemma vsnprintf_loop_sends:
  "vsnprintf_loop out maxlen fmt va idx s =
     map_option (sends out maxlen idx s) (format_text fmt va)"
proof (induction out maxlen fmt va idx s rule: vsnprintf_loop.induct)
  case (1 out maxlen va idx s)
  then show ?case by simp
next
  case (2 out maxlen c fmt va idx s)
  consider "c = 0" | "c \<noteq> 0" "c \<noteq> ch CHR ''%''" | "c \<noteq> 0" "c = ch CHR ''%''" by blast
  then show ?case
  proof cases
    case 1
    then show ?thesis by simp
  next
    case 2
    with "2.IH"(1) show ?thesis
      by (cases "format_text fmt va") (simp_all del: of_char_Char)
  next
    case 3
    show ?thesis
    proof (cases "eval_fields fmt va")
      case None
      with 3 show ?thesis by simp
    next
      case (Some r)
      obtain flags width precision fmt1 va1 where r: "r = (flags, width, precision, fmt1, va1)"
        by (cases r)
      show ?thesis
      proof (cases "convert_text (peek fmt1) flags width precision va1")
        case None
        with 3 Some r show ?thesis by (simp add: convert_sent)
      next
        case (Some q)
        obtain cs va2 where q: "q = (cs, va2)" by (cases q)
        obtain t i where st: "sends out maxlen idx s cs = (t, i)" by (cases "sends out maxlen idx s cs")
        have conv: "convert (peek fmt1) out idx maxlen flags width precision va1 s = Some ((t, i), va2)"
          by (simp add: convert_sent Some q st)
        show ?thesis
        proof (cases "advance fmt1")
          case None
          with 3 Some q r conv \<open>eval_fields fmt va = Some r\<close> show ?thesis by simp
        next
          case (Some fmt2)
          have IH: "vsnprintf_loop out maxlen fmt2 va2 i t =
              map_option (sends out maxlen i t) (format_text fmt2 va2)"
            using "2.IH"(2) 3 r conv Some \<open>eval_fields fmt va = Some r\<close> by simp
          have "sends out maxlen i t ds = sends out maxlen idx s (cs @ ds)" for ds
            using sends_append [of out maxlen idx s cs ds] by (simp add: st)
          with 3 r q conv Some IH \<open>convert_text _ _ _ _ _ = _\<close> \<open>eval_fields fmt va = Some r\<close>
          show ?thesis by (cases "format_text fmt2 va2") simp_all
        qed
      qed
    qed
  qed
qed

text \<open>
  The whole of \<open>_vsnprintf\<close>: it sends the text of the format and then a terminating zero at the
  end of the text or, when the text is too long, in the last place of the buffer.
\<close>

lemma internal_vsnprintf_sends:
  "internal_vsnprintf out null_buffer maxlen fmt va s =
     map_option (\<lambda>cs.
       let o' = (if null_buffer then out_null else out); n = of_nat (length cs)
       in (o' 0 (emit o' maxlen 0 cs s) (if n < maxlen then n else maxlen - 1) maxlen, n))
     (format_text fmt va)"
  by (cases "format_text fmt va")
     (simp_all add: internal_vsnprintf_def vsnprintf_loop_sends sends_def Let_def)

lemma printf_sends:
  "printf fmt va s =
     map_option (\<lambda>cs. (fold tty_putc (filter (\<lambda>c. c \<noteq> 0) cs) s, of_nat (length cs))) (format_text fmt va)"
  by (simp add: printf_def internal_vsnprintf_sends Let_def console.emit_stream console.out_zero)

section \<open>Formats and their parts\<close>

text \<open>Characters that are not directives stand for themselves.\<close>

definition literal :: "u8 list \<Rightarrow> bool" where
  "literal cs \<longleftrightarrow> (\<forall>c\<in>set cs. c \<noteq> 0 \<and> c \<noteq> ch CHR ''%'')"

lemma literal_Nil [simp]: "literal []"
  by (simp add: literal_def)

lemma literal_Cons [simp]: "literal (c # cs) \<longleftrightarrow> c \<noteq> 0 \<and> c \<noteq> ch CHR ''%'' \<and> literal cs"
  by (simp add: literal_def)

lemma format_text_literal_append:
  "literal cs \<Longrightarrow> format_text (cs @ fmt) va = map_option ((@) cs) (format_text fmt va)"
proof (induction cs)
  case Nil
  then show ?case by (cases "format_text fmt va") simp_all
next
  case (Cons c cs)
  then show ?case by (cases "format_text fmt va") (simp_all del: of_char_Char)
qed

end
