(* ===== verification/Log.thy ===== *)
theory Log
  imports Vsnprintf_Text
begin

text \<open>
  The kernel's diagnostics: the log level and \<open>LOG_DEBUG\<close> of \<^verbatim>\<open>kernel/src/log\<close> and the
  assertion macros of \<^verbatim>\<open>kernel/src/common\<close>. The state extends the console's. An operation
  of the kernel returns an option, \<open>None\<close> where the behaviour of the C code is undefined; the
  locale \<open>kernel_op\<close> is what every operation promises on top of being defined.
\<close>

section \<open>The log level\<close>

datatype log_level = LOG_LEVEL_INFO | LOG_LEVEL_DEBUG

text \<open>``Higher number --> more verbose''\<close>

instantiation log_level :: linorder
begin

definition less_eq_log_level :: "log_level \<Rightarrow> log_level \<Rightarrow> bool" where
  "less_eq_log_level a b \<longleftrightarrow> a = LOG_LEVEL_INFO \<or> b = LOG_LEVEL_DEBUG"

definition less_log_level :: "log_level \<Rightarrow> log_level \<Rightarrow> bool" where
  "less_log_level a b \<longleftrightarrow> a = LOG_LEVEL_INFO \<and> b = LOG_LEVEL_DEBUG"

instance
proof
  fix a b c :: log_level
  show "a < b \<longleftrightarrow> a \<le> b \<and> \<not> b \<le> a" "a \<le> a" "a \<le> b \<or> b \<le> a"
    by (cases a; cases b; simp add: less_eq_log_level_def less_log_level_def)+
  show "a \<le> b \<Longrightarrow> b \<le> c \<Longrightarrow> a \<le> c" "a \<le> b \<Longrightarrow> b \<le> a \<Longrightarrow> a = b"
    by (cases a; cases b; cases c; simp add: less_eq_log_level_def)+
qed

end

record klog = tty +
  log_current_level :: log_level

definition log_get_current_level :: "'a klog_scheme \<Rightarrow> log_level" where
  "log_get_current_level s = log_current_level s"

section \<open>Printing as a statement\<close>

text \<open>\<^verbatim>\<open>printf(fmt, ...);\<close> with its result dropped.\<close>

definition kprintf :: "u8 list \<Rightarrow> va_arg list \<Rightarrow> 'a tty_scheme \<Rightarrow> 'a tty_scheme option" where
  "kprintf fmt va s = map_option fst (printf fmt va s)"

definition LOG_DEBUG :: "u8 list \<Rightarrow> u8 list \<Rightarrow> va_arg list \<Rightarrow> 'a klog_scheme \<Rightarrow> 'a klog_scheme option" where
  "LOG_DEBUG module fmt va s =
     (if log_get_current_level s \<ge> LOG_LEVEL_DEBUG
      then kprintf (cstr ''['' @ module @ cstr '']: '' @ fmt @ cstr ''\<newline>'') va s else Some s)"

text \<open>
  The assertion macros print and go on; \<open>cond\<close> is the text of the condition, which the
  preprocessor pastes into the format.
\<close>

definition ASSERT :: "bool \<Rightarrow> u8 list \<Rightarrow> 'a tty_scheme \<Rightarrow> 'a tty_scheme option" where
  "ASSERT condition cond s = (if \<not> condition then kprintf (cstr ''Assertion failed'' @ cond) [] s else Some s)"

definition ASSERT_MSG ::
  "bool \<Rightarrow> u8 list \<Rightarrow> u8 list \<Rightarrow> va_arg list \<Rightarrow> 'a tty_scheme \<Rightarrow> 'a tty_scheme option" where
  "ASSERT_MSG condition cond msg va s =
     (if \<not> condition
      then kprintf (cstr ''Assertion failed: '' @ cond @ cstr '', '' @ msg @ cstr ''\<newline>'') va s
      else Some s)"

text \<open>\<open>BOOL_YES_NO\<close>; the address of the literal is immaterial.\<close>

definition BOOL_YES_NO :: "bool \<Rightarrow> va_arg" where
  "BOOL_YES_NO b = VStr 0 (if b then cstr ''yes'' else cstr ''no'')"

section \<open>The contract of the kernel's operations\<close>

text \<open>
  An operation is defined on every state with the cursor on the screen, keeps it there and
  writes no memory outside the text buffer.
\<close>

definition kernel_step :: "'a tty_scheme \<Rightarrow> 'a tty_scheme option \<Rightarrow> bool" where
  "kernel_step s r \<longleftrightarrow>
     (\<exists>s'. r = Some s' \<and> wf_tty s' \<and> (\<forall>a. \<not> vga_byte a \<longrightarrow> memory s' a = memory s a))"

lemma kernel_step_Some [simp, intro]: "wf_tty s \<Longrightarrow> kernel_step s (Some s)"
  by (simp add: kernel_step_def)

lemma kernel_stepE:
  assumes "kernel_step s r"
  obtains s' where "r = Some s'" "wf_tty s'" "\<And>a. \<not> vga_byte a \<Longrightarrow> memory s' a = memory s a"
  using assms by (auto simp: kernel_step_def)

lemma kernel_step_bind:
  assumes "kernel_step s r" "\<And>s'. r = Some s' \<Longrightarrow> wf_tty s' \<Longrightarrow> kernel_step s' (f s')"
  shows "kernel_step s (r \<bind> f)"
  using assms unfolding kernel_step_def by (fastforce simp: bind_eq_Some_conv)

locale kernel_op =
  fixes operation :: "'a tty_scheme \<Rightarrow> 'a tty_scheme option"
  assumes op_step: "wf_tty s \<Longrightarrow> kernel_step s (operation s)"
begin

lemma op_defined: "wf_tty s \<Longrightarrow> operation s \<noteq> None"
  using op_step [of s] by (auto simp: kernel_step_def)

lemma op_then: "wf_tty s \<Longrightarrow> (\<And>s'. wf_tty s' \<Longrightarrow> kernel_step s' (f s')) \<Longrightarrow> kernel_step s (operation s \<bind> f)"
  by (rule kernel_step_bind [OF op_step])

lemma op_repeat: "kernel_op (\<lambda>s. operation s \<bind> operation)"
  by unfold_locales (rule op_then [OF _ op_step])

end

section \<open>Printing operations\<close>

text \<open>An operation that puts a fixed text on the console and does nothing else.\<close>

lemma kernel_step_prints: "wf_tty s \<Longrightarrow> kernel_step s (Some (fold tty_putc cs s))"
  using tty_op.op_safe [OF tty_op_fold [where f = tty_putc, OF tty_putc_op], where s = s]
  by (simp add: kernel_step_def)

locale printing_op =
  fixes operation :: "'a tty_scheme \<Rightarrow> 'a tty_scheme option" and text_of :: "u8 list"
  assumes op_prints: "operation s = Some (fold tty_putc text_of s)"
begin

lemma op_more: "operation s = Some s' \<Longrightarrow> tty.more s' = tty.more s"
  using tty_op.op_more [OF tty_op_fold [OF tty_putc_op]] by (auto simp: op_prints)

lemma op_color: "operation s = Some s' \<Longrightarrow> tty_color s' = tty_color s"
proof -
  have "tty_color (fold tty_putc cs s) = tty_color s" for cs
    by (induction cs arbitrary: s) simp_all
  then show "operation s = Some s' \<Longrightarrow> tty_color s' = tty_color s" by (auto simp: op_prints)
qed

end

sublocale printing_op \<subseteq> kernel_op operation
  by unfold_locales (simp add: op_prints kernel_step_prints)

text \<open>The characters that reach the console.\<close>

definition shown :: "u8 list \<Rightarrow> u8 list" where
  "shown cs = filter (\<lambda>c. c \<noteq> 0) cs"

lemma printing_kprintf:
  assumes "format_text fmt va = Some cs"
  shows "printing_op (kprintf fmt va) (shown cs)"
  by unfold_locales (simp add: kprintf_def printf_sends assms shown_def)

lemma format_text_literal: "literal cs \<Longrightarrow> format_text cs va = Some cs"
  using format_text_literal_append [of cs "[]" va] by simp

lemma shown_literal: "literal cs \<Longrightarrow> shown cs = cs"
  by (simp add: shown_def literal_def)

lemma printing_literal: "literal cs \<Longrightarrow> printing_op (kprintf cs va) cs"
  using printing_kprintf [OF format_text_literal] by (metis shown_literal)

lemma kprintf_step: "wf_tty s \<Longrightarrow> format_text fmt va = Some cs \<Longrightarrow> kernel_step s (kprintf fmt va s)"
  by (simp add: printing_op.op_prints [OF printing_kprintf] kernel_step_prints)

section \<open>States after printing\<close>

text \<open>An outcome that differs from the state by characters printed on the console only.\<close>

definition prints :: "'a tty_scheme \<Rightarrow> 'a tty_scheme option \<Rightarrow> bool" where
  "prints s r \<longleftrightarrow> (\<exists>cs. r = Some (fold tty_putc cs s))"

lemma fold_putc_more [simp]: "tty.more (fold tty_putc cs s) = tty.more s"
  by (induction cs arbitrary: s) simp_all

lemma fold_putc_color [simp]: "tty_color (fold tty_putc cs s) = tty_color s"
  by (induction cs arbitrary: s) simp_all

lemma prints_kprintf: "format_text fmt va \<noteq> None \<Longrightarrow> prints s (kprintf fmt va s)"
  using printing_op.op_prints [OF printing_kprintf] by (fastforce simp: prints_def)

lemma prints_Some [simp]: "prints s (Some s)"
  unfolding prints_def by (rule exI [of _ "[]"]) simp

lemma prints_LOG_DEBUG:
  "format_text (cstr ''['' @ module @ cstr '']: '' @ fmt @ cstr ''\<newline>'') va \<noteq> None \<Longrightarrow>
   prints s (LOG_DEBUG module fmt va s)"
  unfolding LOG_DEBUG_def by (simp add: prints_kprintf)

lemma printsE:
  assumes "prints s r"
  obtains s' where "r = Some s'" "tty.more s' = tty.more s" "tty_color s' = tty_color s"
    "wf_tty s \<Longrightarrow> wf_tty s'" "wf_tty s \<Longrightarrow> kernel_step s (Some s')"
proof -
  from assms obtain cs where r: "r = Some (fold tty_putc cs s)" by (auto simp: prints_def)
  have "wf_tty s \<Longrightarrow> kernel_step s (Some (fold tty_putc cs s))" by (rule kernel_step_prints)
  with that [OF r] show thesis by (simp add: kernel_step_def)
qed

lemma prints_step: "prints s r \<Longrightarrow> wf_tty s \<Longrightarrow> kernel_step s r"
  by (elim printsE) simp

text \<open>The equations that evaluate a format of the kernel, with its arguments left open.\<close>

lemmas format_eval =
  eval_fields_def eval_width_def eval_precision_def eval_length_def peek_def is_digit_def
  advance_def atoi_def convert_text_def conv_int_text_def conv_string_text_def int_flags_def
  int_base_def is_signed_def has_def flag_defs BOOL_YES_NO_def

end
