(* ===== verification/Segment.thy ===== *)
theory Segment
  imports Log
begin

text \<open>
  Segmentation, \<^verbatim>\<open>kernel/src/system/segment.c\<close> and the assembly it calls: building the
  descriptors of the flat memory model in the GDT, loading the GDT register and the segment
  registers. A descriptor is kept as the two words the code writes, and the fields of the
  packed structure are read from them.
\<close>

section \<open>Encodings\<close>

type_synonym segment_descr_flags = u32

definition SEGMENT_DESCR_ENCODE_FLAG :: "u32 \<Rightarrow> nat \<Rightarrow> segment_descr_flags" where
  "SEGMENT_DESCR_ENCODE_FLAG v offset = push_bit offset (v AND 0x1)"

definition SEGMENT_DESCR_GRAN :: "u32 \<Rightarrow> segment_descr_flags" where
  "SEGMENT_DESCR_GRAN v = SEGMENT_DESCR_ENCODE_FLAG v 23"
definition SEGMENT_DESCR_SIZE :: "u32 \<Rightarrow> segment_descr_flags" where
  "SEGMENT_DESCR_SIZE v = SEGMENT_DESCR_ENCODE_FLAG v 22"
definition SEGMENT_DESCR_64BI :: "u32 \<Rightarrow> segment_descr_flags" where
  "SEGMENT_DESCR_64BI v = SEGMENT_DESCR_ENCODE_FLAG v 21"
definition SEGMENT_DESCR_AVAI :: "u32 \<Rightarrow> segment_descr_flags" where
  "SEGMENT_DESCR_AVAI v = SEGMENT_DESCR_ENCODE_FLAG v 20"
definition SEGMENT_DESCR_PRES :: "u32 \<Rightarrow> segment_descr_flags" where
  "SEGMENT_DESCR_PRES v = SEGMENT_DESCR_ENCODE_FLAG v 15"
definition SEGMENT_DESCR_PRIV :: "u32 \<Rightarrow> segment_descr_flags" where
  "SEGMENT_DESCR_PRIV t = push_bit 13 (t AND 0x3)"
definition SEGMENT_DESCR_DTYP :: "u32 \<Rightarrow> segment_descr_flags" where
  "SEGMENT_DESCR_DTYP v = SEGMENT_DESCR_ENCODE_FLAG v 12"

lemmas descr_flag_defs =
  SEGMENT_DESCR_ENCODE_FLAG_def SEGMENT_DESCR_GRAN_def SEGMENT_DESCR_SIZE_def
  SEGMENT_DESCR_64BI_def SEGMENT_DESCR_AVAI_def SEGMENT_DESCR_PRES_def SEGMENT_DESCR_PRIV_def
  SEGMENT_DESCR_DTYP_def

definition SEGMENT_SELECTOR_INDEX :: "u16 \<Rightarrow> u16" where
  "SEGMENT_SELECTOR_INDEX i = push_bit 3 i"
definition SEGMENT_SELECTOR_RPL :: "u16 \<Rightarrow> u16" where
  "SEGMENT_SELECTOR_RPL rpl = rpl AND 0x3"
definition SEGMENT_SELECTOR_TI_GDT :: u16 where
  "SEGMENT_SELECTOR_TI_GDT = 0x0"

definition SEGMENT_GDT_NUM_ENTRIES :: nat where "SEGMENT_GDT_NUM_ENTRIES = 8"
definition GDT_INDEX_KERNEL_CODE :: nat where "GDT_INDEX_KERNEL_CODE = 1"
definition GDT_INDEX_KERNEL_DATA :: nat where "GDT_INDEX_KERNEL_DATA = 2"

datatype segment_data_type =
    SEGMENT_DATA_TYPE_RD | SEGMENT_DATA_TYPE_RDA
  | SEGMENT_DATA_TYPE_RDWR | SEGMENT_DATA_TYPE_RDWRA
  | SEGMENT_DATA_TYPE_RDEXPD | SEGMENT_DATA_TYPE_RDEXPDA
  | SEGMENT_DATA_TYPE_RDWREXPD | SEGMENT_DATA_TYPE_RDWREXPDA
  | SEGMENT_CODE_TYPE_EX | SEGMENT_CODE_TYPE_EXA
  | SEGMENT_CODE_TYPE_EXRD | SEGMENT_CODE_TYPE_EXRDA
  | SEGMENT_CODE_TYPE_EXC | SEGMENT_CODE_TYPE_EXCA
  | SEGMENT_CODE_TYPE_EXRDC | SEGMENT_CODE_TYPE_EXRDCA

text \<open>\<^verbatim>\<open>(uint32_t)(type)\<close>, the value of the enumeration constant.\<close>

fun segment_type_code :: "segment_data_type \<Rightarrow> u32" where
  "segment_type_code SEGMENT_DATA_TYPE_RD = 0x00"
| "segment_type_code SEGMENT_DATA_TYPE_RDA = 0x01"
| "segment_type_code SEGMENT_DATA_TYPE_RDWR = 0x02"
| "segment_type_code SEGMENT_DATA_TYPE_RDWRA = 0x03"
| "segment_type_code SEGMENT_DATA_TYPE_RDEXPD = 0x04"
| "segment_type_code SEGMENT_DATA_TYPE_RDEXPDA = 0x05"
| "segment_type_code SEGMENT_DATA_TYPE_RDWREXPD = 0x06"
| "segment_type_code SEGMENT_DATA_TYPE_RDWREXPDA = 0x07"
| "segment_type_code SEGMENT_CODE_TYPE_EX = 0x08"
| "segment_type_code SEGMENT_CODE_TYPE_EXA = 0x09"
| "segment_type_code SEGMENT_CODE_TYPE_EXRD = 0x0A"
| "segment_type_code SEGMENT_CODE_TYPE_EXRDA = 0x0B"
| "segment_type_code SEGMENT_CODE_TYPE_EXC = 0x0C"
| "segment_type_code SEGMENT_CODE_TYPE_EXCA = 0x0D"
| "segment_type_code SEGMENT_CODE_TYPE_EXRDC = 0x0E"
| "segment_type_code SEGMENT_CODE_TYPE_EXRDCA = 0x0F"

text \<open>The types of system segments and gates, by their constants.\<close>

datatype segment_sys_gate_type =
    SEGMENT_TSS_AVAIL_16 | SEGMENT_LDT | SEGMENT_TSS_BUSY_16 | SEGMENT_GATE_CALL_16
  | SEGMENT_GATE_TASK | SEGMENT_GATE_INT_16 | SEGMENT_GATE_TRAP_16 | SEGMENT_TSS_AVAIL_32
  | SEGMENT_TSS_BUSY_32 | SEGMENT_GATE_CALL_32 | SEGMENT_GATE_INT_32 | SEGMENT_GATE_TRAP_32

fun sys_gate_code :: "segment_sys_gate_type \<Rightarrow> int" where
  "sys_gate_code SEGMENT_TSS_AVAIL_16 = 1"
| "sys_gate_code SEGMENT_LDT = 2"
| "sys_gate_code SEGMENT_TSS_BUSY_16 = 3"
| "sys_gate_code SEGMENT_GATE_CALL_16 = 4"
| "sys_gate_code SEGMENT_GATE_TASK = 5"
| "sys_gate_code SEGMENT_GATE_INT_16 = 6"
| "sys_gate_code SEGMENT_GATE_TRAP_16 = 7"
| "sys_gate_code SEGMENT_TSS_AVAIL_32 = 9"
| "sys_gate_code SEGMENT_TSS_BUSY_32 = 11"
| "sys_gate_code SEGMENT_GATE_CALL_32 = 12"
| "sys_gate_code SEGMENT_GATE_INT_32 = 14"
| "sys_gate_code SEGMENT_GATE_TRAP_32 = 15"

section \<open>State\<close>

text \<open>A descriptor as its low and its high word; the structure is packed, low bits first.\<close>

record segment_descriptor =
  low_part :: u32
  high_part :: u32

definition bits_of :: "nat \<Rightarrow> nat \<Rightarrow> u32 \<Rightarrow> u32" where
  "bits_of offset width w = take_bit width (drop_bit offset w)"

definition seg_lim_0_15 :: "segment_descriptor \<Rightarrow> u32" where "seg_lim_0_15 d = bits_of 0 16 (low_part d)"
definition base_addr_0_15 :: "segment_descriptor \<Rightarrow> u32" where "base_addr_0_15 d = bits_of 16 16 (low_part d)"
definition base_addr_16_23 :: "segment_descriptor \<Rightarrow> u32" where "base_addr_16_23 d = bits_of 0 8 (high_part d)"
definition type_field :: "segment_descriptor \<Rightarrow> u32" where "type_field d = bits_of 8 4 (high_part d)"
definition dtype :: "segment_descriptor \<Rightarrow> u32" where "dtype d = bits_of 12 1 (high_part d)"
definition dpl :: "segment_descriptor \<Rightarrow> u32" where "dpl d = bits_of 13 2 (high_part d)"
definition present :: "segment_descriptor \<Rightarrow> u32" where "present d = bits_of 15 1 (high_part d)"
definition seg_lim_16_19 :: "segment_descriptor \<Rightarrow> u32" where "seg_lim_16_19 d = bits_of 16 4 (high_part d)"
definition avl_field :: "segment_descriptor \<Rightarrow> u32" where "avl_field d = bits_of 20 1 (high_part d)"
definition l_field :: "segment_descriptor \<Rightarrow> u32" where "l_field d = bits_of 21 1 (high_part d)"
definition db_field :: "segment_descriptor \<Rightarrow> u32" where "db_field d = bits_of 22 1 (high_part d)"
definition g_field :: "segment_descriptor \<Rightarrow> u32" where "g_field d = bits_of 23 1 (high_part d)"
definition base_24_31 :: "segment_descriptor \<Rightarrow> u32" where "base_24_31 d = bits_of 24 8 (high_part d)"

lemmas descr_field_defs =
  seg_lim_0_15_def base_addr_0_15_def base_addr_16_23_def type_field_def dtype_def dpl_def
  present_def seg_lim_16_19_def avl_field_def l_field_def db_field_def g_field_def base_24_31_def

text \<open>
  The globals of \<^verbatim>\<open>segment.c\<close>, the address the linker gives the GDT, the two data words of
  the assembly file the \<^verbatim>\<open>lgdt\<close> instruction reads, and the registers of the processor.
\<close>

record gdt_register =
  gdtr_base :: u32
  gdtr_limit :: u16

record segment_registers =
  reg_cs :: u16
  reg_ss :: u16
  reg_ds :: u16
  reg_es :: u16
  reg_fs :: u16
  reg_gs :: u16

record seg = klog +
  gdt :: "segment_descriptor list"
  gdt_limit :: u16
  gdt_address :: u32
  gdtr_data :: gdt_register
  gdtr :: gdt_register
  segment_regs :: segment_registers

section \<open>Operations\<close>

definition SYS_LOG_MOD :: "u8 list" where "SYS_LOG_MOD = cstr ''sys''"

definition descriptor_high :: "u32 \<Rightarrow> u32 \<Rightarrow> segment_data_type \<Rightarrow> segment_descr_flags \<Rightarrow> u32" where
  "descriptor_high base limit type flags =
     (let high = 0;
          high = high OR (0xFF000000 AND base);
          high = high OR drop_bit 16 (0x00FF0000 AND base);
          high = high OR flags;
          high = high OR (0x000F0000 AND limit)
      in high OR (0x00000F00 AND push_bit 8 (segment_type_code type)))"

definition descriptor_low :: "u32 \<Rightarrow> u32 \<Rightarrow> u32" where
  "descriptor_low base limit = (limit AND 0x0000FFFF) OR (0xFFFF0000 AND push_bit 16 base)"

text \<open>The descriptor the pointer designates is the one with the given index in the GDT.\<close>

definition init_segment_descriptor ::
  "nat \<Rightarrow> u32 \<Rightarrow> u32 \<Rightarrow> segment_data_type \<Rightarrow> segment_descr_flags \<Rightarrow> 'a seg_scheme \<Rightarrow> 'a seg_scheme option" where
  "init_segment_descriptor i base limit type flags s =
     (let desc = gdt s ! i;
          desc = desc\<lparr>high_part := descriptor_high base limit type flags\<rparr>;
          desc = desc\<lparr>low_part := descriptor_low base limit\<rparr>;
          s = s\<lparr>gdt := (gdt s)[i := desc]\<rparr>
      in LOG_DEBUG SYS_LOG_MOD (cstr ''init seg desc as [%08x %08x]'')
           [VWord (high_part desc), VWord (low_part desc)] s)"

text \<open>The assembly of \<^verbatim>\<open>asm_bits.s\<close>: the arguments go to memory and \<^verbatim>\<open>lgdt\<close> reads them.\<close>

definition segment_set_gdtr_asm_prot :: "u32 \<Rightarrow> u16 \<Rightarrow> 'a seg_scheme \<Rightarrow> 'a seg_scheme" where
  "segment_set_gdtr_asm_prot base limit s =
     (let s = s\<lparr>gdtr_data := \<lparr>gdtr_base = base, gdtr_limit = limit\<rparr>\<rparr>
      in s\<lparr>gdtr := gdtr_data s\<rparr>)"

definition segment_reload_segments :: "'a seg_scheme \<Rightarrow> 'a seg_scheme" where
  "segment_reload_segments s =
     s\<lparr>segment_regs := \<lparr>reg_cs = 0x08, reg_ss = 0x10, reg_ds = 0x10, reg_es = 0x10, reg_fs = 0x10, reg_gs = 0x10\<rparr>\<rparr>"

definition gdt_flush :: "'a seg_scheme \<Rightarrow> 'a seg_scheme option" where
  "gdt_flush s =
     (let s = segment_set_gdtr_asm_prot (gdt_address s) (gdt_limit s) s;
          s = segment_reload_segments s
      in LOG_DEBUG SYS_LOG_MOD (cstr ''Flushed GDT, reloaded segment regs'') [] s)"

definition gdt_init :: "'a seg_scheme \<Rightarrow> 'a seg_scheme option" where
  "gdt_init s = do {
     s \<leftarrow> init_segment_descriptor 0 0 0 SEGMENT_DATA_TYPE_RD 0 s;
     let limit_4kb = 0xfffff;
     let flags = SEGMENT_DESCR_SIZE 1 OR SEGMENT_DESCR_PRES 1 OR SEGMENT_DESCR_DTYP 1 OR SEGMENT_DESCR_GRAN 1;
     s \<leftarrow> init_segment_descriptor GDT_INDEX_KERNEL_CODE 0 limit_4kb SEGMENT_CODE_TYPE_EXRD flags s;
     s \<leftarrow> init_segment_descriptor GDT_INDEX_KERNEL_DATA 0 limit_4kb SEGMENT_DATA_TYPE_RDWR flags s;
     let s = s\<lparr>gdt_limit := 8 * 3 - 1\<rparr>;
     LOG_DEBUG SYS_LOG_MOD (cstr ''Init GDT done (basic flat model)'') [] s
   }"

section \<open>Reading a descriptor\<close>

text \<open>The base and the limit the processor puts together from a descriptor's fields.\<close>

definition seg_base :: "segment_descriptor \<Rightarrow> u32" where
  "seg_base d = base_addr_0_15 d OR push_bit 16 (base_addr_16_23 d) OR push_bit 24 (base_24_31 d)"

definition seg_limit :: "segment_descriptor \<Rightarrow> u32" where
  "seg_limit d = seg_lim_0_15 d OR push_bit 16 (seg_lim_16_19 d)"

text \<open>The bits of the high word that are flags: 12 to 15 and 20 to 23.\<close>

definition flag_mask :: u32 where "flag_mask = 0x00F0F000"

lemma masks:
  "(0xFF000000 :: u32) = push_bit 24 (mask 8)" "(0x00FF0000 :: u32) = push_bit 16 (mask 8)"
  "(0x000F0000 :: u32) = push_bit 16 (mask 4)" "(0x00000F00 :: u32) = push_bit 8 (mask 4)"
  "(0x0000FFFF :: u32) = mask 16" "(0xFFFF0000 :: u32) = push_bit 16 (mask 16)"
  "flag_mask = push_bit 12 (mask 4) OR push_bit 20 (mask 4)"
  by (simp_all add: mask_eq_exp_minus_1 flag_mask_def)

lemma bit_flag_mask: "bit flag_mask n \<longleftrightarrow> 12 \<le> n \<and> n < 16 \<or> 20 \<le> n \<and> n < 24"
  by (auto simp: masks bit_simps)

lemma bit_type_code: "bit (segment_type_code t) n \<Longrightarrow> n < 4"
proof -
  have "take_bit 4 (segment_type_code t) = segment_type_code t" by (cases t) simp_all
  then show "bit (segment_type_code t) n \<Longrightarrow> n < 4" by (metis bit_take_bit_iff)
qed

lemma bit_flags:
  assumes "flags AND NOT flag_mask = 0" "bit flags n"
  shows "12 \<le> n \<and> n < 16 \<or> 20 \<le> n \<and> n < 24"
proof (rule ccontr)
  assume "\<not> ?thesis"
  then have "\<not> bit flag_mask n" by (simp add: bit_flag_mask)
  moreover have "n < 32" using assms(2) bit_imp_le_length [of flags n] by simp
  ultimately have "bit (flags AND NOT flag_mask) n" using assms(2) by (simp add: bit_simps)
  then show False using assms(1) by simp
qed

lemma bit_high:
  assumes "flags AND NOT flag_mask = 0" "n < 32"
  shows "bit (descriptor_high base limit t flags) n \<longleftrightarrow>
    (if n < 8 then bit base (n + 16) else if n < 12 then bit (segment_type_code t) (n - 8)
     else if n < 16 then bit flags n else if n < 20 then bit limit n
     else if n < 24 then bit flags n else bit base n)"
  using assms(2) bit_type_code [of t "n - 8"] bit_flags [OF assms(1), of n]
  by (auto simp: descriptor_high_def masks bit_simps Let_def add.commute)

lemma bit_low:
  "n < 32 \<Longrightarrow> bit (descriptor_low base limit) n \<longleftrightarrow> (if n < 16 then bit limit n else bit base (n - 16))"
  by (auto simp: descriptor_low_def masks bit_simps)

lemma descriptor_fields:
  assumes "flags AND NOT flag_mask = 0"
    and "d = \<lparr>low_part = descriptor_low base limit, high_part = descriptor_high base limit t flags\<rparr>"
  shows "seg_base d = base \<and> seg_limit d = take_bit 20 limit \<and> type_field d = segment_type_code t \<and>
    high_part d AND flag_mask = flags"
proof -
  note bits = bit_high [OF assms(1)] bit_low
  have "seg_base d = base"
  proof (rule bit_word_eqI)
    fix n assume "n < LENGTH(32)"
    then consider "n < 16" | "16 \<le> n" "n < 24" | "24 \<le> n" "n < 32" by fastforce
    then show "bit (seg_base d) n = bit base n"
      by cases (auto simp: seg_base_def descr_field_defs bits_of_def assms(2) bit_simps bits less_diff_conv2)
  qed
  moreover have "seg_limit d = take_bit 20 limit"
    by (rule bit_word_eqI) (auto simp: seg_limit_def descr_field_defs bits_of_def assms(2) bit_simps bits)
  moreover have "type_field d = segment_type_code t"
  proof (rule bit_word_eqI)
    fix n assume "n < LENGTH(32)"
    then show "bit (type_field d) n = bit (segment_type_code t) n"
      using bit_type_code [of t n]
      by (cases "n < 4") (auto simp: descr_field_defs bits_of_def assms(2) bit_simps bits)
  qed
  moreover have "high_part d AND flag_mask = flags"
  proof (rule bit_word_eqI)
    fix n assume "n < LENGTH(32)"
    then show "bit (high_part d AND flag_mask) n = bit flags n"
      using bit_flags [OF assms(1), of n] by (auto simp: assms(2) bit_simps bits bit_flag_mask)
  qed
  ultimately show ?thesis by blast
qed


text \<open>The last byte offset of the segment: with the granularity flag the limit counts 4 KiB pages.\<close>

definition byte_limit :: "segment_descriptor \<Rightarrow> u32" where
  "byte_limit d = (if g_field d = 1 then push_bit 12 (seg_limit d) OR 0xFFF else seg_limit d)"

section \<open>Logging of the operations\<close>

text \<open>What the console operations leave alone in the state of this component.\<close>

lemma seg_more_cong:
  assumes "tty.more s = tty.more t"
  shows "gdt s = gdt t" "gdt_limit s = gdt_limit t" "gdt_address s = gdt_address t"
    "gdtr_data s = gdtr_data t" "gdtr s = gdtr t" "segment_regs s = segment_regs t"
    "log_current_level s = log_current_level t" "seg.more s = seg.more t"
  using assms by (cases s; cases t; simp)+

lemma seg_update_tty [simp]:
  "wf_tty (s\<lparr>gdt := x\<rparr>) = wf_tty s" "wf_tty (s\<lparr>gdt_limit := y\<rparr>) = wf_tty s"
  "wf_tty (s\<lparr>gdtr_data := z\<rparr>) = wf_tty s" "wf_tty (s\<lparr>gdtr := z\<rparr>) = wf_tty s"
  "wf_tty (s\<lparr>segment_regs := u\<rparr>) = wf_tty s"
  by (simp_all add: wf_tty_def)

lemma descriptor_log_prints:
  "prints s (LOG_DEBUG SYS_LOG_MOD (cstr ''init seg desc as [%08x %08x]'') [VWord h, VWord l] s)"
  by (intro prints_LOG_DEBUG) (simp add: SYS_LOG_MOD_def format_eval)

lemma message_log_prints:
  "literal msg \<Longrightarrow> prints s (LOG_DEBUG SYS_LOG_MOD msg [] s)"
  by (intro prints_LOG_DEBUG) (simp add: SYS_LOG_MOD_def format_text_literal_append)

text \<open>The descriptor that \<open>init_segment_descriptor\<close> writes.\<close>

definition mk_descriptor :: "u32 \<Rightarrow> u32 \<Rightarrow> segment_data_type \<Rightarrow> segment_descr_flags \<Rightarrow> segment_descriptor" where
  "mk_descriptor base limit t flags =
     \<lparr>low_part = descriptor_low base limit, high_part = descriptor_high base limit t flags\<rparr>"

lemma descriptor_update:
  "d\<lparr>high_part := h, low_part := l\<rparr> = \<lparr>low_part = l, high_part = h\<rparr>"
  by (cases d) simp

lemma init_segment_descriptor_effect:
  obtains s' where "init_segment_descriptor i base limit t flags s = Some s'"
    "tty.more s' = tty.more (s\<lparr>gdt := (gdt s)[i := mk_descriptor base limit t flags]\<rparr>)"
    "wf_tty s \<Longrightarrow> wf_tty s'" "wf_tty s \<Longrightarrow> kernel_step s (Some s')"
proof -
  let ?s = "s\<lparr>gdt := (gdt s)[i := mk_descriptor base limit t flags]\<rparr>"
  have "init_segment_descriptor i base limit t flags s =
      LOG_DEBUG SYS_LOG_MOD (cstr ''init seg desc as [%08x %08x]'')
        [VWord (descriptor_high base limit t flags), VWord (descriptor_low base limit)] ?s"
    by (simp add: init_segment_descriptor_def Let_def mk_descriptor_def descriptor_update)
  moreover obtain s' where "LOG_DEBUG SYS_LOG_MOD (cstr ''init seg desc as [%08x %08x]'')
        [VWord (descriptor_high base limit t flags), VWord (descriptor_low base limit)] ?s = Some s'"
    "tty.more s' = tty.more ?s" "wf_tty ?s \<Longrightarrow> wf_tty s'" "wf_tty ?s \<Longrightarrow> kernel_step ?s (Some s')"
    by (rule printsE [OF descriptor_log_prints]) (rule that)
  ultimately show thesis using that [of s'] by (simp add: kernel_step_def)
qed

section \<open>The flat memory model\<close>

definition flat_flags :: segment_descr_flags where
  "flat_flags = SEGMENT_DESCR_SIZE 1 OR SEGMENT_DESCR_PRES 1 OR SEGMENT_DESCR_DTYP 1 OR SEGMENT_DESCR_GRAN 1"

definition flat_code :: segment_descriptor where
  "flat_code = mk_descriptor 0 0xfffff SEGMENT_CODE_TYPE_EXRD flat_flags"

definition flat_data :: segment_descriptor where
  "flat_data = mk_descriptor 0 0xfffff SEGMENT_DATA_TYPE_RDWR flat_flags"

lemma gdt_init_effect:
  obtains s' where "gdt_init s = Some s'"
    "tty.more s' = tty.more (s\<lparr>gdt := (gdt s)[0 := \<lparr>low_part = 0, high_part = 0\<rparr>,
       GDT_INDEX_KERNEL_CODE := flat_code, GDT_INDEX_KERNEL_DATA := flat_data], gdt_limit := 23\<rparr>)"
    "wf_tty s \<Longrightarrow> wf_tty s'" "wf_tty s \<Longrightarrow> kernel_step s (Some s')"
proof -
  obtain s1 where 1: "init_segment_descriptor 0 0 0 SEGMENT_DATA_TYPE_RD 0 s = Some s1"
    "tty.more s1 = tty.more (s\<lparr>gdt := (gdt s)[0 := mk_descriptor 0 0 SEGMENT_DATA_TYPE_RD 0]\<rparr>)"
    "wf_tty s \<Longrightarrow> wf_tty s1" "wf_tty s \<Longrightarrow> kernel_step s (Some s1)"
    by (rule init_segment_descriptor_effect) (rule that)
  obtain s2 where 2: "init_segment_descriptor GDT_INDEX_KERNEL_CODE 0 0xfffff SEGMENT_CODE_TYPE_EXRD flat_flags s1 = Some s2"
    "tty.more s2 = tty.more (s1\<lparr>gdt := (gdt s1)[GDT_INDEX_KERNEL_CODE := flat_code]\<rparr>)"
    "wf_tty s1 \<Longrightarrow> wf_tty s2" "wf_tty s1 \<Longrightarrow> kernel_step s1 (Some s2)"
    by (rule init_segment_descriptor_effect [where base = 0 and limit = "0xfffff"
        and t = SEGMENT_CODE_TYPE_EXRD and flags = flat_flags, folded flat_code_def]) (rule that)
  obtain s3 where 3: "init_segment_descriptor GDT_INDEX_KERNEL_DATA 0 0xfffff SEGMENT_DATA_TYPE_RDWR flat_flags s2 = Some s3"
    "tty.more s3 = tty.more (s2\<lparr>gdt := (gdt s2)[GDT_INDEX_KERNEL_DATA := flat_data]\<rparr>)"
    "wf_tty s2 \<Longrightarrow> wf_tty s3" "wf_tty s2 \<Longrightarrow> kernel_step s2 (Some s3)"
    by (rule init_segment_descriptor_effect [where base = 0 and limit = "0xfffff"
        and t = SEGMENT_DATA_TYPE_RDWR and flags = flat_flags, folded flat_data_def]) (rule that)
  have "prints (s3\<lparr>gdt_limit := 23\<rparr>) (LOG_DEBUG SYS_LOG_MOD (cstr ''Init GDT done (basic flat model)'') [] (s3\<lparr>gdt_limit := 23\<rparr>))"
    by (rule message_log_prints) simp
  then obtain s4 where 4: "LOG_DEBUG SYS_LOG_MOD (cstr ''Init GDT done (basic flat model)'') [] (s3\<lparr>gdt_limit := 23\<rparr>) = Some s4"
    "tty.more s4 = tty.more (s3\<lparr>gdt_limit := 23\<rparr>)"
    "wf_tty (s3\<lparr>gdt_limit := 23\<rparr>) \<Longrightarrow> wf_tty s4" "wf_tty (s3\<lparr>gdt_limit := 23\<rparr>) \<Longrightarrow> kernel_step (s3\<lparr>gdt_limit := 23\<rparr>) (Some s4)"
    by (rule printsE) (rule that)
  have null: "mk_descriptor 0 0 SEGMENT_DATA_TYPE_RD 0 = \<lparr>low_part = 0, high_part = 0\<rparr>"
    by (simp add: mk_descriptor_def descriptor_low_def descriptor_high_def)
  show thesis
  proof (rule that [of s4])
    show "gdt_init s = Some s4"
      using 1(1) 2(1) 3(1) 4(1) by (simp add: gdt_init_def flat_flags_def)
    show "tty.more s4 = tty.more (s\<lparr>gdt := (gdt s)[0 := \<lparr>low_part = 0, high_part = 0\<rparr>,
       GDT_INDEX_KERNEL_CODE := flat_code, GDT_INDEX_KERNEL_DATA := flat_data], gdt_limit := 23\<rparr>)"
      using 1(2) 2(2) 3(2) 4(2) by (cases s; cases s1; cases s2; cases s3; cases s4) (simp add: null)
    assume "wf_tty s"
    then show "wf_tty s4" "kernel_step s (Some s4)"
      using 1(3,4) 2(3,4) 3(3,4) 4(3,4) by (simp_all add: kernel_step_def)
  qed
qed

lemma gdt_flush_effect:
  obtains s' where "gdt_flush s = Some s'"
    "tty.more s' = tty.more (s\<lparr>gdtr_data := \<lparr>gdtr_base = gdt_address s, gdtr_limit = gdt_limit s\<rparr>,
       gdtr := \<lparr>gdtr_base = gdt_address s, gdtr_limit = gdt_limit s\<rparr>,
       segment_regs := \<lparr>reg_cs = 0x08, reg_ss = 0x10, reg_ds = 0x10, reg_es = 0x10, reg_fs = 0x10, reg_gs = 0x10\<rparr>\<rparr>)"
    "wf_tty s \<Longrightarrow> wf_tty s'" "wf_tty s \<Longrightarrow> kernel_step s (Some s')"
proof -
  let ?s = "segment_reload_segments (segment_set_gdtr_asm_prot (gdt_address s) (gdt_limit s) s)"
  have "prints ?s (gdt_flush s)"
    unfolding gdt_flush_def Let_def by (rule message_log_prints) simp
  then obtain s' where "gdt_flush s = Some s'" "tty.more s' = tty.more ?s"
    "wf_tty ?s \<Longrightarrow> wf_tty s'" "wf_tty ?s \<Longrightarrow> kernel_step ?s (Some s')"
    by (rule printsE) (rule that)
  then show thesis
    using that [of s'] by (simp add: segment_reload_segments_def segment_set_gdtr_asm_prot_def kernel_step_def)
qed

interpretation gdt_init: kernel_op gdt_init
  by unfold_locales (metis gdt_init_effect)
interpretation gdt_flush: kernel_op gdt_flush
  by unfold_locales (metis gdt_flush_effect)

section \<open>Properties\<close>

text \<open>
  C26: \<open>init_segment_descriptor\<close> encodes its arguments: when the flags stay within the flag bits
  of the high word, the processor reads back the base, the low twenty bits of the limit, the
  type and the flags, and no other descriptor of the table changes.
\<close>

theorem init_segment_descriptor_fields:
  assumes "flags AND NOT flag_mask = 0" "i < length (gdt s)"
  shows "\<exists>s'. init_segment_descriptor i base limit t flags s = Some s' \<and>
    seg_base (gdt s' ! i) = base \<and> seg_limit (gdt s' ! i) = take_bit 20 limit \<and>
    type_field (gdt s' ! i) = segment_type_code t \<and> high_part (gdt s' ! i) AND flag_mask = flags \<and>
    (\<forall>j. j \<noteq> i \<longrightarrow> gdt s' ! j = gdt s ! j)"
proof -
  obtain s' where s': "init_segment_descriptor i base limit t flags s = Some s'"
    "tty.more s' = tty.more (s\<lparr>gdt := (gdt s)[i := mk_descriptor base limit t flags]\<rparr>)"
    "wf_tty s \<Longrightarrow> wf_tty s'" "wf_tty s \<Longrightarrow> kernel_step s (Some s')"
    by (rule init_segment_descriptor_effect) (rule that)
  have "gdt s' = (gdt s)[i := mk_descriptor base limit t flags]"
    using seg_more_cong(1) [OF s'(2)] by simp
  with s'(1) descriptor_fields [OF assms(1) mk_descriptor_def] assms(2) show ?thesis by simp
qed

definition start_seg :: "seg" where
  "start_seg = \<lparr>memory = (\<lambda>_. 0), vga_col = 0, vga_row = 0, tty_color = 0x0F,
     log_current_level = LOG_LEVEL_DEBUG,
     gdt = replicate SEGMENT_GDT_NUM_ENTRIES \<lparr>low_part = 0, high_part = 0\<rparr>, gdt_limit = 0,
     gdt_address = 0x106000, gdtr_data = \<lparr>gdtr_base = 1, gdtr_limit = 8\<rparr>,
     gdtr = \<lparr>gdtr_base = 0, gdtr_limit = 0\<rparr>,
     segment_regs = \<lparr>reg_cs = 0, reg_ss = 0, reg_ds = 0, reg_es = 0, reg_fs = 0, reg_gs = 0\<rparr>\<rparr>"

theorem init_segment_descriptor_fields_witness:
  "\<exists>s'. init_segment_descriptor 3 0x12345678 0xABCDE SEGMENT_CODE_TYPE_EX (SEGMENT_DESCR_PRES 1) start_seg = Some s' \<and>
     seg_base (gdt s' ! 3) = 0x12345678 \<and> seg_limit (gdt s' ! 3) = 0xABCDE"
proof -
  have flags: "SEGMENT_DESCR_PRES 1 AND NOT flag_mask = 0"
    by (simp add: descr_flag_defs flag_mask_def)
  have i: "3 < length (gdt start_seg)" by (simp add: start_seg_def SEGMENT_GDT_NUM_ENTRIES_def)
  show ?thesis
    using init_segment_descriptor_fields [OF flags i, where base = "0x12345678" and limit = "0xABCDE"
        and t = SEGMENT_CODE_TYPE_EX] by auto
qed

text \<open>
  What the processor demands of a selector: it designates an entry of the loaded table (the
  requested privilege is 0 and the table indicator is the GDT), and the descriptor is a present
  code or data segment that covers the whole address space.
\<close>

definition selects :: "'a seg_scheme \<Rightarrow> u16 \<Rightarrow> u32 \<Rightarrow> bool" where
  "selects s sel code \<longleftrightarrow>
     (let i = unat (drop_bit 3 sel); d = gdt s ! i
      in sel AND 0x7 = 0 \<and> i \<noteq> 0 \<and> 8 * i + 7 \<le> unat (gdtr_limit (gdtr s)) \<and> i < length (gdt s) \<and>
         present d = 1 \<and> dtype d = 1 \<and> dpl d = 0 \<and> db_field d = 1 \<and> type_field d = code \<and>
         seg_base d = 0 \<and> byte_limit d = 0xFFFFFFFF)"

lemma flat_segments:
  "present flat_code = 1 \<and> dtype flat_code = 1 \<and> dpl flat_code = 0 \<and> db_field flat_code = 1 \<and>
   type_field flat_code = segment_type_code SEGMENT_CODE_TYPE_EXRD \<and> seg_base flat_code = 0 \<and>
   byte_limit flat_code = 0xFFFFFFFF"
  "present flat_data = 1 \<and> dtype flat_data = 1 \<and> dpl flat_data = 0 \<and> db_field flat_data = 1 \<and>
   type_field flat_data = segment_type_code SEGMENT_DATA_TYPE_RDWR \<and> seg_base flat_data = 0 \<and>
   byte_limit flat_data = 0xFFFFFFFF"
  by (simp_all add: flat_code_def flat_data_def flat_flags_def mk_descriptor_def descriptor_high_def
      descriptor_low_def descr_flag_defs descr_field_defs bits_of_def seg_base_def seg_limit_def
      byte_limit_def)

text \<open>The flat model: every segment register holds a selector the processor accepts for it.\<close>

definition flat_model :: "'a seg_scheme \<Rightarrow> bool" where
  "flat_model s \<longleftrightarrow>
     selects s (reg_cs (segment_regs s)) (segment_type_code SEGMENT_CODE_TYPE_EXRD) \<and>
     (\<forall>sel \<in> {reg_ss (segment_regs s), reg_ds (segment_regs s), reg_es (segment_regs s),
        reg_fs (segment_regs s), reg_gs (segment_regs s)}.
       selects s sel (segment_type_code SEGMENT_DATA_TYPE_RDWR))"

lemma flat_modelI:
  assumes "gdt s ! 1 = flat_code" "gdt s ! 2 = flat_data" "length (gdt s) = SEGMENT_GDT_NUM_ENTRIES"
    "gdtr_limit (gdtr s) = 23"
    "segment_regs s = \<lparr>reg_cs = 0x08, reg_ss = 0x10, reg_ds = 0x10, reg_es = 0x10, reg_fs = 0x10, reg_gs = 0x10\<rparr>"
  shows "flat_model s"
proof -
  have "selects s 0x08 (segment_type_code SEGMENT_CODE_TYPE_EXRD)"
    "selects s 0x10 (segment_type_code SEGMENT_DATA_TYPE_RDWR)"
    using assms(1-4) flat_segments by (simp_all add: selects_def SEGMENT_GDT_NUM_ENTRIES_def)
  then show ?thesis by (simp add: flat_model_def assms(5))
qed

lemma flat_model_cong:
  "gdt s = gdt t \<Longrightarrow> gdtr s = gdtr t \<Longrightarrow> segment_regs s = segment_regs t \<Longrightarrow> flat_model s = flat_model t"
  by (simp add: flat_model_def selects_def)

lemma gdt_flat_effect:
  assumes "length (gdt s) = SEGMENT_GDT_NUM_ENTRIES"
  obtains s' where "gdt_init s \<bind> gdt_flush = Some s'" "flat_model s'"
    "gdtr s' = \<lparr>gdtr_base = gdt_address s, gdtr_limit = 3 * 8 - 1\<rparr>"
    "gdt s' ! 0 = \<lparr>low_part = 0, high_part = 0\<rparr>" "length (gdt s') = SEGMENT_GDT_NUM_ENTRIES"
    "seg.more s' = seg.more s" "log_current_level s' = log_current_level s"
    "wf_tty s \<Longrightarrow> wf_tty s'" "wf_tty s \<Longrightarrow> kernel_step s (Some s')"
proof -
  obtain s1 where 1: "gdt_init s = Some s1"
    "tty.more s1 = tty.more (s\<lparr>gdt := (gdt s)[0 := \<lparr>low_part = 0, high_part = 0\<rparr>,
       GDT_INDEX_KERNEL_CODE := flat_code, GDT_INDEX_KERNEL_DATA := flat_data], gdt_limit := 23\<rparr>)"
    "wf_tty s \<Longrightarrow> wf_tty s1" "wf_tty s \<Longrightarrow> kernel_step s (Some s1)"
    by (rule gdt_init_effect) (rule that)
  obtain s2 where 2: "gdt_flush s1 = Some s2"
    "tty.more s2 = tty.more (s1\<lparr>gdtr_data := \<lparr>gdtr_base = gdt_address s1, gdtr_limit = gdt_limit s1\<rparr>,
       gdtr := \<lparr>gdtr_base = gdt_address s1, gdtr_limit = gdt_limit s1\<rparr>,
       segment_regs := \<lparr>reg_cs = 0x08, reg_ss = 0x10, reg_ds = 0x10, reg_es = 0x10, reg_fs = 0x10, reg_gs = 0x10\<rparr>\<rparr>)"
    "wf_tty s1 \<Longrightarrow> wf_tty s2" "wf_tty s1 \<Longrightarrow> kernel_step s1 (Some s2)"
    by (rule gdt_flush_effect) (rule that)
  note fields = seg_more_cong [OF 2(2)] seg_more_cong [OF 1(2)]
  have g: "gdt s2 = (gdt s)[0 := \<lparr>low_part = 0, high_part = 0\<rparr>, 1 := flat_code, 2 := flat_data]"
    using fields by (simp add: GDT_INDEX_KERNEL_CODE_def GDT_INDEX_KERNEL_DATA_def)
  show thesis
  proof (rule that [of s2])
    show "gdt_init s \<bind> gdt_flush = Some s2" using 1(1) 2(1) by simp
    show "flat_model s2"
      using g fields assms by (intro flat_modelI) (simp_all add: SEGMENT_GDT_NUM_ENTRIES_def)
  qed (use g fields assms 1(3,4) 2(3,4) in \<open>simp_all add: SEGMENT_GDT_NUM_ENTRIES_def kernel_step_def\<close>)
qed

text \<open>
  C10: \<open>gdt_init\<close> and \<open>gdt_flush\<close> leave the processor in the flat model: the GDT register holds
  the table's address and a limit that covers exactly the three initialised entries, the code
  segment register selects an executable and readable segment, the others select a writable one,
  and all of them are present, privileged, 32-bit and cover the four gigabytes; the null
  descriptor is zero.
\<close>

theorem gdt_flat:
  assumes "length (gdt s) = SEGMENT_GDT_NUM_ENTRIES"
  shows "\<exists>s'. gdt_init s \<bind> gdt_flush = Some s' \<and>
    gdtr s' = \<lparr>gdtr_base = gdt_address s, gdtr_limit = 3 * 8 - 1\<rparr> \<and>
    gdt s' ! 0 = \<lparr>low_part = 0, high_part = 0\<rparr> \<and>
    selects s' (reg_cs (segment_regs s')) (segment_type_code SEGMENT_CODE_TYPE_EXRD) \<and>
    (\<forall>sel \<in> {reg_ss (segment_regs s'), reg_ds (segment_regs s'), reg_es (segment_regs s'),
       reg_fs (segment_regs s'), reg_gs (segment_regs s')}.
      selects s' sel (segment_type_code SEGMENT_DATA_TYPE_RDWR))"
  using gdt_flat_effect [OF assms] unfolding flat_model_def by metis

theorem gdt_flat_witness:
  "\<exists>s'. gdt_init start_seg \<bind> gdt_flush = Some s' \<and> gdtr s' = \<lparr>gdtr_base = 0x106000, gdtr_limit = 23\<rparr>"
proof -
  have "length (gdt start_seg) = SEGMENT_GDT_NUM_ENTRIES" by (simp add: start_seg_def)
  from gdt_flat [OF this] show ?thesis by (auto simp: start_seg_def)
qed

end
