(* ===== verification/Interrupt.thy ===== *)
theory Interrupt
  imports Segment
begin

text \<open>
  Interrupts, \<^verbatim>\<open>kernel/src/system/interrupt.c\<close> and the stubs of \<^verbatim>\<open>asm_bits.s\<close>: the
  gates of the IDT, the IDT register, the table of handlers, and what the processor does at an
  \<open>int\<close> instruction. The functions that handlers point to are a parameter.
\<close>

section \<open>State\<close>

record idt_descriptor =
  idt_offset_0_15 :: u16
  idt_cs :: u16
  idt_flags :: u16
  idt_offset_16_31 :: u16

record idt_register =
  idtr_limit :: u16
  idtr_base :: u32

definition IDT_MAX_ENTRIES :: nat where "IDT_MAX_ENTRIES = 255"

text \<open>The entry points of the assembly file.\<close>

datatype isr_label = Isr_dispatch nat | Isr_user_stub nat

text \<open>
  \<open>idt\<close> is the array \<open>idt.entries\<close> of 255 gates, \<open>idt_address\<close> where it is; what lies behind it is
  memory. \<open>label_address\<close> is where the linker puts the entry points; neither address ever changes.
  \<open>idtr\<close> is the variable, \<open>cpu_idtr\<close> the register.
\<close>

record intr = seg +
  idt :: "idt_descriptor list"
  idt_address :: u32
  idtr :: idt_register
  cpu_idtr :: idt_register
  label_address :: "isr_label \<Rightarrow> u32"
  isr_user_handlers :: "u32 list"

text \<open>
  The assembly fills the dispatch table with 32 generic stubs and 224 user stubs; \<open>.rept 256\<close>
  defines user stubs up to number 287, the last 32 of which nothing refers to.
\<close>

definition isr_labels :: "isr_label list" where
  "isr_labels = map Isr_dispatch [0..<32] @ map Isr_user_stub [32..<288]"

definition dispatch_label :: "nat \<Rightarrow> isr_label" where
  "dispatch_label i = (if i < 32 then Isr_dispatch i else Isr_user_stub i)"

definition isr_dispatch_table :: "'a intr_scheme \<Rightarrow> u32 list" where
  "isr_dispatch_table s = map (\<lambda>i. label_address s (dispatch_label i)) [0..<256]"

section \<open>Operations\<close>

definition isr_0_31 :: "u32 \<Rightarrow> 'a tty_scheme \<Rightarrow> 'a tty_scheme option" where
  "isr_0_31 vector s = kprintf (cstr ''received interrupt %u\<newline>'') [VWord vector] s"

definition IDT_DESC_PRESENT :: u16 where "IDT_DESC_PRESENT = push_bit 15 1"
definition IDT_DESC_TYPE_INT :: u16 where "IDT_DESC_TYPE_INT = push_bit 9 0x3"
definition IDT_DESC_GATE_SIZE_32 :: u16 where "IDT_DESC_GATE_SIZE_32 = push_bit 11 1"

definition idt_init_interrupt_gate :: "idt_descriptor \<Rightarrow> u32 \<Rightarrow> u16 \<Rightarrow> u16 \<Rightarrow> idt_descriptor" where
  "idt_init_interrupt_gate desc offset seg_sel dpl_bits =
     (let desc = desc\<lparr>idt_flags := push_bit 13 (dpl_bits AND 0x3) OR IDT_DESC_PRESENT OR
             IDT_DESC_TYPE_INT OR IDT_DESC_GATE_SIZE_32\<rparr>;
          desc = desc\<lparr>idt_cs := seg_sel\<rparr>;
          desc = desc\<lparr>idt_offset_0_15 := ucast (offset AND 0xFFFF)\<rparr>
      in desc\<lparr>idt_offset_16_31 := ucast (drop_bit 16 offset AND 0xFFFF)\<rparr>)"

text \<open>A gate in memory: the packed structure, its fields with the low byte first.\<close>

definition store_gate :: "u32 \<Rightarrow> idt_descriptor \<Rightarrow> mem \<Rightarrow> mem" where
  "store_gate a d m = store16 (a + 6) (idt_offset_16_31 d) (store16 (a + 4) (idt_flags d)
     (store16 (a + 2) (idt_cs d) (store16 a (idt_offset_0_15 d) m)))"

definition load_gate :: "mem \<Rightarrow> u32 \<Rightarrow> idt_descriptor" where
  "load_gate m a = \<lparr>idt_offset_0_15 = load16 m a, idt_cs = load16 m (a + 2),
     idt_flags = load16 m (a + 4), idt_offset_16_31 = load16 m (a + 6)\<rparr>"

text \<open>
  \<^verbatim>\<open>idt.entries[i]\<close> is at its place in the array, and beyond the end of the array at the address that
  the index computes: 255 designates the eight bytes of memory behind the table, and a store
  there changes them, whatever object they belong to.
\<close>

definition idt_entry_address :: "'a intr_scheme \<Rightarrow> nat \<Rightarrow> u32" where
  "idt_entry_address s i = idt_address s + 8 * of_nat i"

definition idt_entry :: "'a intr_scheme \<Rightarrow> nat \<Rightarrow> idt_descriptor" where
  "idt_entry s i =
     (if i < length (idt s) then idt s ! i else load_gate (memory s) (idt_entry_address s i))"

definition set_idt_entry :: "nat \<Rightarrow> idt_descriptor \<Rightarrow> 'a intr_scheme \<Rightarrow> 'a intr_scheme" where
  "set_idt_entry i d s =
     (if i < length (idt s) then s\<lparr>idt := (idt s)[i := d]\<rparr>
      else s\<lparr>memory := store_gate (idt_entry_address s i) d (memory s)\<rparr>)"

text \<open>The assembly routine loads the register from the variable with interrupts off.\<close>

definition idtr_reload :: "'a intr_scheme \<Rightarrow> 'a intr_scheme" where
  "idtr_reload s = s\<lparr>cpu_idtr := idtr s\<rparr>"

definition idt_flush :: "'a intr_scheme \<Rightarrow> 'a intr_scheme option" where
  "idt_flush s =
     (let s = s\<lparr>idtr := (idtr s)\<lparr>idtr_limit := of_nat (8 * IDT_MAX_ENTRIES - 1)\<rparr>\<rparr>;
          s = s\<lparr>idtr := (idtr s)\<lparr>idtr_base := idt_address s\<rparr>\<rparr>;
          s = idtr_reload s
      in LOG_DEBUG SYS_LOG_MOD (cstr ''Flushed IDT'') [] s)"

definition idt_seg_sel :: u16 where
  "idt_seg_sel = SEGMENT_SELECTOR_INDEX (of_nat GDT_INDEX_KERNEL_CODE) OR SEGMENT_SELECTOR_RPL 0 OR
     SEGMENT_SELECTOR_TI_GDT"

definition idt_init_gate :: "nat \<Rightarrow> 'a intr_scheme \<Rightarrow> 'a intr_scheme" where
  "idt_init_gate i s =
     set_idt_entry i
       (idt_init_interrupt_gate (idt_entry s i) (isr_dispatch_table s ! i) idt_seg_sel 0) s"

definition idt_init :: "'a intr_scheme \<Rightarrow> 'a intr_scheme" where
  "idt_init s =
     (let s = fold idt_init_gate [0..<32] s
      in fold idt_init_gate [32..<256] s)"

text \<open>The assembly reserves 256 words for the handlers.\<close>

definition idt_register_handler :: "u8 \<Rightarrow> u32 \<Rightarrow> 'a intr_scheme \<Rightarrow> 'a intr_scheme option" where
  "idt_register_handler vector handler s = do {
     s \<leftarrow> ASSERT (vector \<ge> 32) (cstr ''vector >= 32'') s;
     Some (s\<lparr>isr_user_handlers := (isr_user_handlers s)[unat vector := handler]\<rparr>)
   }"

section \<open>Dispatch\<close>

text \<open>
  The stubs: the generic ones return at once, a user stub calls the handler registered for
  its number when there is one. \<open>call\<close> runs the C function at an address.
\<close>

definition isr_user_stub ::
  "(u32 \<Rightarrow> 'a intr_scheme \<Rightarrow> 'a intr_scheme option) \<Rightarrow> nat \<Rightarrow> 'a intr_scheme \<Rightarrow> 'a intr_scheme option" where
  "isr_user_stub call n s =
     (let eax = isr_user_handlers s ! n in if eax = 0 then Some s else call eax s)"

definition generic_isr_dispatch :: "'a intr_scheme \<Rightarrow> 'a intr_scheme option" where
  "generic_isr_dispatch s = Some s"

definition run_label ::
  "(u32 \<Rightarrow> 'a intr_scheme \<Rightarrow> 'a intr_scheme option) \<Rightarrow> isr_label \<Rightarrow> 'a intr_scheme \<Rightarrow> 'a intr_scheme option" where
  "run_label call l s =
     (case l of Isr_dispatch n \<Rightarrow> generic_isr_dispatch s | Isr_user_stub n \<Rightarrow> isr_user_stub call n s)"

text \<open>What the processor reads from a gate.\<close>

definition gate_offset :: "idt_descriptor \<Rightarrow> u32" where
  "gate_offset d = ucast (idt_offset_0_15 d) OR push_bit 16 (ucast (idt_offset_16_31 d))"

definition gate_present :: "idt_descriptor \<Rightarrow> bool" where
  "gate_present d \<longleftrightarrow> bit (idt_flags d) 15"

definition gate_dpl :: "idt_descriptor \<Rightarrow> u16" where
  "gate_dpl d = take_bit 2 (drop_bit 13 (idt_flags d))"

definition gate_type :: "idt_descriptor \<Rightarrow> u16" where
  "gate_type d = take_bit 5 (drop_bit 8 (idt_flags d))"

text \<open>
  \<^verbatim>\<open>int $n\<close> in privilege level 0: the gate must lie within the limit of the IDT register, the
  register must hold the table's address, and the gate must be present, a 32-bit interrupt or trap
  gate with a selector that is not null, and lead to an entry point; otherwise the interrupt is a
  fault or a jump into the unknown, \<open>None\<close>. The descriptor that the selector names is not looked
  up here: \<open>flat_model\<close> in \<open>Segment\<close> says what it is.
\<close>

definition gate_usable :: "idt_descriptor \<Rightarrow> bool" where
  "gate_usable d \<longleftrightarrow> gate_present d \<and> (gate_type d = 0xE \<or> gate_type d = 0xF) \<and> idt_cs d AND 0xFFFC \<noteq> 0"

definition software_interrupt ::
  "(u32 \<Rightarrow> 'a intr_scheme \<Rightarrow> 'a intr_scheme option) \<Rightarrow> u8 \<Rightarrow> 'a intr_scheme \<Rightarrow> 'a intr_scheme option" where
  "software_interrupt call n s =
     (let d = idt_entry s (unat n)
      in if 8 * unat n + 7 \<le> unat (idtr_limit (cpu_idtr s)) \<and> idtr_base (cpu_idtr s) = idt_address s \<and>
            gate_usable d
         then (case find (\<lambda>l. label_address s l = gate_offset d) isr_labels of
                 Some l \<Rightarrow> run_label call l s | None \<Rightarrow> None)
         else None)"

section \<open>Gates\<close>

text \<open>The gate of an entry point: 32-bit interrupt gate, present, kernel code segment.\<close>

definition mk_gate :: "u32 \<Rightarrow> u16 \<Rightarrow> u16 \<Rightarrow> idt_descriptor" where
  "mk_gate offset sel dpl_bits =
     \<lparr>idt_offset_0_15 = ucast offset, idt_cs = sel,
      idt_flags = push_bit 13 (take_bit 2 dpl_bits) OR 0x8E00,
      idt_offset_16_31 = ucast (drop_bit 16 offset)\<rparr>"

lemma idt_init_interrupt_gate_eq:
  "idt_init_interrupt_gate d offset sel dpl_bits = mk_gate offset sel dpl_bits"
proof -
  have m: "(0xFFFF :: u32) = mask 16" "(0x3 :: u16) = mask 2" by (simp_all add: mask_eq_exp_minus_1)
  have "(ucast (w AND mask 16) :: u16) = ucast w" for w :: u32
    by (rule bit_word_eqI) (simp add: bit_simps)
  then show ?thesis
    unfolding idt_init_interrupt_gate_def mk_gate_def Let_def m
    by (cases d) (simp add: IDT_DESC_PRESENT_def IDT_DESC_TYPE_INT_def IDT_DESC_GATE_SIZE_32_def
        take_bit_eq_mask or.assoc)
qed

lemma gate_offset_mk_gate [simp]: "gate_offset (mk_gate offset sel dpl_bits) = offset"
  by (rule bit_word_eqI) (auto simp: gate_offset_def mk_gate_def bit_simps)

lemma idt_cs_mk_gate [simp]: "idt_cs (mk_gate offset sel dpl_bits) = sel"
  by (simp add: mk_gate_def)

lemma bit_gate_flags: "n < 16 \<Longrightarrow> bit (idt_flags (mk_gate offset sel dpl_bits)) n \<longleftrightarrow>
    (n = 13 \<or> n = 14) \<and> bit dpl_bits (n - 13) \<or> n \<in> {9, 10, 11, 15}"
proof -
  have "bit (0x8E00 :: u16) n \<longleftrightarrow> n \<in> {9, 10, 11, 15}" if "n < 16"
  proof -
    from that have "n \<in> set [0, 1, 2, 3, 4, 5, 6, 7, 8, 9, 10, 11, 12, 13, 14, 15]" by simp presburger
    then show ?thesis by auto
  qed
  then show "n < 16 \<Longrightarrow> ?thesis" by (auto simp: mk_gate_def bit_simps)
qed

lemma gate_bits_mk_gate [simp]:
  "gate_present (mk_gate offset sel dpl_bits)"
  "gate_dpl (mk_gate offset sel dpl_bits) = take_bit 2 dpl_bits"
  "gate_type (mk_gate offset sel dpl_bits) = 0xE"
proof -
  show "gate_present (mk_gate offset sel dpl_bits)" by (simp add: gate_present_def bit_gate_flags)
  show "gate_dpl (mk_gate offset sel dpl_bits) = take_bit 2 dpl_bits"
    by (rule bit_word_eqI)
       (auto simp: gate_dpl_def bit_take_bit_iff bit_drop_bit_eq bit_gate_flags less_2_cases_iff)
  have "bit (0xE :: u16) n \<longleftrightarrow> n \<in> {1, 2, 3}" if "n < 5" for n
    using that by (auto simp: less_Suc_eq numeral_eq_Suc)
  moreover have "\<not> bit (0xE :: u16) n" if "\<not> n < 5" for n
  proof -
    have "(0xE :: u16) = take_bit 5 0xE" by simp
    then show ?thesis using that by (metis bit_take_bit_iff)
  qed
  ultimately show "gate_type (mk_gate offset sel dpl_bits) = 0xE"
  proof (intro bit_word_eqI)
    fix n
    assume low: "\<And>n. n < 5 \<Longrightarrow> bit (0xE :: u16) n = (n \<in> {1, 2, 3})"
      and high: "\<And>n. \<not> n < 5 \<Longrightarrow> \<not> bit (0xE :: u16) n"
    show "bit (gate_type (mk_gate offset sel dpl_bits)) n = bit (0xE :: u16) n"
    proof (cases "n < 5")
      case True
      then have "bit (idt_flags (mk_gate offset sel dpl_bits)) (8 + n) \<longleftrightarrow> n \<in> {1, 2, 3, 7} \<or>
          (n = 5 \<or> n = 6) \<and> bit dpl_bits (8 + n - 13)"
        by (subst bit_gate_flags) auto
      with True low [of n] show ?thesis
        by (auto simp: gate_type_def bit_take_bit_iff bit_drop_bit_eq)
    next
      case False
      with high show ?thesis by (simp add: gate_type_def bit_take_bit_iff)
    qed
  qed
qed

section \<open>The loops of \<open>idt_init\<close>\<close>

text \<open>The gate that \<open>idt_init\<close> builds for a vector.\<close>

definition stub_gate :: "'a intr_scheme \<Rightarrow> nat \<Rightarrow> idt_descriptor" where
  "stub_gate s i = mk_gate (label_address s (dispatch_label i)) 0x08 0"

lemma idt_seg_sel_value: "idt_seg_sel = 0x08"
  by (simp add: idt_seg_sel_def SEGMENT_SELECTOR_INDEX_def SEGMENT_SELECTOR_RPL_def
      SEGMENT_SELECTOR_TI_GDT_def GDT_INDEX_KERNEL_CODE_def)

lemma idt_init_gate_eq: "i < 256 \<Longrightarrow> idt_init_gate i s = set_idt_entry i (stub_gate s i) s"
  by (simp add: idt_init_gate_def idt_init_interrupt_gate_eq stub_gate_def isr_dispatch_table_def
      idt_seg_sel_value)

lemma set_idt_entry_simps [simp]:
  "label_address (set_idt_entry i d s) = label_address s" "idt_address (set_idt_entry i d s) = idt_address s" "length (idt (set_idt_entry i d s)) = length (idt s)"
  "stub_gate (set_idt_entry i d s) = stub_gate s"
  by (simp_all add: set_idt_entry_def stub_gate_def fun_eq_iff)

lemma load_store_gate: "load_gate (store_gate a d m) a = d"
proof -
  have "load16 (store_gate a d m) (a + of_nat k) = [idt_offset_0_15 d, idt_cs d, idt_flags d, idt_offset_16_31 d] ! (k div 2)"
    if "k \<in> {0, 2, 4, 6}" for k
    using that by (auto simp: store_gate_def mem_simps add.assoc)
  from this [of 0] this [of 2] this [of 4] this [of 6] show ?thesis by (simp add: load_gate_def)
qed

lemma store_gate_frame: "\<not> in_region a 8 x \<Longrightarrow> store_gate a d m x = m x"
proof -
  assume "\<not> in_region a 8 x"
  then have "x \<noteq> a + of_nat k" if "k < 8" for k using that by (auto simp: in_region_def unat_of_nat)
  from this [of 0] this [of 1] this [of 2] this [of 3] this [of 4] this [of 5] this [of 6] this [of 7]
  show ?thesis by (simp add: store_gate_def frame_simps add.assoc)
qed

lemma idt_entry_set:
  assumes "length (idt s) = IDT_MAX_ENTRIES" "i \<le> IDT_MAX_ENTRIES" "j \<le> IDT_MAX_ENTRIES"
  shows "idt_entry (set_idt_entry i d s) j = (if i = j then d else idt_entry s j)"
  using assms by (auto simp: idt_entry_def set_idt_entry_def idt_entry_address_def load_store_gate)

text \<open>The bytes behind a table at an address, and everything but the gates and the memory.\<close>

definition idt_tail :: "u32 \<Rightarrow> u32 \<Rightarrow> bool" where
  "idt_tail base x \<longleftrightarrow> in_region (base + 2040) 8 x"

lemma set_idt_entry_frame:
  assumes "length (idt s) = IDT_MAX_ENTRIES" "i \<le> IDT_MAX_ENTRIES" "\<not> idt_tail (idt_address s) x"
  shows "memory (set_idt_entry i d s) x = memory s x"
proof (cases "i < length (idt s)")
  case False
  then have "idt_entry_address s i = idt_address s + 2040"
    using assms(1,2) by (simp add: idt_entry_address_def IDT_MAX_ENTRIES_def)
  then show ?thesis using assms(3) False by (simp add: set_idt_entry_def idt_tail_def store_gate_frame)
qed (simp add: set_idt_entry_def)

definition other_state :: "'a intr_scheme \<Rightarrow> 'a intr_scheme" where
  "other_state s = s\<lparr>idt := [], memory := (\<lambda>_. 0)\<rparr>"

lemma other_state_set [simp]: "other_state (set_idt_entry i d s) = other_state s"
  by (simp add: other_state_def set_idt_entry_def)

lemma fold_idt_init_gate:
  assumes "length (idt s) = IDT_MAX_ENTRIES" "set is \<subseteq> {..<256}"
  shows "length (idt (fold idt_init_gate is s)) = IDT_MAX_ENTRIES \<and>
    other_state (fold idt_init_gate is s) = other_state s \<and>
    (\<forall>x. \<not> idt_tail (idt_address s) x \<longrightarrow> memory (fold idt_init_gate is s) x = memory s x) \<and>
    (\<forall>j\<le>IDT_MAX_ENTRIES. idt_entry (fold idt_init_gate is s) j =
       (if j \<in> set is then stub_gate s j else idt_entry s j))"
  using assms
proof (induction "is" arbitrary: s)
  case Nil
  then show ?case by simp
next
  case (Cons i "is")
  let ?s = "set_idt_entry i (stub_gate s i) s"
  have i: "i < 256" "i \<le> IDT_MAX_ENTRIES" using Cons.prems by (simp_all add: IDT_MAX_ENTRIES_def)
  have "length (idt ?s) = IDT_MAX_ENTRIES" "set is \<subseteq> {..<256}" using Cons.prems by simp_all
  from Cons.IH [OF this] show ?case
    using i Cons.prems(1) by (auto simp: idt_init_gate_eq idt_entry_set set_idt_entry_frame)
qed

lemma idt_init_effect:
  assumes "length (idt s) = IDT_MAX_ENTRIES"
  shows "other_state (idt_init s) = other_state s" "length (idt (idt_init s)) = IDT_MAX_ENTRIES"
    and "i \<le> IDT_MAX_ENTRIES \<Longrightarrow> idt_entry (idt_init s) i = stub_gate s i"
    and "\<not> idt_tail (idt_address s) x \<Longrightarrow> memory (idt_init s) x = memory s x"
proof -
  have "idt_init s = fold idt_init_gate [0..<256] s"
  proof -
    have "[0..<256] = [0..<32] @ [32..<256]" using upt_add_eq_append [of 0 32 224] by simp
    then show ?thesis by (simp only: idt_init_def Let_def fold_append comp_apply)
  qed
  moreover have "set [0..<256] \<subseteq> {..<256}" by auto
  ultimately show "other_state (idt_init s) = other_state s"
    "length (idt (idt_init s)) = IDT_MAX_ENTRIES"
    "i \<le> IDT_MAX_ENTRIES \<Longrightarrow> idt_entry (idt_init s) i = stub_gate s i"
    "\<not> idt_tail (idt_address s) x \<Longrightarrow> memory (idt_init s) x = memory s x"
    using fold_idt_init_gate [OF assms, of "[0..<256]"] by (auto simp: IDT_MAX_ENTRIES_def)
qed

lemma intr_other_cong:
  assumes "other_state s = other_state t"
  shows "label_address s = label_address t" "idt_address s = idt_address t"
    "isr_user_handlers s = isr_user_handlers t" "wf_tty s = wf_tty t"
    "log_current_level s = log_current_level t" "gdt s = gdt t" "gdtr s = gdtr t"
    "segment_regs s = segment_regs t" "intr.more s = intr.more t"
  using assms by (cases s; cases t; simp add: other_state_def wf_tty_def)+

lemma intr_more_cong:
  assumes "tty.more s = tty.more t"
  shows "idt s = idt t" "idt_address s = idt_address t"
    "idtr s = idtr t" "cpu_idtr s = cpu_idtr t" "label_address s = label_address t"
    "isr_user_handlers s = isr_user_handlers t" "intr.more s = intr.more t"
  using assms by (cases s; cases t; simp)+

lemma idt_flush_effect:
  obtains s' where "idt_flush s = Some s'"
    "tty.more s' = tty.more (s\<lparr>idtr := \<lparr>idtr_limit = 2039, idtr_base = idt_address s\<rparr>,
       cpu_idtr := \<lparr>idtr_limit = 2039, idtr_base = idt_address s\<rparr>\<rparr>)"
    "wf_tty s \<Longrightarrow> wf_tty s'" "wf_tty s \<Longrightarrow> kernel_step s (Some s')"
proof -
  let ?r = "\<lparr>idtr_limit = 2039, idtr_base = idt_address s\<rparr>"
  let ?s = "s\<lparr>idtr := ?r, cpu_idtr := ?r\<rparr>"
  have "idt_flush s = LOG_DEBUG SYS_LOG_MOD (cstr ''Flushed IDT'') [] ?s"
    by (cases "idtr s") (simp add: idt_flush_def idtr_reload_def Let_def IDT_MAX_ENTRIES_def)
  moreover have "prints ?s (LOG_DEBUG SYS_LOG_MOD (cstr ''Flushed IDT'') [] ?s)"
    by (rule message_log_prints) simp
  ultimately have "prints ?s (idt_flush s)" by simp
  then obtain s' where "idt_flush s = Some s'" "tty.more s' = tty.more ?s"
    "tty_color s' = tty_color ?s" "wf_tty ?s \<Longrightarrow> wf_tty s'" "wf_tty ?s \<Longrightarrow> kernel_step ?s (Some s')"
    by (rule printsE) (rule that)
  then show thesis
    using that [of s'] by (simp add: kernel_step_def wf_tty_def)
qed

interpretation idt_flush: kernel_op idt_flush
  by unfold_locales (metis idt_flush_effect)

section \<open>Finding the stub of a gate\<close>

lemma find_unique:
  assumes "l \<in> set ls" "inj_on f (set ls)"
  shows "find (\<lambda>k. f k = f l) ls = Some l"
  using assms by (induction ls) (auto simp: inj_on_def)

lemma set_isr_labels: "set isr_labels = Isr_dispatch ` {..<32} \<union> Isr_user_stub ` {32..<288}"
  by (simp only: isr_labels_def set_append set_map set_upt atLeast0LessThan)

lemma dispatch_label_in: "i < 256 \<Longrightarrow> dispatch_label i \<in> set isr_labels"
  by (simp add: dispatch_label_def set_isr_labels)

lemma software_interrupt_stub:
  assumes "idt_entry s (unat n) = mk_gate (label_address s (dispatch_label (unat n))) sel 0"
    and "8 * unat n + 7 \<le> unat (idtr_limit (cpu_idtr s))" "idtr_base (cpu_idtr s) = idt_address s"
    and "inj_on (label_address s) (set isr_labels)" "sel AND 0xFFFC \<noteq> 0"
  shows "software_interrupt call n s = run_label call (dispatch_label (unat n)) s"
proof -
  have "unat n < 256" using unat_lt [of n] by simp
  from find_unique [OF dispatch_label_in [OF this] assms(4)] show ?thesis
    using assms by (simp add: software_interrupt_def gate_usable_def)
qed

lemma idt_ready:
  assumes "length (idt s) = IDT_MAX_ENTRIES"
  obtains s' where "idt_flush (idt_init s) = Some s'"
    "\<And>i. i < IDT_MAX_ENTRIES \<Longrightarrow> idt_entry s' i = mk_gate (label_address s (dispatch_label i)) 0x08 0"
    "cpu_idtr s' = \<lparr>idtr_limit = 2039, idtr_base = idt_address s\<rparr>" "idt_address s' = idt_address s"
    "label_address s' = label_address s" "isr_user_handlers s' = isr_user_handlers s"
    "gdt s' = gdt s" "gdtr s' = gdtr s" "segment_regs s' = segment_regs s"
    "wf_tty s \<Longrightarrow> wf_tty s'"
    "\<And>x. wf_tty s \<Longrightarrow> \<not> vga_byte x \<Longrightarrow> \<not> idt_tail (idt_address s) x \<Longrightarrow> memory s' x = memory s x" "intr.more s' = intr.more s"
    "log_current_level s' = log_current_level s" "length (idt s') = IDT_MAX_ENTRIES"
proof -
  note init = idt_init_effect [OF assms]
  note other = intr_other_cong [OF init(1)]
  obtain s' where s': "idt_flush (idt_init s) = Some s'"
    "tty.more s' = tty.more ((idt_init s)\<lparr>idtr := \<lparr>idtr_limit = 2039, idtr_base = idt_address (idt_init s)\<rparr>,
       cpu_idtr := \<lparr>idtr_limit = 2039, idtr_base = idt_address (idt_init s)\<rparr>\<rparr>)"
    "wf_tty (idt_init s) \<Longrightarrow> wf_tty s'" "wf_tty (idt_init s) \<Longrightarrow> kernel_step (idt_init s) (Some s')"
    by (rule idt_flush_effect) (rule that)
  note more = intr_more_cong [OF s'(2)] seg_more_cong [OF s'(2)]
  have entry: "idt_entry s' i = idt_entry (idt_init s) i" if "i < IDT_MAX_ENTRIES" for i
    using more that init(2) by (simp add: idt_entry_def)
  show thesis
  proof (rule that [of s'])
    show "idt_flush (idt_init s) = Some s'" by (rule s'(1))
    show "i < IDT_MAX_ENTRIES \<Longrightarrow> idt_entry s' i = mk_gate (label_address s (dispatch_label i)) 0x08 0" for i
      using init(3) by (simp add: entry stub_gate_def)
  qed (use more other init(2,4) s'(3,4) in \<open>simp_all add: kernel_step_def\<close>)
qed

section \<open>Properties\<close>

text \<open>
  C27: \<open>idt_init_interrupt_gate\<close> encodes an interrupt gate: whatever the descriptor held before,
  the processor reads back the offset, the selector and the low two bits of the privilege level,
  and the gate is present and of the type \<open>SEGMENT_GATE_INT_32\<close>.
\<close>

theorem interrupt_gate_fields:
  "gate_offset (idt_init_interrupt_gate desc offset sel dpl_bits) = offset \<and>
   idt_cs (idt_init_interrupt_gate desc offset sel dpl_bits) = sel \<and>
   gate_dpl (idt_init_interrupt_gate desc offset sel dpl_bits) = take_bit 2 dpl_bits \<and>
   gate_present (idt_init_interrupt_gate desc offset sel dpl_bits) \<and>
   uint (gate_type (idt_init_interrupt_gate desc offset sel dpl_bits)) = sys_gate_code SEGMENT_GATE_INT_32"
  by (simp add: idt_init_interrupt_gate_eq)

text \<open>
  C7: after \<open>idt_init\<close> and \<open>idt_flush\<close> a software interrupt below 255 is dispatched: the vectors
  of the processor's exceptions return at once, every other vector runs the handler registered
  for it, or nothing when there is none. The entry points have different addresses.
\<close>

theorem interrupt_dispatch:
  assumes "length (idt s) = IDT_MAX_ENTRIES" "inj_on (label_address s) (set isr_labels)" "n < 255"
  shows "\<exists>s'. idt_flush (idt_init s) = Some s' \<and> isr_user_handlers s' = isr_user_handlers s \<and>
    software_interrupt call n s' =
      (if n < 32 \<or> isr_user_handlers s ! unat n = 0 then Some s' else call (isr_user_handlers s ! unat n) s')"
proof -
  obtain s' where s': "idt_flush (idt_init s) = Some s'"
    "\<And>i. i < IDT_MAX_ENTRIES \<Longrightarrow> idt_entry s' i = mk_gate (label_address s (dispatch_label i)) 0x08 0"
    "cpu_idtr s' = \<lparr>idtr_limit = 2039, idtr_base = idt_address s\<rparr>" "idt_address s' = idt_address s"
    "label_address s' = label_address s" "isr_user_handlers s' = isr_user_handlers s"
    by (rule idt_ready [OF assms(1)]) (rule that)
  have n: "unat n < 255" using assms(3) by (simp add: word_less_nat_alt)
  have "software_interrupt call n s' = run_label call (dispatch_label (unat n)) s'"
    using s' n assms(2) by (intro software_interrupt_stub [where sel = "0x08"]) (simp_all add: IDT_MAX_ENTRIES_def)
  moreover have "n < 32 \<longleftrightarrow> unat n < 32" by (simp add: word_less_nat_alt)
  ultimately show ?thesis
    using s'(1,6) by (simp add: run_label_def dispatch_label_def generic_isr_dispatch_def isr_user_stub_def)
qed

definition stub_addresses :: "isr_label \<Rightarrow> u32" where
  "stub_addresses l =
     (case l of Isr_dispatch n \<Rightarrow> 0x100000 + 16 * of_nat n | Isr_user_stub n \<Rightarrow> 0x101000 + 16 * of_nat n)"

definition start_intr :: "intr" where
  "start_intr = seg.extend start_seg
     (intr.fields (replicate IDT_MAX_ENTRIES (mk_gate 0 0 0)) 0x107000
       \<lparr>idtr_limit = 0, idtr_base = 0\<rparr> \<lparr>idtr_limit = 0x3FF, idtr_base = 0\<rparr> stub_addresses
       ((replicate 256 0)[32 := 0x102000]))"

lemma start_intr_simps [simp]:
  "length (idt start_intr) = IDT_MAX_ENTRIES" "label_address start_intr = stub_addresses"
  "isr_user_handlers start_intr = (replicate 256 0)[32 := 0x102000]" "wf_tty start_intr"
  "length (gdt start_intr) = SEGMENT_GDT_NUM_ENTRIES"
  by (simp_all add: start_intr_def start_seg_def seg.defs intr.defs wf_tty_def vga_dims)

lemma stub_addresses_inj: "inj_on stub_addresses (set isr_labels)"
proof (rule inj_onI)
  have num: "unat (stub_addresses (Isr_dispatch n)) = 0x100000 + 16 * n"
    "unat (stub_addresses (Isr_user_stub n)) = 0x101000 + 16 * n" if "n < 288" for n
  proof -
    have "(16 * of_nat n :: u32) = of_nat (16 * n)" by simp
    then show "unat (stub_addresses (Isr_dispatch n)) = 0x100000 + 16 * n"
      "unat (stub_addresses (Isr_user_stub n)) = 0x101000 + 16 * n"
      using that unat_plus_of_nat [of "0x100000" "16 * n"] unat_plus_of_nat [of "0x101000" "16 * n"]
      by (simp_all add: stub_addresses_def)
  qed
  fix k l assume "k \<in> set isr_labels" "l \<in> set isr_labels" "stub_addresses k = stub_addresses l"
  then have "unat (stub_addresses k) = unat (stub_addresses l)" by simp
  then show "k = l"
    using \<open>k \<in> set isr_labels\<close> \<open>l \<in> set isr_labels\<close> unfolding set_isr_labels
    by (elim UnE imageE) (simp_all add: num)
qed

theorem interrupt_dispatch_witness:
  "\<exists>s'. idt_flush (idt_init start_intr) = Some s' \<and>
     software_interrupt (\<lambda>f s. if f = 0x102000 then Some (s\<lparr>tty_color := 0x1F\<rparr>) else None) 32 s' =
       Some (s'\<lparr>tty_color := 0x1F\<rparr>)"
proof -
  have "inj_on (label_address start_intr) (set isr_labels)" using stub_addresses_inj by simp
  from interrupt_dispatch [where s = start_intr and n = 32, OF _ this,
      where call = "\<lambda>f s. if f = 0x102000 then Some (s\<lparr>tty_color := 0x1F\<rparr>) else None"]
  show ?thesis by auto
qed

text \<open>
  C32: vector 255 is lost: \<open>idt_init\<close> writes its gate into the eight bytes of memory behind the table
  of 255 gates, whatever they hold, and nowhere else outside the table; and the limit of the IDT
  register excludes it, so that the interrupt faults even when a handler is registered.
\<close>

theorem vector_255_faults:
  assumes "length (idt s) = IDT_MAX_ENTRIES"
  shows "\<exists>s'. idt_flush (idt_init s) = Some s' \<and>
    load_gate (memory (idt_init s)) (idt_address s + 8 * 255) = mk_gate (label_address s (Isr_user_stub 255)) 0x08 0 \<and>
    (\<forall>x. \<not> in_region (idt_address s + 8 * 255) 8 x \<longrightarrow> memory (idt_init s) x = memory s x) \<and>
    software_interrupt call 255 s' = None"
proof -
  obtain s' where s': "idt_flush (idt_init s) = Some s'"
    "cpu_idtr s' = \<lparr>idtr_limit = 2039, idtr_base = idt_address s\<rparr>"
    by (rule idt_ready [OF assms]) (rule that)
  note init = idt_init_effect [OF assms]
  have "idt_entry (idt_init s) IDT_MAX_ENTRIES = load_gate (memory (idt_init s)) (idt_address s + 8 * 255)"
    using init(2) intr_other_cong(2) [OF init(1)] by (simp add: idt_entry_def idt_entry_address_def IDT_MAX_ENTRIES_def)
  moreover have "idt_entry (idt_init s) IDT_MAX_ENTRIES = mk_gate (label_address s (Isr_user_stub 255)) 0x08 0"
    using init(3) [of IDT_MAX_ENTRIES] by (simp add: stub_gate_def dispatch_label_def IDT_MAX_ENTRIES_def)
  moreover have "software_interrupt call 255 s' = None" using s'(2) by (simp add: software_interrupt_def)
  ultimately show ?thesis using s'(1) init(4) by (simp add: idt_tail_def)
qed

theorem vector_255_faults_witness:
  "\<exists>s'. idt_flush (idt_init start_intr) = Some s' \<and> software_interrupt (\<lambda>f. Some) 255 s' = None"
  using vector_255_faults [where s = start_intr and call = "\<lambda>f. Some"] by auto

text \<open>
  \<open>idt_register_handler\<close> registers the handler for every vector: the assertion that the vector
  is at least 32 prints a message and the function goes on, so that an exception vector is
  accepted as well.
\<close>

lemma register_handler_any_vector:
  "\<exists>s'. idt_register_handler vector handler s = Some s' \<and>
     tty.more s' = tty.more (s\<lparr>isr_user_handlers := (isr_user_handlers s)[unat vector := handler]\<rparr>) \<and>
     (s' = s\<lparr>isr_user_handlers := (isr_user_handlers s)[unat vector := handler]\<rparr> \<or> vector < 32)"
proof (cases "vector < 32")
  case True
  have "prints s (ASSERT (vector \<ge> 32) (cstr ''vector >= 32'') s)"
    using True unfolding ASSERT_def
    by (subst if_P) (simp, rule prints_kprintf, simp)
  then obtain s1 where "ASSERT (vector \<ge> 32) (cstr ''vector >= 32'') s = Some s1" "tty.more s1 = tty.more s"
    by (rule printsE) (rule that)
  then show ?thesis
    using True by (cases s; cases s1) (simp add: idt_register_handler_def)
next
  case False
  then show ?thesis by (simp add: idt_register_handler_def ASSERT_def not_less)
qed

end
