(* ===== verification/Ps2.thy ===== *)
theory Ps2
  imports Interrupt
begin

text \<open>
  The PS/2 controller driver, \<^verbatim>\<open>kernel/src/io/ps2/ps2.c\<close>. The controller behind the I/O ports
  is a parameter: two functions on a state of its own, which the port instructions of
  \<^verbatim>\<open>kernel/src/io/arch/i686/inout.c\<close> run. The accesses are also recorded, in order, in a
  trace that the code does not see.
\<close>

section \<open>Ports\<close>

record 'h port_device =
  dev_in :: "u16 \<Rightarrow> 'h \<Rightarrow> u8 \<times> 'h"
  dev_out :: "u16 \<Rightarrow> u8 \<Rightarrow> 'h \<Rightarrow> 'h"

datatype io_event = In u16 u8 | Out u16 u8

definition IO_PORT_PS2_DATA :: u16 where "IO_PORT_PS2_DATA = 0x60"
definition IO_PORT_PS2_STATUS :: u16 where "IO_PORT_PS2_STATUS = 0x64"
definition IO_PORT_PS2_COMMAND :: u16 where "IO_PORT_PS2_COMMAND = 0x64"

definition IO_COMMAND_PS2_DISABLE_1 :: u8 where "IO_COMMAND_PS2_DISABLE_1 = 0xAD"
definition IO_COMMAND_PS2_DISABLE_2 :: u8 where "IO_COMMAND_PS2_DISABLE_2 = 0xA7"
definition IO_COMMAND_PS2_ENABLE_1 :: u8 where "IO_COMMAND_PS2_ENABLE_1 = 0xAE"
definition IO_COMMAND_PS2_ENABLE_2 :: u8 where "IO_COMMAND_PS2_ENABLE_2 = 0xA8"
definition IO_COMMAND_PS2_TEST_CONTROLLER :: u8 where "IO_COMMAND_PS2_TEST_CONTROLLER = 0xAA"
definition IO_COMMAND_PS2_TEST_PORT_1 :: u8 where "IO_COMMAND_PS2_TEST_PORT_1 = 0xAB"
definition IO_COMMAND_PS2_TEST_PORT_2 :: u8 where "IO_COMMAND_PS2_TEST_PORT_2 = 0xA9"
definition IO_COMMAND_PS2_READ_CONFIG :: u8 where "IO_COMMAND_PS2_READ_CONFIG = 0x20"
definition IO_COMMAND_PS2_WRITE_CONFIG :: u8 where "IO_COMMAND_PS2_WRITE_CONFIG = 0x60"
definition IO_COMMAND_PS2_WRITE_PORT2_INPUT :: u8 where "IO_COMMAND_PS2_WRITE_PORT2_INPUT = 0xD4"

definition PS2_CONFIG_INTERRUPT_1_BIT :: u8 where "PS2_CONFIG_INTERRUPT_1_BIT = push_bit 0 1"
definition PS2_CONFIG_INTERRUPT_2_BIT :: u8 where "PS2_CONFIG_INTERRUPT_2_BIT = push_bit 1 1"
definition PS2_CONFIG_CLOCK_1_BIT :: u8 where "PS2_CONFIG_CLOCK_1_BIT = push_bit 4 1"
definition PS2_CONFIG_CLOCK_2_BIT :: u8 where "PS2_CONFIG_CLOCK_2_BIT = push_bit 5 1"
definition PS2_CONFIG_TRANSLATE_1_BIT :: u8 where "PS2_CONFIG_TRANSLATE_1_BIT = push_bit 5 1"

lemmas ps2_consts =
  IO_PORT_PS2_DATA_def IO_PORT_PS2_STATUS_def IO_PORT_PS2_COMMAND_def IO_COMMAND_PS2_DISABLE_1_def
  IO_COMMAND_PS2_DISABLE_2_def IO_COMMAND_PS2_ENABLE_1_def IO_COMMAND_PS2_ENABLE_2_def
  IO_COMMAND_PS2_TEST_CONTROLLER_def IO_COMMAND_PS2_TEST_PORT_1_def IO_COMMAND_PS2_TEST_PORT_2_def
  IO_COMMAND_PS2_READ_CONFIG_def IO_COMMAND_PS2_WRITE_CONFIG_def IO_COMMAND_PS2_WRITE_PORT2_INPUT_def
  PS2_CONFIG_INTERRUPT_1_BIT_def PS2_CONFIG_INTERRUPT_2_BIT_def PS2_CONFIG_CLOCK_1_BIT_def
  PS2_CONFIG_CLOCK_2_BIT_def PS2_CONFIG_TRANSLATE_1_BIT_def

section \<open>State\<close>

datatype ps2_device_type =
  ps2_device_type_unknown | ps2_device_type_none | ps2_device_type_00 | ps2_device_type_03

datatype ps2_device_status =
    ps2_device_status_not_connected | ps2_device_status_self_check_fail
  | ps2_device_status_no_device_id | ps2_device_status_okay

record ps2_device =
  device_type :: ps2_device_type
  device_status :: ps2_device_status
  is_port_1 :: bool

datatype ps2_error = ps2_error_none | ps2_error_timeout

text \<open>The value of an enumeration constant, as \<open>%u\<close> prints it.\<close>

fun device_type_code :: "ps2_device_type \<Rightarrow> u32" where
  "device_type_code ps2_device_type_unknown = 0"
| "device_type_code ps2_device_type_none = 1"
| "device_type_code ps2_device_type_00 = 2"
| "device_type_code ps2_device_type_03 = 3"

record 'h ps2 = intr +
  ps2_is_dual_channel :: bool
  ps2_is_port1_valid :: bool
  ps2_is_port2_valid :: bool
  ps2_device1 :: ps2_device
  ps2_device2 :: ps2_device
  hw :: 'h
  io_trace :: "io_event list"

text \<open>A pointer to one of the two device structures.\<close>

datatype device_ptr = Device1 | Device2

definition get_device :: "device_ptr \<Rightarrow> ('h, 'a) ps2_scheme \<Rightarrow> ps2_device" where
  "get_device p s = (case p of Device1 \<Rightarrow> ps2_device1 s | Device2 \<Rightarrow> ps2_device2 s)"

definition upd_device :: "device_ptr \<Rightarrow> (ps2_device \<Rightarrow> ps2_device) \<Rightarrow> ('h, 'a) ps2_scheme \<Rightarrow> ('h, 'a) ps2_scheme" where
  "upd_device p f s =
     (case p of Device1 \<Rightarrow> s\<lparr>ps2_device1 := f (ps2_device1 s)\<rparr> | Device2 \<Rightarrow> s\<lparr>ps2_device2 := f (ps2_device2 s)\<rparr>)"

section \<open>Port accesses\<close>

definition outb :: "'h port_device \<Rightarrow> u16 \<Rightarrow> u8 \<Rightarrow> ('h, 'a) ps2_scheme \<Rightarrow> ('h, 'a) ps2_scheme" where
  "outb dev port v s = s\<lparr>hw := dev_out dev port v (hw s), io_trace := io_trace s @ [Out port v]\<rparr>"

definition inb :: "'h port_device \<Rightarrow> u16 \<Rightarrow> ('h, 'a) ps2_scheme \<Rightarrow> u8 \<times> ('h, 'a) ps2_scheme" where
  "inb dev port s =
     (let (v, h) = dev_in dev port (hw s) in (v, s\<lparr>hw := h, io_trace := io_trace s @ [In port v]\<rparr>))"

definition ps2_write_data :: "'h port_device \<Rightarrow> u8 \<Rightarrow> ('h, 'a) ps2_scheme \<Rightarrow> ('h, 'a) ps2_scheme" where
  "ps2_write_data dev data s = outb dev IO_PORT_PS2_DATA data s"

definition ps2_read_data :: "'h port_device \<Rightarrow> ('h, 'a) ps2_scheme \<Rightarrow> u8 \<times> ('h, 'a) ps2_scheme" where
  "ps2_read_data dev s = inb dev IO_PORT_PS2_DATA s"

definition ps2_write_command :: "'h port_device \<Rightarrow> u8 \<Rightarrow> ('h, 'a) ps2_scheme \<Rightarrow> ('h, 'a) ps2_scheme" where
  "ps2_write_command dev data s = outb dev IO_PORT_PS2_COMMAND data s"

definition ps2_read_status :: "'h port_device \<Rightarrow> ('h, 'a) ps2_scheme \<Rightarrow> u8 \<times> ('h, 'a) ps2_scheme" where
  "ps2_read_status dev s = inb dev IO_PORT_PS2_STATUS s"

text \<open>The tests of the two status bits and the loops that wait for them.\<close>

definition ps2_input_ready :: "'h port_device \<Rightarrow> ('h, 'a) ps2_scheme \<Rightarrow> bool \<times> ('h, 'a) ps2_scheme" where
  "ps2_input_ready dev s = (let (status, s) = ps2_read_status dev s in (NOT status AND 0x02 \<noteq> 0, s))"

definition ps2_output_ready :: "'h port_device \<Rightarrow> ('h, 'a) ps2_scheme \<Rightarrow> bool \<times> ('h, 'a) ps2_scheme" where
  "ps2_output_ready dev s = (let (status, s) = ps2_read_status dev s in (status AND 0x01 \<noteq> 0, s))"

text \<open>\<^verbatim>\<open>while (!ready() && timeout-- > 0);\<close> returns the last value of \<open>timeout\<close>.\<close>

function wait_loop ::
  "(('h, 'a) ps2_scheme \<Rightarrow> bool \<times> ('h, 'a) ps2_scheme) \<Rightarrow> int \<Rightarrow> ('h, 'a) ps2_scheme \<Rightarrow> int \<times> ('h, 'a) ps2_scheme"
where
  "wait_loop ready timeout s =
     (let (r, s) = ready s
      in if r then (timeout, s)
         else if timeout > 0 then wait_loop ready (timeout - 1) s else (timeout - 1, s))"
  by pat_completeness auto
termination
  by (relation "measure (\<lambda>(ready, timeout, s). nat timeout)") auto

declare wait_loop.simps [simp del]

definition ps2_wait_input_ready :: "'h port_device \<Rightarrow> ('h, 'a) ps2_scheme \<Rightarrow> ps2_error \<times> ('h, 'a) ps2_scheme" where
  "ps2_wait_input_ready dev s =
     (let (timeout, s) = wait_loop (ps2_input_ready dev) 100000000 s
      in (if timeout \<le> 0 then ps2_error_timeout else ps2_error_none, s))"

definition ps2_wait_output_ready :: "'h port_device \<Rightarrow> ('h, 'a) ps2_scheme \<Rightarrow> ps2_error \<times> ('h, 'a) ps2_scheme" where
  "ps2_wait_output_ready dev s =
     (let (timeout, s) = wait_loop (ps2_output_ready dev) 10000 s
      in (if timeout \<le> 0 then ps2_error_timeout else ps2_error_none, s))"

text \<open>
  The sequences the driver is made of: a command, a data byte or a data read after the
  corresponding wait, whose error the driver drops.
\<close>

definition command_when_ready :: "'h port_device \<Rightarrow> u8 \<Rightarrow> ('h, 'a) ps2_scheme \<Rightarrow> ('h, 'a) ps2_scheme" where
  "command_when_ready dev c s = ps2_write_command dev c (snd (ps2_wait_input_ready dev s))"

definition data_when_ready :: "'h port_device \<Rightarrow> u8 \<Rightarrow> ('h, 'a) ps2_scheme \<Rightarrow> ('h, 'a) ps2_scheme" where
  "data_when_ready dev c s = ps2_write_data dev c (snd (ps2_wait_input_ready dev s))"

definition read_when_ready :: "'h port_device \<Rightarrow> ('h, 'a) ps2_scheme \<Rightarrow> u8 \<times> ('h, 'a) ps2_scheme" where
  "read_when_ready dev s = ps2_read_data dev (snd (ps2_wait_output_ready dev s))"

section \<open>Controller\<close>

definition ps2_check_dual_channel :: "'h port_device \<Rightarrow> ('h, 'a) ps2_scheme \<Rightarrow> ('h, 'a) ps2_scheme option" where
  "ps2_check_dual_channel dev s = do {
     let s = command_when_ready dev IO_COMMAND_PS2_ENABLE_2 s;
     let s = command_when_ready dev IO_COMMAND_PS2_READ_CONFIG s;
     let (config, s) = read_when_ready dev s;
     let s = s\<lparr>ps2_is_dual_channel := (NOT config AND PS2_CONFIG_CLOCK_2_BIT \<noteq> 0)\<rparr>;
     s \<leftarrow> kprintf (cstr ''ps/2: dual channel: %s\<newline>'') [BOOL_YES_NO (ps2_is_dual_channel s)] s;
     if ps2_is_dual_channel s
     then (let s = command_when_ready dev IO_COMMAND_PS2_DISABLE_2 s;
               s = command_when_ready dev IO_COMMAND_PS2_READ_CONFIG s;
               (config, s) = read_when_ready dev s;
               config = config AND NOT (PS2_CONFIG_INTERRUPT_2_BIT OR PS2_CONFIG_CLOCK_2_BIT);
               s = command_when_ready dev IO_COMMAND_PS2_WRITE_CONFIG s
           in Some (data_when_ready dev config s))
     else Some s
   }"

text \<open>The body of the loop over the two ports; \<open>set_flag\<close> is the assignment through \<open>okay_flags\<close>.\<close>

definition ps2_port_self_check ::
  "'h port_device \<Rightarrow> u32 \<Rightarrow> u8 \<Rightarrow> (bool \<Rightarrow> ('h, 'a) ps2_scheme \<Rightarrow> ('h, 'a) ps2_scheme) \<Rightarrow>
   ('h, 'a) ps2_scheme \<Rightarrow> ('h, 'a) ps2_scheme option" where
  "ps2_port_self_check dev port_idx cmd set_flag s = do {
     let s = command_when_ready dev cmd s;
     let (response, s) = read_when_ready dev s;
     let port_okay = (response = 0x00);
     let s = set_flag port_okay s;
     kprintf (cstr ''ps/2: port %u self-check okay: %s (response=0x%x)\<newline>'')
       [VWord (port_idx + 1), BOOL_YES_NO port_okay, VWord (ucast response)] s
   }"

definition ps2_ports_self_check :: "'h port_device \<Rightarrow> ('h, 'a) ps2_scheme \<Rightarrow> ('h, 'a) ps2_scheme option" where
  "ps2_ports_self_check dev s = do {
     s \<leftarrow> ps2_port_self_check dev 0 IO_COMMAND_PS2_TEST_PORT_1 (\<lambda>b s. s\<lparr>ps2_is_port1_valid := b\<rparr>) s;
     ps2_port_self_check dev 1 IO_COMMAND_PS2_TEST_PORT_2 (\<lambda>b s. s\<lparr>ps2_is_port2_valid := b\<rparr>) s
   }"

definition ps2_enable_ports :: "'h port_device \<Rightarrow> ('h, 'a) ps2_scheme \<Rightarrow> ('h, 'a) ps2_scheme option" where
  "ps2_enable_ports dev s =
     (let s = (if ps2_is_port1_valid s then command_when_ready dev IO_COMMAND_PS2_ENABLE_1 s else s);
          s = (if ps2_is_port2_valid s then command_when_ready dev IO_COMMAND_PS2_ENABLE_2 s else s);
          s = command_when_ready dev IO_COMMAND_PS2_READ_CONFIG s;
          (config, s) = read_when_ready dev s;
          config = (if ps2_is_port1_valid s then config OR PS2_CONFIG_INTERRUPT_1_BIT else config);
          config = (if ps2_is_port2_valid s then config OR PS2_CONFIG_INTERRUPT_2_BIT else config);
          s = command_when_ready dev IO_COMMAND_PS2_WRITE_CONFIG s;
          s = data_when_ready dev config s
      in kprintf (cstr ''ps/2: ports enabled (1: %s, 2: %s)\<newline>'')
           [BOOL_YES_NO (ps2_is_port1_valid s), BOOL_YES_NO (ps2_is_port2_valid s)] s)"

section \<open>Devices\<close>

definition ps2_device_write_data ::
  "'h port_device \<Rightarrow> device_ptr \<Rightarrow> u8 \<Rightarrow> ('h, 'a) ps2_scheme \<Rightarrow> ps2_error \<times> ('h, 'a) ps2_scheme" where
  "ps2_device_write_data dev device data s =
     (let (error, s) =
        (if \<not> is_port_1 (get_device device s)
         then (let (error, s) = ps2_wait_input_ready dev s
               in if error \<noteq> ps2_error_none then (error, s)
                  else (ps2_error_none, ps2_write_command dev IO_COMMAND_PS2_WRITE_PORT2_INPUT s))
         else (ps2_error_none, s))
      in if error \<noteq> ps2_error_none then (error, s)
         else (let (error, s) = ps2_wait_input_ready dev s
               in if error \<noteq> ps2_error_none then (error, s)
                  else (ps2_error_none, ps2_write_data dev data s)))"

text \<open>The result is stored through a pointer, which keeps its old value on a timeout.\<close>

definition ps2_device_read_data ::
  "'h port_device \<Rightarrow> u8 \<Rightarrow> ('h, 'a) ps2_scheme \<Rightarrow> (ps2_error \<times> u8) \<times> ('h, 'a) ps2_scheme" where
  "ps2_device_read_data dev data s =
     (let (error, s) = ps2_wait_output_ready dev s
      in if error \<noteq> ps2_error_none then ((error, data), s)
         else (let (data, s) = ps2_read_data dev s in ((ps2_error_none, data), s)))"

definition PS2_LOG :: "u8 list \<Rightarrow> va_arg list \<Rightarrow> ('h, 'a) ps2_scheme \<Rightarrow> ('h, 'a) ps2_scheme option" where
  "PS2_LOG msg va s = kprintf (cstr ''ps/2: '' @ msg @ cstr ''\<newline>'') va s"

definition PS2_LOG_DEV ::
  "device_ptr \<Rightarrow> u8 list \<Rightarrow> va_arg list \<Rightarrow> ('h, 'a) ps2_scheme \<Rightarrow> ('h, 'a) ps2_scheme option" where
  "PS2_LOG_DEV device msg va s =
     kprintf (cstr ''ps/2 (dev %u): '' @ msg @ cstr ''\<newline>'')
       (VWord (if is_port_1 (get_device device s) then 1 else 2) # va) s"

text \<open>A failure to reset: the message and the status; the empty string is the macro's last argument.\<close>

definition reset_fails ::
  "device_ptr \<Rightarrow> u8 list \<Rightarrow> ps2_device_status \<Rightarrow> ('h, 'a) ps2_scheme \<Rightarrow> ('h, 'a) ps2_scheme option" where
  "reset_fails device msg status s = do {
     s \<leftarrow> PS2_LOG_DEV device msg [VStr 0 []] s;
     Some (upd_device device (device_status_update (\<lambda>_. status)) s)
   }"

text \<open>From the successful self-check on: the identification of the device.\<close>

definition ps2_identify_device ::
  "'h port_device \<Rightarrow> device_ptr \<Rightarrow> ('h, 'a) ps2_scheme \<Rightarrow> ('h, 'a) ps2_scheme option" where
  "ps2_identify_device dev device s = do {
     let ((error, device_id_1), s) = ps2_device_read_data dev 0 s;
     let ((error, device_id_2), s) =
       (if error \<noteq> ps2_error_timeout then ps2_device_read_data dev 0 s else ((error, 0), s));
     let s = upd_device device (device_status_update (\<lambda>_. ps2_device_status_okay)) s;
     let device_id = (push_bit 8 (ucast device_id_2) OR ucast device_id_1 :: u16);
     s \<leftarrow> (if device_id = 0x00
          then Some (upd_device device (device_type_update (\<lambda>_. ps2_device_type_00)) s)
          else do {
            s \<leftarrow> PS2_LOG (cstr ''WARN: unknown device id 0x%x'') [VWord (ucast device_id)] s;
            Some (upd_device device (device_type_update (\<lambda>_. ps2_device_type_unknown)) s)
          });
     PS2_LOG_DEV device (cstr ''initialized with type %u'')
       [VWord (device_type_code (device_type (get_device device s)))] s
   }"

definition ps2_reset_device ::
  "'h port_device \<Rightarrow> device_ptr \<Rightarrow> ('h, 'a) ps2_scheme \<Rightarrow> ('h, 'a) ps2_scheme option" where
  "ps2_reset_device dev device s =
     (let s = upd_device device (device_status_update (\<lambda>_. ps2_device_status_not_connected)) s;
          (_, s) = ps2_device_write_data dev device 0xFF s;
          ((error, out1), s) = ps2_device_read_data dev 0 s
      in if error = ps2_error_timeout
         then reset_fails device (cstr ''not connected'') ps2_device_status_not_connected s
         else (let response = (ucast out1 :: u16)
               in if response = 0xFC
                  then reset_fails device (cstr ''self-check fail 1'') ps2_device_status_self_check_fail s
                  else (let ((error, out2), s) = ps2_device_read_data dev out1 s
                        in if error = ps2_error_timeout
                           then reset_fails device (cstr ''self-check fail 2'') ps2_device_status_self_check_fail s
                           else (let response = response OR push_bit 8 (ucast out2);
                                     reset_okay = (response = 0xAAFA \<or> response = 0xFAAA)
                                 in if \<not> reset_okay
                                    then reset_fails device (cstr ''self-check fail 3'')
                                           ps2_device_status_self_check_fail s
                                    else ps2_identify_device dev device s))))"

definition ps2_reset_devices :: "'h port_device \<Rightarrow> ('h, 'a) ps2_scheme \<Rightarrow> ('h, 'a) ps2_scheme option" where
  "ps2_reset_devices dev s = do {
     s \<leftarrow> ps2_reset_device dev Device1 s;
     ps2_reset_device dev Device2 s
   }"

section \<open>Initialisation\<close>

text \<open>
  \<open>ps2_init\<close> up to the controller's self-check: the ports are disabled, the output buffer is
  flushed, and the configuration is read, changed and written; the result is the new
  configuration. Two of the commands are written without waiting.
\<close>

definition ps2_configure :: "'h port_device \<Rightarrow> ('h, 'a) ps2_scheme \<Rightarrow> u8 \<times> ('h, 'a) ps2_scheme" where
  "ps2_configure dev s =
     (let s = command_when_ready dev IO_COMMAND_PS2_DISABLE_1 s;
          s = command_when_ready dev IO_COMMAND_PS2_DISABLE_2 s;
          (_, s) = ps2_read_data dev s;
          s = ps2_write_command dev IO_COMMAND_PS2_READ_CONFIG s;
          (config, s) = read_when_ready dev s;
          config = config AND
            NOT (PS2_CONFIG_TRANSLATE_1_BIT OR PS2_CONFIG_CLOCK_1_BIT OR PS2_CONFIG_INTERRUPT_1_BIT);
          s = ps2_write_command dev IO_COMMAND_PS2_WRITE_CONFIG s;
          s = data_when_ready dev config s;
          s = command_when_ready dev IO_COMMAND_PS2_READ_CONFIG s;
          (config_readback, s) = read_when_ready dev s
      in (config, s))"

definition ps2_init :: "'h port_device \<Rightarrow> ('h, 'a) ps2_scheme \<Rightarrow> ('h, 'a) ps2_scheme option" where
  "ps2_init dev s = do {
     let (config, s) = ps2_configure dev s;
     let s = command_when_ready dev IO_COMMAND_PS2_TEST_CONTROLLER s;
     let (self_check_status, s) = read_when_ready dev s;
     s \<leftarrow> kprintf (cstr ''ps/2: controller self-check passed: %s (response=0x%x)\<newline>'')
            [BOOL_YES_NO (self_check_status = 0x55), VWord (ucast self_check_status)] s;
     if 0x55 \<noteq> self_check_status
     then kprintf (cstr ''ps/2: failed to initialize\<newline>'') [] s
     else do {
       let s = command_when_ready dev IO_COMMAND_PS2_WRITE_CONFIG s;
       let s = data_when_ready dev config s;
       s \<leftarrow> ps2_check_dual_channel dev s;
       s \<leftarrow> ps2_ports_self_check dev s;
       if \<not> ps2_is_port1_valid s \<and> \<not> ps2_is_port2_valid s
       then kprintf (cstr ''ps/2: failed to initialize\<newline>'') [] s
       else do {
         s \<leftarrow> ps2_enable_ports dev s;
         s \<leftarrow> ps2_reset_devices dev s;
         kprintf (cstr ''ps/2: init done\<newline>'') [] s
       }
     }
   }"

end
