(* ===== verification/Ps2_Props.thy ===== *)
theory Ps2_Props
  imports Ps2
begin

text \<open>
  What the PS/2 driver does at the ports, for every controller: the wait loops end, the bytes
  the driver writes are determined by the bytes it reads, the results of the self-checks are
  recorded as the controller gave them, and every operation keeps the console contract.
\<close>

section \<open>Traces\<close>

text \<open>The writes of a trace and the bytes read from the data port.\<close>

fun writes :: "io_event list \<Rightarrow> io_event list" where
  "writes [] = []"
| "writes (In p v # t) = writes t"
| "writes (Out p v # t) = Out p v # writes t"

fun replies :: "io_event list \<Rightarrow> u8 list" where
  "replies [] = []"
| "replies (In p v # t) = (if p = IO_PORT_PS2_DATA then v # replies t else replies t)"
| "replies (Out p v # t) = replies t"

lemma trace_append [simp]:
  "writes (t @ u) = writes t @ writes u" "replies (t @ u) = replies t @ replies u"
  by (induction t rule: writes.induct) simp_all

text \<open>
  \<open>s'\<close> differs from \<open>s\<close> by port accesses only, with the given writes and replies.
\<close>

definition io_steps :: "('h, 'a) ps2_scheme \<Rightarrow> ('h, 'a) ps2_scheme \<Rightarrow> io_event list \<Rightarrow> u8 list \<Rightarrow> bool" where
  "io_steps s s' ws rs \<longleftrightarrow>
     (\<exists>h t. s' = s\<lparr>hw := h, io_trace := io_trace s @ t\<rparr> \<and> writes t = ws \<and> replies t = rs)"

lemma io_stepsI: "s' = s\<lparr>hw := h, io_trace := io_trace s @ t\<rparr> \<Longrightarrow> writes t = ws \<Longrightarrow> replies t = rs \<Longrightarrow>
    io_steps s s' ws rs"
  by (auto simp: io_steps_def)

lemma io_steps_refl: "io_steps s s [] []"
  by (rule io_stepsI [where h = "hw s" and t = "[]"]) simp_all

lemma io_steps_trans:
  assumes "io_steps s t ws rs" "io_steps t u ws' rs'"
  shows "io_steps s u (ws @ ws') (rs @ rs')"
  using assms unfolding io_steps_def by force

lemma io_steps_frame:
  assumes "io_steps s s' ws rs"
  shows "wf_tty s' = wf_tty s" "memory s' = memory s" "tty_color s' = tty_color s"
    "ps2_is_dual_channel s' = ps2_is_dual_channel s" "ps2_is_port1_valid s' = ps2_is_port1_valid s"
    "ps2_is_port2_valid s' = ps2_is_port2_valid s" "ps2_device1 s' = ps2_device1 s"
    "ps2_device2 s' = ps2_device2 s" "get_device p s' = get_device p s"
    "writes (io_trace s') = writes (io_trace s) @ ws" "replies (io_trace s') = replies (io_trace s) @ rs"
  using assms by (auto simp: io_steps_def wf_tty_def get_device_def split: device_ptr.split)

text \<open>A program that only uses the ports and writes the same bytes from every state.\<close>

locale port_program =
  fixes run :: "('h, 'a) ps2_scheme \<Rightarrow> 'b \<times> ('h, 'a) ps2_scheme"
    and sent :: "io_event list" and received :: "'b \<Rightarrow> u8 list"
  assumes run_steps: "run s = (r, s') \<Longrightarrow> io_steps s s' sent (received r)"
begin

lemma run_frame: "run s = (r, s') \<Longrightarrow> wf_tty s' = wf_tty s \<and> memory s' = memory s"
  using io_steps_frame(1,2) [OF run_steps] by blast

lemma run_then: "io_steps t s ws rs \<Longrightarrow> run s = (r, s') \<Longrightarrow> io_steps t s' (ws @ sent) (rs @ received r)"
  by (rule io_steps_trans [OF _ run_steps])

end

lemma inb_steps: "inb dev p s = (v, s') \<Longrightarrow> io_steps s s' [] (if p = IO_PORT_PS2_DATA then [v] else [])"
  by (cases "dev_in dev p (hw s)")
     (auto simp: inb_def intro!: io_stepsI [where t = "[In p v]"])

lemma outb_steps: "io_steps s (outb dev p v s) [Out p v] []"
  by (rule io_stepsI [where h = "dev_out dev p v (hw s)" and t = "[Out p v]"]) (simp_all add: outb_def)

lemma status_port: "IO_PORT_PS2_STATUS \<noteq> IO_PORT_PS2_DATA"
  by (simp add: IO_PORT_PS2_STATUS_def IO_PORT_PS2_DATA_def)

interpretation input_ready: port_program "ps2_input_ready dev" "[]" "\<lambda>_. []" for dev
  using inb_steps [of dev IO_PORT_PS2_STATUS]
  by unfold_locales (fastforce simp: ps2_input_ready_def ps2_read_status_def status_port split: prod.splits)

interpretation output_ready: port_program "ps2_output_ready dev" "[]" "\<lambda>_. []" for dev
  using inb_steps [of dev IO_PORT_PS2_STATUS]
  by unfold_locales (fastforce simp: ps2_output_ready_def ps2_read_status_def status_port split: prod.splits)

lemma wait_loop_steps:
  assumes "\<And>s r s'. ready s = (r, s') \<Longrightarrow> io_steps s s' [] []" "wait_loop ready timeout s = (t, s')"
  shows "io_steps s s' [] []"
  using assms(2)
proof (induction "nat timeout" arbitrary: timeout s)
  case (0 timeout s)
  then show ?case
    using assms(1) by (auto simp: wait_loop.simps [of ready timeout s] split: prod.splits if_splits)
next
  case (Suc n timeout s)
  obtain r s1 where r: "ready s = (r, s1)" by (cases "ready s")
  show ?case
  proof (cases r)
    case True
    then show ?thesis
      using Suc.prems r assms(1) [OF r] by (simp add: wait_loop.simps [of ready timeout s])
  next
    case False
    moreover have "timeout > 0" using Suc.hyps(2) by linarith
    ultimately have "wait_loop ready (timeout - 1) s1 = (t, s')"
      using Suc.prems r by (simp add: wait_loop.simps [of ready timeout s])
    then have "io_steps s1 s' [] []" using Suc.hyps by (intro Suc.hyps(1)) auto
    then show ?thesis using io_steps_trans [OF assms(1) [OF r]] by simp
  qed
qed

interpretation wait_input: port_program "ps2_wait_input_ready dev" "[]" "\<lambda>_. []" for dev
  using wait_loop_steps [of "ps2_input_ready dev", OF input_ready.run_steps]
  by unfold_locales (auto simp: ps2_wait_input_ready_def split: prod.splits)

interpretation wait_output: port_program "ps2_wait_output_ready dev" "[]" "\<lambda>_. []" for dev
  using wait_loop_steps [of "ps2_output_ready dev", OF output_ready.run_steps]
  by unfold_locales (auto simp: ps2_wait_output_ready_def split: prod.splits)

interpretation read_data: port_program "ps2_read_data dev" "[]" "\<lambda>v. [v]" for dev
  using inb_steps [of dev IO_PORT_PS2_DATA] by unfold_locales (auto simp: ps2_read_data_def)

interpretation read_ready: port_program "read_when_ready dev" "[]" "\<lambda>v. [v]" for dev
proof
  fix s :: "('a, 'b) ps2_scheme" and r s'
  assume *: "read_when_ready dev s = (r, s')"
  obtain e s1 where "ps2_wait_output_ready dev s = (e, s1)" by (cases "ps2_wait_output_ready dev s")
  then show "io_steps s s' [] [r]"
    using * read_data.run_then [OF wait_output.run_steps] by (auto simp: read_when_ready_def)
qed

lemma write_steps:
  "io_steps s (ps2_write_command dev c s) [Out 0x64 c] []"
  "io_steps s (ps2_write_data dev c s) [Out 0x60 c] []"
  using outb_steps [of s dev] by (simp_all add: ps2_write_command_def ps2_write_data_def ps2_consts)

lemma wait_input_steps: "io_steps s (snd (ps2_wait_input_ready dev s)) [] []"
  by (rule wait_input.run_steps [where r = "fst (ps2_wait_input_ready dev s)"]) simp

lemma command_steps: "io_steps s (command_when_ready dev c s) [Out 0x64 c] []"
  using io_steps_trans [OF wait_input_steps write_steps(1)] by (simp add: command_when_ready_def)

lemma data_steps: "io_steps s (data_when_ready dev c s) [Out 0x60 c] []"
  using io_steps_trans [OF wait_input_steps write_steps(2)] by (simp add: data_when_ready_def)

text \<open>The same steps behind others, as the sequences of the driver compose them.\<close>

lemmas io_after =
  io_steps_trans [OF _ command_steps] io_steps_trans [OF _ data_steps]
  io_steps_trans [OF _ write_steps(1)] io_steps_trans [OF _ write_steps(2)]

section \<open>Ports and console together\<close>

lemma ps2_more_cong:
  assumes "tty.more s = tty.more t"
  shows "ps2_is_dual_channel s = ps2_is_dual_channel t" "ps2_is_port1_valid s = ps2_is_port1_valid t"
    "ps2_is_port2_valid s = ps2_is_port2_valid t" "ps2_device1 s = ps2_device1 t"
    "ps2_device2 s = ps2_device2 t" "hw s = hw t" "io_trace s = io_trace t"
    "get_device p s = get_device p t"
  using assms by (cases s; cases t; simp add: get_device_def split: device_ptr.split)+

text \<open>The state of the other components, which the driver leaves alone.\<close>

definition system_tables where
  "system_tables s = (gdt s, gdtr s, segment_regs s, (idt s, idt_address s, cpu_idtr s),
     label_address s, isr_user_handlers s, log_current_level s, ps2.more s)"

lemma system_tables_update [simp]:
  "system_tables (s\<lparr>ps2_is_dual_channel := b\<rparr>) = system_tables s"
  "system_tables (s\<lparr>ps2_is_port1_valid := b\<rparr>) = system_tables s"
  "system_tables (s\<lparr>ps2_is_port2_valid := b\<rparr>) = system_tables s"
  "system_tables (s\<lparr>ps2_device1 := d\<rparr>) = system_tables s"
  "system_tables (s\<lparr>ps2_device2 := d\<rparr>) = system_tables s"
  "system_tables (s\<lparr>hw := h, io_trace := t\<rparr>) = system_tables s"
  "system_tables (upd_device p f s) = system_tables s"
  by (simp_all add: system_tables_def upd_device_def split: device_ptr.split)

lemma system_tables_more: "tty.more s = tty.more t \<Longrightarrow> system_tables s = system_tables t"
  by (cases s; cases t; simp add: system_tables_def)

text \<open>
  A part of the driver takes \<open>s\<close> to \<open>s'\<close> within the console contract, with the given writes and
  replies at the ports.
\<close>

definition drives :: "('h, 'a) ps2_scheme \<Rightarrow> ('h, 'a) ps2_scheme \<Rightarrow> io_event list \<Rightarrow> u8 list \<Rightarrow> bool" where
  "drives s s' ws rs \<longleftrightarrow>
     (wf_tty s \<longrightarrow> kernel_step s (Some s')) \<and> system_tables s' = system_tables s \<and>
     writes (io_trace s') = writes (io_trace s) @ ws \<and> replies (io_trace s') = replies (io_trace s) @ rs"

lemma drives_refl: "drives s s [] []"
  by (simp add: drives_def)

lemma drives_trans: "drives s t ws rs \<Longrightarrow> drives t u ws' rs' \<Longrightarrow> drives s u (ws @ ws') (rs @ rs')"
  by (auto simp: drives_def kernel_step_def)

lemma drives_io: "io_steps s s' ws rs \<Longrightarrow> drives s s' ws rs"
  using io_steps_frame [of s s' ws rs] by (auto simp: drives_def kernel_step_def io_steps_def)

lemma drives_update:
  "memory s' = memory s \<Longrightarrow> wf_tty s' = wf_tty s \<Longrightarrow> io_trace s' = io_trace s \<Longrightarrow>
   system_tables s' = system_tables s \<Longrightarrow> drives s s' [] []"
  by (simp add: drives_def kernel_step_def)

lemma drives_prints:
  assumes "prints s r"
  obtains s' where "r = Some s'" "tty.more s' = tty.more s" "drives s s' [] []"
proof -
  obtain s' where s': "r = Some s'" "tty.more s' = tty.more s" "tty_color s' = tty_color s"
    "wf_tty s \<Longrightarrow> wf_tty s'" "wf_tty s \<Longrightarrow> kernel_step s (Some s')"
    using assms by (rule printsE) (rule that)
  then have "drives s s' [] []" using ps2_more_cong(7) [OF s'(2)] system_tables_more [OF s'(2)] by (simp add: drives_def)
  with that s'(1,2) show thesis by blast
qed

text \<open>The formats of the driver have a text whatever the values printed.\<close>

lemma format_text_append_literal:
  "literal cs \<Longrightarrow> format_text (cs @ fmt) va \<noteq> None \<longleftrightarrow> format_text fmt va \<noteq> None"
  by (simp add: format_text_literal_append)

lemma port_message: "prints s (kprintf (cstr ''ps/2: port %u self-check okay: %s (response=0x%x)\<newline>'')
    [VWord i, BOOL_YES_NO b, VWord v] s)"
  by (intro prints_kprintf) (simp add: format_eval)

lemma dual_message: "prints s (kprintf (cstr ''ps/2: dual channel: %s\<newline>'') [BOOL_YES_NO b] s)"
  by (intro prints_kprintf) (simp add: format_eval)

lemma enabled_message: "prints s (kprintf (cstr ''ps/2: ports enabled (1: %s, 2: %s)\<newline>'')
    [BOOL_YES_NO b, BOOL_YES_NO c] s)"
  by (intro prints_kprintf) (simp add: format_eval)

lemma controller_message: "prints s (kprintf
    (cstr ''ps/2: controller self-check passed: %s (response=0x%x)\<newline>'') [BOOL_YES_NO b, VWord v] s)"
  by (intro prints_kprintf) (simp add: format_eval)

section \<open>The phases of the controller\<close>

lemma port_self_check_effect:
  assumes "\<And>b s. memory (set_flag b s) = memory s \<and> wf_tty (set_flag b s) = wf_tty s \<and>
    io_trace (set_flag b s) = io_trace s \<and> system_tables (set_flag b s) = system_tables s"
  obtains r s1 s' where "ps2_port_self_check dev i cmd set_flag s = Some s'"
    "drives s s' [Out 0x64 cmd] [r]" "io_steps s s1 [Out 0x64 cmd] [r]"
    "tty.more s' = tty.more (set_flag (r = 0) s1)"
proof -
  let ?t = "command_when_ready dev cmd s"
  obtain r s1 where r: "read_when_ready dev ?t = (r, s1)" by (cases "read_when_ready dev ?t")
  have io: "io_steps s s1 [Out 0x64 cmd] [r]"
    using read_ready.run_then [OF command_steps r] by simp
  obtain s' where s': "kprintf (cstr ''ps/2: port %u self-check okay: %s (response=0x%x)\<newline>'')
      [VWord (i + 1), BOOL_YES_NO (r = 0), VWord (ucast r)] (set_flag (r = 0) s1) = Some s'"
    "tty.more s' = tty.more (set_flag (r = 0) s1)" "drives (set_flag (r = 0) s1) s' [] []"
    by (rule drives_prints [OF port_message]) (rule that)
  have upd: "drives s1 (set_flag (r = 0) s1) [] []" using assms by (intro drives_update) simp_all
  have "ps2_port_self_check dev i cmd set_flag s = Some s'"
    unfolding ps2_port_self_check_def Let_def r prod.case using s'(1) by simp
  moreover have "drives s s' [Out 0x64 cmd] [r]"
    using drives_trans [OF drives_trans [OF drives_io [OF io] upd] s'(3)] by simp
  ultimately show thesis using that io s'(2) by blast
qed

lemma ports_self_check_effect:
  obtains r1 r2 s' where "ps2_ports_self_check dev s = Some s'"
    "drives s s' [Out 0x64 0xAB, Out 0x64 0xA9] [r1, r2]"
    "ps2_is_port1_valid s' \<longleftrightarrow> r1 = 0" "ps2_is_port2_valid s' \<longleftrightarrow> r2 = 0"
    "ps2_device1 s' = ps2_device1 s" "ps2_device2 s' = ps2_device2 s"
proof -
  obtain r1 t1 s1 where 1:
    "ps2_port_self_check dev 0 IO_COMMAND_PS2_TEST_PORT_1 (\<lambda>b s. s\<lparr>ps2_is_port1_valid := b\<rparr>) s = Some s1"
    "drives s s1 [Out 0x64 IO_COMMAND_PS2_TEST_PORT_1] [r1]" "io_steps s t1 [Out 0x64 IO_COMMAND_PS2_TEST_PORT_1] [r1]"
    "tty.more s1 = tty.more (t1\<lparr>ps2_is_port1_valid := (r1 = 0)\<rparr>)"
    by (rule port_self_check_effect [where set_flag = "\<lambda>b s. s\<lparr>ps2_is_port1_valid := b\<rparr>"])
       (simp add: wf_tty_def, rule that)
  obtain r2 t2 s2 where 2:
    "ps2_port_self_check dev 1 IO_COMMAND_PS2_TEST_PORT_2 (\<lambda>b s. s\<lparr>ps2_is_port2_valid := b\<rparr>) s1 = Some s2"
    "drives s1 s2 [Out 0x64 IO_COMMAND_PS2_TEST_PORT_2] [r2]" "io_steps s1 t2 [Out 0x64 IO_COMMAND_PS2_TEST_PORT_2] [r2]"
    "tty.more s2 = tty.more (t2\<lparr>ps2_is_port2_valid := (r2 = 0)\<rparr>)"
    by (rule port_self_check_effect [where set_flag = "\<lambda>b s. s\<lparr>ps2_is_port2_valid := b\<rparr>"])
       (simp add: wf_tty_def, rule that)
  show thesis
  proof (rule that [of s2 r1 r2])
    show "ps2_ports_self_check dev s = Some s2" using 1(1) 2(1) by (simp add: ps2_ports_self_check_def)
    show "drives s s2 [Out 0x64 0xAB, Out 0x64 0xA9] [r1, r2]"
      using drives_trans [OF 1(2) 2(2)] by (simp add: ps2_consts)
  qed (use ps2_more_cong [OF 1(4)] ps2_more_cong [OF 2(4)] io_steps_frame [OF 1(3)] io_steps_frame [OF 2(3)]
        in simp_all)
qed

lemma enable_ports_effect:
  obtains c s' where "ps2_enable_ports dev s = Some s'"
    "drives s s' ((if ps2_is_port1_valid s then [Out 0x64 0xAE] else []) @
        (if ps2_is_port2_valid s then [Out 0x64 0xA8] else []) @
        [Out 0x64 0x20, Out 0x64 0x60,
         Out 0x60 (c OR (if ps2_is_port1_valid s then 1 else 0) OR (if ps2_is_port2_valid s then 2 else 0))]) [c]"
    "ps2_device1 s' = ps2_device1 s" "ps2_device2 s' = ps2_device2 s"
    "ps2_is_port1_valid s' = ps2_is_port1_valid s" "ps2_is_port2_valid s' = ps2_is_port2_valid s"
proof -
  let ?v1 = "ps2_is_port1_valid s" and ?v2 = "ps2_is_port2_valid s"
  define s1 where "s1 = (if ?v1 then command_when_ready dev IO_COMMAND_PS2_ENABLE_1 s else s)"
  define s2 where "s2 = (if ?v2 then command_when_ready dev IO_COMMAND_PS2_ENABLE_2 s1 else s1)"
  have 1: "io_steps s s1 (if ?v1 then [Out 0x64 0xAE] else []) []"
    using command_steps [of s dev "0xAE"] io_steps_refl [of s] by (simp add: s1_def ps2_consts)
  have 2: "io_steps s1 s2 (if ?v2 then [Out 0x64 0xA8] else []) []"
    using command_steps [of s1 dev "0xA8"] io_steps_refl [of s1] by (simp add: s2_def ps2_consts)
  obtain c s3 where 3: "read_when_ready dev (command_when_ready dev IO_COMMAND_PS2_READ_CONFIG s2) = (c, s3)"
    by fastforce
  have 4: "io_steps s s3 ((if ?v1 then [Out 0x64 0xAE] else []) @ (if ?v2 then [Out 0x64 0xA8] else []) @
      [Out 0x64 0x20]) [c]"
    using read_ready.run_then [OF io_steps_trans [OF io_steps_trans [OF 1 2] command_steps] 3]
    by (simp add: ps2_consts)
  note f1 = io_steps_frame [OF 1] note f4 = io_steps_frame [OF 4]
  define c' where "c' = c OR (if ?v1 then 1 else 0) OR (if ?v2 then 2 else 0)"
  have config: "(if ?v2 then (if ?v1 then c OR PS2_CONFIG_INTERRUPT_1_BIT else c) OR PS2_CONFIG_INTERRUPT_2_BIT
      else (if ?v1 then c OR PS2_CONFIG_INTERRUPT_1_BIT else c)) = c'"
    by (simp add: c'_def ps2_consts or.assoc)
  let ?s4 = "data_when_ready dev c' (command_when_ready dev IO_COMMAND_PS2_WRITE_CONFIG s3)"
  have 5: "io_steps s3 ?s4 [Out 0x64 0x60, Out 0x60 c'] []"
    using io_steps_trans [OF command_steps data_steps] by (fastforce simp: ps2_consts)
  note f5 = io_steps_frame [OF 5]
  obtain s' where s': "kprintf (cstr ''ps/2: ports enabled (1: %s, 2: %s)\<newline>'')
      [BOOL_YES_NO (ps2_is_port1_valid ?s4), BOOL_YES_NO (ps2_is_port2_valid ?s4)] ?s4 = Some s'"
    "tty.more s' = tty.more ?s4" "drives ?s4 s' [] []"
    by (rule drives_prints [OF enabled_message]) (rule that)
  show thesis
  proof (rule that [of s' c])
    have "ps2_enable_ports dev s = kprintf (cstr ''ps/2: ports enabled (1: %s, 2: %s)\<newline>'')
      [BOOL_YES_NO (ps2_is_port1_valid ?s4), BOOL_YES_NO (ps2_is_port2_valid ?s4)] ?s4"
      unfolding ps2_enable_ports_def Let_def s1_def [symmetric] f1(5,6) s2_def [symmetric] 3 prod.case
        f4(5,6) config ..
    with s'(1) show "ps2_enable_ports dev s = Some s'" by simp
    show "drives s s' ((if ?v1 then [Out 0x64 0xAE] else []) @ (if ?v2 then [Out 0x64 0xA8] else []) @
        [Out 0x64 0x20, Out 0x64 0x60, Out 0x60 (c OR (if ?v1 then 1 else 0) OR (if ?v2 then 2 else 0))]) [c]"
      using drives_trans [OF drives_trans [OF drives_io [OF 4] drives_io [OF 5]] s'(3)]
      by (simp add: c'_def)
  qed (use ps2_more_cong [OF s'(2)] f4 f5 in simp_all)
qed

text \<open>The second port is disabled again, with its interrupt and its clock.\<close>

lemma disable_port2_effect:
  obtains s' d ws where "(let t = command_when_ready dev IO_COMMAND_PS2_DISABLE_2 s;
        t = command_when_ready dev IO_COMMAND_PS2_READ_CONFIG t;
        (config, t) = read_when_ready dev t;
        config = config AND NOT (PS2_CONFIG_INTERRUPT_2_BIT OR PS2_CONFIG_CLOCK_2_BIT);
        t = command_when_ready dev IO_COMMAND_PS2_WRITE_CONFIG t
     in data_when_ready dev config t) = s'" "io_steps s s' ws [d]"
proof -
  define t where "t = command_when_ready dev IO_COMMAND_PS2_READ_CONFIG (command_when_ready dev IO_COMMAND_PS2_DISABLE_2 s)"
  obtain d t1 where d: "read_when_ready dev t = (d, t1)" by fastforce
  let ?d = "d AND NOT (PS2_CONFIG_INTERRUPT_2_BIT OR PS2_CONFIG_CLOCK_2_BIT)"
  have 1: "io_steps s t1 [Out 0x64 0xA7, Out 0x64 0x20] [d]"
    using read_ready.run_then [OF io_steps_trans [OF command_steps command_steps] d [unfolded t_def]]
    by (simp add: ps2_consts)
  have 2: "io_steps t1 (data_when_ready dev ?d (command_when_ready dev IO_COMMAND_PS2_WRITE_CONFIG t1))
      [Out 0x64 0x60, Out 0x60 ?d] []"
    using io_steps_trans [OF command_steps data_steps] by (fastforce simp: ps2_consts)
  show thesis
    by (rule that [OF _ io_steps_trans [OF 1 2, simplified append_Nil2]])
      (simp add: Let_def d flip: t_def)
qed

lemma check_dual_channel_effect:
  obtains c ws rs s' where "ps2_check_dual_channel dev s = Some s'" "drives s s' ws rs"
    "ps2_is_dual_channel s' \<longleftrightarrow> \<not> bit c 5" "take 2 ws = [Out 0x64 0xA8, Out 0x64 0x20]" "hd rs = c"
    "ps2_device1 s' = ps2_device1 s" "ps2_device2 s' = ps2_device2 s"
    "ps2_is_port1_valid s' = ps2_is_port1_valid s" "ps2_is_port2_valid s' = ps2_is_port2_valid s"
proof -
  define s0 where "s0 = command_when_ready dev IO_COMMAND_PS2_READ_CONFIG (command_when_ready dev IO_COMMAND_PS2_ENABLE_2 s)"
  obtain c s1 where c: "read_when_ready dev s0 = (c, s1)" by fastforce
  have 0: "io_steps s s0 [Out 0x64 0xA8, Out 0x64 0x20] []"
    using io_steps_trans [OF command_steps command_steps] by (fastforce simp: s0_def ps2_consts)
  have 1: "io_steps s s1 [Out 0x64 0xA8, Out 0x64 0x20] [c]" using read_ready.run_then [OF 0 c] by simp
  define s2 where "s2 = s1\<lparr>ps2_is_dual_channel := (NOT c AND PS2_CONFIG_CLOCK_2_BIT \<noteq> 0)\<rparr>"
  have dual: "ps2_is_dual_channel s2 \<longleftrightarrow> \<not> bit c 5"
    using and_exp_eq_0_iff_not_bit [of "NOT c" 5] by (simp add: s2_def PS2_CONFIG_CLOCK_2_BIT_def bit_simps)
  have 2: "drives s1 s2 [] []" by (rule drives_update) (simp_all add: s2_def wf_tty_def)
  obtain s3 where 3: "kprintf (cstr ''ps/2: dual channel: %s\<newline>'') [BOOL_YES_NO (ps2_is_dual_channel s2)] s2 = Some s3"
    "tty.more s3 = tty.more s2" "drives s2 s3 [] []"
    by (rule drives_prints [OF dual_message]) (rule that)
  note until3 = drives_trans [OF drives_trans [OF drives_io [OF 1] 2] 3(3)]
  note f3 = ps2_more_cong [OF 3(2)] io_steps_frame [OF 1]
  let ?disable = "\<lambda>s. let t = command_when_ready dev IO_COMMAND_PS2_DISABLE_2 s;
        t = command_when_ready dev IO_COMMAND_PS2_READ_CONFIG t;
        (config, t) = read_when_ready dev t;
        config = config AND NOT (PS2_CONFIG_INTERRUPT_2_BIT OR PS2_CONFIG_CLOCK_2_BIT);
        t = command_when_ready dev IO_COMMAND_PS2_WRITE_CONFIG t
     in data_when_ready dev config t"
  have start: "ps2_check_dual_channel dev s = Some (if ps2_is_dual_channel s3 then ?disable s3 else s3)"
    unfolding ps2_check_dual_channel_def Let_def s0_def [symmetric] c prod.case s2_def [symmetric] 3(1)
      bind.bind_lunit by (simp add: split_def)
  show thesis
  proof (cases "ps2_is_dual_channel s3")
    case False
    show thesis
      by (rule that [of s3 "[Out 0x64 0xA8, Out 0x64 0x20]" "[c]" c])
         (use False start until3 dual f3 in \<open>simp_all add: s2_def\<close>)
  next
    case True
    obtain s' d ws where t: "?disable s3 = s'" "io_steps s3 s' ws [d]" by (rule disable_port2_effect)
    have "ps2_check_dual_channel dev s = Some s'" using start True t(1) by (simp add: Let_def split_def)
    moreover have "drives s s' ([Out 0x64 0xA8, Out 0x64 0x20] @ ws) [c, d]"
      using drives_trans [OF until3 drives_io [OF t(2)]] by simp
    ultimately show thesis
      by (rule that [where c = c]) (use dual f3 io_steps_frame [OF t(2)] in \<open>simp_all add: s2_def\<close>)
  qed
qed

section \<open>Devices\<close>

lemma device_read_effect:
  assumes "ps2_device_read_data dev d s = ((e, v), s')"
  shows "e = ps2_error_timeout \<and> v = d \<and> io_steps s s' [] [] \<or> e = ps2_error_none \<and> io_steps s s' [] [v]"
proof -
  obtain e1 s1 where w: "ps2_wait_output_ready dev s = (e1, s1)" by fastforce
  obtain v1 s2 where r: "ps2_read_data dev s1 = (v1, s2)" by fastforce
  show ?thesis
    using assms w r wait_output.run_steps [OF w] read_data.run_then [OF wait_output.run_steps [OF w] r]
    by (cases e1) (auto simp: ps2_device_read_data_def)
qed

lemma device_write_effect:
  assumes "ps2_device_write_data dev p data s = (e, s')"
  shows "\<exists>ws. io_steps s s' ws [] \<and>
    ws = (if is_port_1 (get_device p s) then [] else if e = ps2_error_none \<or> ws \<noteq> [] then [Out 0x64 0xD4] else []) @
      (if e = ps2_error_none then [Out 0x60 data] else [])"
proof -
  obtain e1 s1 where w: "ps2_wait_input_ready dev s = (e1, s1)" by fastforce
  let ?s2 = "ps2_write_command dev IO_COMMAND_PS2_WRITE_PORT2_INPUT s1"
  obtain e2 s3 where w2: "ps2_wait_input_ready dev ?s2 = (e2, s3)" by fastforce
  note 1 = wait_input.run_steps [OF w]
  have 2: "io_steps s ?s2 [Out 0x64 0xD4] []"
    using io_steps_trans [OF 1 write_steps(1)] by (simp add: ps2_consts)
  have 3: "io_steps s s3 [Out 0x64 0xD4] []" using wait_input.run_then [OF 2 w2] by simp
  show ?thesis
  proof (cases "is_port_1 (get_device p s)")
    case True
    then show ?thesis
      using assms w 1 io_steps_trans [OF 1 write_steps(2)]
      by (cases e1) (auto simp: ps2_device_write_data_def)
  next
    case False
    then show ?thesis
      using assms w w2 1 3 io_steps_trans [OF 3 write_steps(2)]
      by (cases e1; cases e2) (auto simp: ps2_device_write_data_def)
  qed
qed

definition other_device :: "device_ptr \<Rightarrow> device_ptr" where
  "other_device p = (case p of Device1 \<Rightarrow> Device2 | Device2 \<Rightarrow> Device1)"

lemma upd_device_simps [simp]:
  "get_device p (upd_device p f s) = f (get_device p s)"
  "get_device (other_device p) (upd_device p f s) = get_device (other_device p) s"
  "memory (upd_device p f s) = memory s" "io_trace (upd_device p f s) = io_trace s"
  "ps2_is_port1_valid (upd_device p f s) = ps2_is_port1_valid s"
  "ps2_is_port2_valid (upd_device p f s) = ps2_is_port2_valid s"
  "wf_tty (upd_device p f s) = wf_tty s"
  by (cases p; simp add: get_device_def upd_device_def other_device_def wf_tty_def)+

lemma drives_upd_device: "drives s (upd_device p f s) [] []"
  by (rule drives_update) simp_all

lemma dev_message: "literal msg \<Longrightarrow> prints s (PS2_LOG_DEV p msg va s)"
  unfolding PS2_LOG_DEV_def
  by (rule prints_kprintf) (simp add: format_eval format_text_literal_append)

lemma type_message: "prints s (PS2_LOG_DEV p (cstr ''initialized with type %u'') [VWord w] s)"
  unfolding PS2_LOG_DEV_def by (rule prints_kprintf) (simp add: format_eval)

lemma id_message: "prints s (PS2_LOG (cstr ''WARN: unknown device id 0x%x'') [VWord w] s)"
  unfolding PS2_LOG_def by (rule prints_kprintf) (simp add: format_eval)

text \<open>A step of the reset that may change one device and leaves the other one alone.\<close>

definition resets ::
  "device_ptr \<Rightarrow> ('h, 'a) ps2_scheme \<Rightarrow> ('h, 'a) ps2_scheme \<Rightarrow> u8 list \<Rightarrow> (ps2_device \<Rightarrow> ps2_device) \<Rightarrow> bool" where
  "resets p s s' rs f \<longleftrightarrow>
     (\<exists>ws. drives s s' ws rs) \<and> get_device p s' = f (get_device p s) \<and>
     get_device (other_device p) s' = get_device (other_device p) s"

lemma resets_trans: "resets p s t rs f \<Longrightarrow> resets p t u rs' g \<Longrightarrow> resets p s u (rs @ rs') (\<lambda>d. g (f d))"
  unfolding resets_def using drives_trans by fastforce

lemma resets_io: "io_steps s s' ws rs \<Longrightarrow> resets p s s' rs (\<lambda>d. d)"
  unfolding resets_def using drives_io io_steps_frame(9) by blast

lemma resets_upd: "resets p s (upd_device p f s) [] f"
  unfolding resets_def using drives_upd_device by fastforce

lemma resets_prints:
  assumes "prints s r"
  obtains s' where "r = Some s'" "resets p s s' [] (\<lambda>d. d)"
proof -
  obtain s' where s': "r = Some s'" "tty.more s' = tty.more s" "drives s s' [] []"
    by (rule drives_prints [OF assms]) (rule that)
  have "get_device q s' = get_device q s" for q by (rule ps2_more_cong(8) [OF s'(2)])
  with s' that show thesis by (auto simp: resets_def)
qed

lemma reset_fails_effect:
  assumes "literal msg"
  obtains s' where "reset_fails p msg status s = Some s'"
    "resets p s s' [] (device_status_update (\<lambda>_. status))"
proof -
  obtain s1 where s1: "PS2_LOG_DEV p msg [VStr 0 []] s = Some s1" "resets p s s1 [] (\<lambda>d. d)"
    by (rule resets_prints [OF dev_message [OF assms]]) (rule that)
  show thesis
    by (rule that) (use s1 resets_trans [OF s1(2) resets_upd] in \<open>simp_all add: reset_fails_def\<close>)
qed

text \<open>
  What a reset makes of the bytes the device sends: no answer, a failed self-check, or a
  successful one (in either order of its two bytes) and the bytes of the device id.
\<close>

definition reset_outcome :: "ps2_device_type \<Rightarrow> u8 list \<Rightarrow> ps2_device_status \<times> ps2_device_type" where
  "reset_outcome old rs =
     (case rs of
        [] \<Rightarrow> (ps2_device_status_not_connected, old)
      | [r] \<Rightarrow> (ps2_device_status_self_check_fail, old)
      | r1 # r2 # ids \<Rightarrow>
          if (r1, r2) = (0xFA, 0xAA) \<or> (r1, r2) = (0xAA, 0xFA)
          then (ps2_device_status_okay,
                if \<forall>i\<in>set ids. i = 0 then ps2_device_type_00 else ps2_device_type_unknown)
          else (ps2_device_status_self_check_fail, old))"

lemma two_bytes_eq:
  fixes a b c d :: u8
  shows "(ucast a OR push_bit 8 (ucast b) :: u16) = ucast c OR push_bit 8 (ucast d) \<longleftrightarrow> a = c \<and> b = d"
proof
  have lo: "ucast (ucast x OR push_bit 8 (ucast y) :: u16) = x" for x y :: u8
    by (rule bit_word_eqI) (auto simp: bit_simps)
  have hi: "ucast (drop_bit 8 (ucast x OR push_bit 8 (ucast y) :: u16)) = y" for x y :: u8
    by (rule bit_word_eqI) (auto simp: bit_simps dest: bit_imp_le_length)
  assume "(ucast a OR push_bit 8 (ucast b) :: u16) = ucast c OR push_bit 8 (ucast d)"
  then show "a = c \<and> b = d" using lo [of a b] lo [of c d] hi [of a b] hi [of c d] by metis
qed simp

lemma reset_okay_bytes:
  fixes a b :: u8
  shows "(ucast a OR push_bit 8 (ucast b) :: u16) = 0xAAFA \<longleftrightarrow> a = 0xFA \<and> b = 0xAA"
    and "(ucast a OR push_bit 8 (ucast b) :: u16) = 0xFAAA \<longleftrightarrow> a = 0xAA \<and> b = 0xFA"
    and "(push_bit 8 (ucast b) OR ucast a :: u16) = 0 \<longleftrightarrow> a = 0 \<and> b = 0"
  using two_bytes_eq [of a b "0xFA" "0xAA"] two_bytes_eq [of a b "0xAA" "0xFA"] two_bytes_eq [of a b 0 0]
  by (simp_all add: or.commute)

text \<open>The bytes that identify a device: at most two, and the code takes a missing one for zero.\<close>

lemma identify_reads:
  assumes "ps2_device_read_data dev 0 s = ((e1, v1), s1)"
    and "(if e1 \<noteq> ps2_error_timeout then ps2_device_read_data dev 0 s1 else ((e1, 0), s1)) = ((e2, v2), s2)"
  obtains ids where "io_steps s s2 [] ids" "(\<forall>i\<in>set ids. i = 0) \<longleftrightarrow> v1 = 0 \<and> v2 = 0"
proof (cases "e1 = ps2_error_timeout")
  case True
  then have "io_steps s s2 [] []" "v1 = 0" "v2 = 0"
    using assms(2) device_read_effect [OF assms(1)] by auto
  with that [of "[]"] show thesis by simp
next
  case False
  then have r1: "io_steps s s1 [] [v1]" and "ps2_device_read_data dev 0 s1 = ((e2, v2), s2)"
    using assms(2) device_read_effect [OF assms(1)] by auto
  from device_read_effect [OF this(2)] show thesis
  proof
    assume "e2 = ps2_error_timeout \<and> v2 = 0 \<and> io_steps s1 s2 [] []"
    then show thesis using that [of "[v1]"] io_steps_trans [OF r1] by fastforce
  next
    assume "e2 = ps2_error_none \<and> io_steps s1 s2 [] [v2]"
    then show thesis using that [of "[v1, v2]"] io_steps_trans [OF r1] by fastforce
  qed
qed

lemma identify_type:
  fixes v1 v2 :: u8
  defines "code \<equiv> push_bit 8 (ucast v2) OR ucast v1 :: u16"
  assumes "(\<forall>i\<in>set ids. i = 0) \<longleftrightarrow> v1 = 0 \<and> v2 = 0"
  obtains s' where "(if code = 0x00 then Some (upd_device p (device_type_update (\<lambda>_. ps2_device_type_00)) s)
      else do { s \<leftarrow> PS2_LOG (cstr ''WARN: unknown device id 0x%x'') [VWord (ucast code)] s;
        Some (upd_device p (device_type_update (\<lambda>_. ps2_device_type_unknown)) s) }) = Some s'"
    "resets p s s' [] (device_type_update
       (\<lambda>_. if \<forall>i\<in>set ids. i = 0 then ps2_device_type_00 else ps2_device_type_unknown))"
proof -
  define ty where "ty = (if \<forall>i\<in>set ids. i = 0 then ps2_device_type_00 else ps2_device_type_unknown)"
  note result = that [folded ty_def]
  show thesis
  proof (cases "code = 0")
    case True
    then have "ty = ps2_device_type_00" using assms(2) reset_okay_bytes(3) by (simp add: ty_def code_def)
    with True result resets_upd [of p s "device_type_update (\<lambda>_. ty)"] show thesis by simp
  next
    case False
    then have "ty = ps2_device_type_unknown"
      using assms(2) reset_okay_bytes(3) [of v2 v1] by (auto simp: ty_def code_def)
    moreover obtain t where t: "PS2_LOG (cstr ''WARN: unknown device id 0x%x'') [VWord (ucast code)] s = Some t"
      "resets p s t [] (\<lambda>d. d)"
      by (rule resets_prints [OF id_message]) (rule that)
    ultimately show thesis
      using False result resets_trans [OF t(2) resets_upd [where f = "device_type_update (\<lambda>_. ty)"]] by simp
  qed
qed

lemma identify_effect:
  obtains ids s' where "ps2_identify_device dev p s = Some s'"
    "resets p s s' ids (\<lambda>d. d\<lparr>device_status := ps2_device_status_okay,
       device_type := if \<forall>i\<in>set ids. i = 0 then ps2_device_type_00 else ps2_device_type_unknown\<rparr>)"
proof -
  obtain e1 v1 s1 where 1: "ps2_device_read_data dev 0 s = ((e1, v1), s1)" by (metis prod.exhaust)
  obtain e2 v2 s2 where 2: "(if e1 \<noteq> ps2_error_timeout then ps2_device_read_data dev 0 s1 else ((e1, 0), s1)) = ((e2, v2), s2)"
    by (metis prod.exhaust)
  obtain ids where ids: "io_steps s s2 [] ids" "(\<forall>i\<in>set ids. i = 0) \<longleftrightarrow> v1 = 0 \<and> v2 = 0"
    by (rule identify_reads [OF 1 2])
  define s3 where "s3 = upd_device p (device_status_update (\<lambda>_. ps2_device_status_okay)) s2"
  define ty where "ty = (if \<forall>i\<in>set ids. i = 0 then ps2_device_type_00 else ps2_device_type_unknown)"
  let ?id = "push_bit 8 (ucast v2) OR ucast v1 :: u16"
  obtain s4 where s4: "(if ?id = 0x00 then Some (upd_device p (device_type_update (\<lambda>_. ps2_device_type_00)) s3)
      else do { s \<leftarrow> PS2_LOG (cstr ''WARN: unknown device id 0x%x'') [VWord (ucast ?id)] s3;
        Some (upd_device p (device_type_update (\<lambda>_. ps2_device_type_unknown)) s) }) = Some s4"
    "resets p s3 s4 [] (device_type_update (\<lambda>_. ty))"
    unfolding ty_def by (rule identify_type [OF ids(2)])
  obtain s5 where s5: "PS2_LOG_DEV p (cstr ''initialized with type %u'')
      [VWord (device_type_code (device_type (get_device p s4)))] s4 = Some s5" "resets p s4 s5 [] (\<lambda>d. d)"
    by (rule resets_prints [OF type_message]) (rule that)
  have "ps2_identify_device dev p s = Some s5"
    unfolding ps2_identify_device_def Let_def 1 prod.case 2 s3_def [symmetric] s4(1) bind.bind_lunit
    by (rule s5(1))
  moreover have "resets p s s5 ids (\<lambda>d. d\<lparr>device_status := ps2_device_status_okay, device_type := ty\<rparr>)"
    using resets_trans [OF resets_trans [OF resets_trans [OF resets_io [OF ids(1)] resets_upd] s4(2) [unfolded s3_def]] s5(2)]
    by simp
  ultimately show thesis using that unfolding ty_def by blast
qed

text \<open>A device is recorded by its bytes, on each of the ways through \<open>ps2_reset_device\<close>.\<close>

definition reset_recorded :: "device_ptr \<Rightarrow> ('h, 'a) ps2_scheme \<Rightarrow> u8 list \<Rightarrow> ('h, 'a) ps2_scheme option \<Rightarrow> bool" where
  "reset_recorded p s rs r \<longleftrightarrow> (\<exists>s'. r = Some s' \<and> resets p s s' rs
     (\<lambda>d. d\<lparr>device_status := fst (reset_outcome (device_type d) rs), device_type := snd (reset_outcome (device_type d) rs)\<rparr>))"

lemma reset_fail_recorded:
  assumes "resets p s t rs (device_status_update (\<lambda>_. ps2_device_status_not_connected))" "literal msg"
    and "\<And>old. reset_outcome old rs = (status, old)"
  shows "reset_recorded p s rs (reset_fails p msg status t)"
proof -
  obtain s' where s': "reset_fails p msg status t = Some s'" "resets p t s' [] (device_status_update (\<lambda>_. status))"
    by (rule reset_fails_effect [OF assms(2)]) (rule that)
  show ?thesis using resets_trans [OF assms(1) s'(2)] s'(1) by (simp add: reset_recorded_def assms(3))
qed

lemma reset_identify_recorded:
  assumes "resets p s t [v1, v2] (device_status_update (\<lambda>_. ps2_device_status_not_connected))"
    and "(v1, v2) = (0xFA, 0xAA) \<or> (v1, v2) = (0xAA, 0xFA)"
  shows "\<exists>ids. reset_recorded p s ([v1, v2] @ ids) (ps2_identify_device dev p t)"
proof -
  obtain ids s' where s': "ps2_identify_device dev p t = Some s'"
    "resets p t s' ids (\<lambda>d. d\<lparr>device_status := ps2_device_status_okay,
       device_type := if \<forall>i\<in>set ids. i = 0 then ps2_device_type_00 else ps2_device_type_unknown\<rparr>)"
    by (rule identify_effect) (rule that)
  have out: "reset_outcome old ([v1, v2] @ ids) = (ps2_device_status_okay,
      if \<forall>i\<in>set ids. i = 0 then ps2_device_type_00 else ps2_device_type_unknown)" for old
    using assms(2) by (simp add: reset_outcome_def)
  have "reset_recorded p s ([v1, v2] @ ids) (Some s')"
    using resets_trans [OF assms(1) s'(2)] unfolding reset_recorded_def out by simp
  then show ?thesis unfolding s'(1) ..
qed

lemma reset_device_recorded: "\<exists>rs. reset_recorded p s rs (ps2_reset_device dev p s)"
proof -
  let ?nc = "device_status_update (\<lambda>_. ps2_device_status_not_connected)"
  define s0 where "s0 = upd_device p ?nc s"
  obtain e0 s1 where w: "ps2_device_write_data dev p 0xFF s0 = (e0, s1)" by fastforce
  obtain e1 v1 s2 where r1: "ps2_device_read_data dev 0 s1 = ((e1, v1), s2)" by (metis prod.exhaust)
  obtain e2 v2 s3 where r2: "ps2_device_read_data dev v1 s2 = ((e2, v2), s3)" by (metis prod.exhaust)
  obtain ws where w1: "io_steps s0 s1 ws []" using device_write_effect [OF w] by blast
  have 1: "resets p s s1 [] ?nc" using resets_trans [OF resets_upd resets_io [OF w1 [unfolded s0_def]]] by simp
  have read: "resets p s u (rs @ vs) ?nc" if "resets p s t rs ?nc" "io_steps t u [] vs" for t u rs vs
    using resets_trans [OF that(1) resets_io [OF that(2)]] by simp
  note unf = ps2_reset_device_def Let_def s0_def [symmetric] w prod.case r1 r2
  have fc: "(ucast v1 :: u16) = 0xFC \<longleftrightarrow> v1 = 0xFC" using two_bytes_eq [of v1 0 "0xFC" 0] by simp
  note code = reset_okay_bytes(1,2) [of v1 v2]
  consider (none) "e1 = ps2_error_timeout" | (failed) "e1 \<noteq> ps2_error_timeout" "v1 = 0xFC"
    | (one) "e1 \<noteq> ps2_error_timeout" "v1 \<noteq> 0xFC" "e2 = ps2_error_timeout"
    | (two) "e1 \<noteq> ps2_error_timeout" "v1 \<noteq> 0xFC" "e2 \<noteq> ps2_error_timeout" by blast
  then show ?thesis
  proof cases
    case none
    then have "io_steps s1 s2 [] []" using device_read_effect [OF r1] by auto
    from reset_fail_recorded [OF read [OF 1 this], of "cstr ''not connected''" ps2_device_status_not_connected] none
    show ?thesis by (intro exI [of _ "[]"]) (simp add: unf reset_outcome_def)
  next
    case failed
    then have "io_steps s1 s2 [] [v1]" using device_read_effect [OF r1] by auto
    from reset_fail_recorded [OF read [OF 1 this], of "cstr ''self-check fail 1''" ps2_device_status_self_check_fail] failed
    show ?thesis by (intro exI [of _ "[v1]"]) (simp add: unf reset_outcome_def)
  next
    case one
    then have "io_steps s1 s2 [] [v1]" "io_steps s2 s3 [] []"
      using device_read_effect [OF r1] device_read_effect [OF r2] by auto
    from reset_fail_recorded [OF read [OF read [OF 1 this(1)] this(2)], of "cstr ''self-check fail 2''"
        ps2_device_status_self_check_fail] one
    show ?thesis by (intro exI [of _ "[v1]"]) (simp add: unf reset_outcome_def fc)
  next
    case two
    then have "io_steps s1 s2 [] [v1]" "io_steps s2 s3 [] [v2]"
      using device_read_effect [OF r1] device_read_effect [OF r2] by auto
    note 3 = read [OF read [OF 1 this(1)] this(2)]
    show ?thesis
    proof (cases "(v1, v2) = (0xFA, 0xAA) \<or> (v1, v2) = (0xAA, 0xFA)")
      case True
      then have "ps2_reset_device dev p s = ps2_identify_device dev p s3"
        using two code by (auto simp: unf fc)
      with reset_identify_recorded [OF _ True] 3 show ?thesis by fastforce
    next
      case False
      with reset_fail_recorded [OF 3, of "cstr ''self-check fail 3''" ps2_device_status_self_check_fail] two code
      show ?thesis by (intro exI [of _ "[v1, v2]"]) (simp add: unf reset_outcome_def fc)
    qed
  qed
qed

lemma reset_device_effect:
  obtains rs s' where "ps2_reset_device dev p s = Some s'"
    "resets p s s' rs (\<lambda>d. d\<lparr>device_status := fst (reset_outcome (device_type d) rs),
       device_type := snd (reset_outcome (device_type d) rs)\<rparr>)"
  using reset_device_recorded [of p s dev] unfolding reset_recorded_def by blast

section \<open>The wait loops\<close>

text \<open>The controller's state after a number of status reads, and the status it then shows.\<close>

fun poll_state :: "'h port_device \<Rightarrow> nat \<Rightarrow> 'h \<Rightarrow> 'h" where
  "poll_state dev 0 h = h"
| "poll_state dev (Suc n) h = poll_state dev n (snd (dev_in dev IO_PORT_PS2_STATUS h))"

definition status_at :: "'h port_device \<Rightarrow> nat \<Rightarrow> 'h \<Rightarrow> u8" where
  "status_at dev n h = fst (dev_in dev IO_PORT_PS2_STATUS (poll_state dev n h))"

lemma wait_loop_polls:
  assumes "\<And>s. ready s = (let (v, s) = ps2_read_status dev s in (P v, s))" "0 \<le> timeout"
    and "wait_loop ready timeout s = (t, s')"
  shows "(0 < t \<longleftrightarrow> (\<exists>n<nat timeout. P (status_at dev n (hw s)))) \<and>
    length (io_trace s') \<le> length (io_trace s) + nat timeout + 1"
  using assms(2,3)
proof (induction "nat timeout" arbitrary: timeout s)
  case 0
  obtain v h where v: "dev_in dev IO_PORT_PS2_STATUS (hw s) = (v, h)" by fastforce
  have "ready s = (P v, s\<lparr>hw := h, io_trace := io_trace s @ [In IO_PORT_PS2_STATUS v]\<rparr>)"
    by (simp add: assms(1) ps2_read_status_def inb_def v)
  moreover have "timeout = 0" using 0 by simp
  ultimately show ?case
    using 0 by (cases "P v") (auto simp: wait_loop.simps [of ready 0 s])
next
  case (Suc n timeout s)
  obtain v h where v: "dev_in dev IO_PORT_PS2_STATUS (hw s) = (v, h)" by fastforce
  let ?s = "s\<lparr>hw := h, io_trace := io_trace s @ [In IO_PORT_PS2_STATUS v]\<rparr>"
  have r: "ready s = (P v, ?s)" by (simp add: assms(1) ps2_read_status_def inb_def v)
  have v0: "status_at dev 0 (hw s) = v" and v1: "status_at dev (Suc k) (hw s) = status_at dev k h" for k
    by (simp_all add: status_at_def v)
  have pos: "0 < timeout" and n: "n = nat (timeout - 1)" using Suc.hyps(2) by linarith+
  show ?case
  proof (cases "P v")
    case True
    then have "t = timeout" "s' = ?s" using Suc.prems r by (simp_all add: wait_loop.simps [of ready timeout s])
    with True pos v0 show ?thesis by (auto intro!: exI [of _ 0])
  next
    case False
    then have w: "wait_loop ready (timeout - 1) ?s = (t, s')"
      using Suc.prems(2) r pos by (simp add: wait_loop.simps [of ready timeout s])
    have IH: "(0 < t \<longleftrightarrow> (\<exists>k<nat (timeout - 1). P (status_at dev k h))) \<and>
        length (io_trace s') \<le> length (io_trace s) + 1 + nat (timeout - 1) + 1"
      using Suc.hyps(1) [OF n _ w] pos by simp
    have "(\<exists>k<nat timeout. P (status_at dev k (hw s))) \<longleftrightarrow> (\<exists>k<nat (timeout - 1). P (status_at dev k h))"
      unfolding Suc.hyps(2) [symmetric] n [symmetric]
      using False v0 v1 by (auto simp: less_Suc_eq_0_disj)
    with IH n Suc.hyps(2) show ?thesis by simp
  qed
qed

text \<open>
  The status reads of a wait: a wait for the bit that \<open>P\<close> tests succeeds with the first read that
  shows it, if that is one of the first \<open>n\<close> reads, and gives up after one more read otherwise.
\<close>

definition status_reads :: "u8 list \<Rightarrow> io_event list" where
  "status_reads vs = map (In IO_PORT_PS2_STATUS) vs"

definition polled :: "nat \<Rightarrow> (u8 \<Rightarrow> bool) \<Rightarrow> ps2_error \<Rightarrow> u8 list \<Rightarrow> bool" where
  "polled n P e vs \<longleftrightarrow> vs \<noteq> [] \<and> (\<forall>v\<in>set (butlast vs). \<not> P v) \<and>
     (if e = ps2_error_none then P (last vs) \<and> length vs \<le> n else length vs = n + 1)"

lemma wait_loop_trace:
  assumes "\<And>s. ready s = (let (v, s) = ps2_read_status dev s in (P v, s))" "0 \<le> timeout"
    and "wait_loop ready timeout s = (t, s')"
  shows "\<exists>vs. io_trace s' = io_trace s @ status_reads vs \<and>
    polled (nat timeout) P (if t \<le> 0 then ps2_error_timeout else ps2_error_none) vs"
  using assms(2,3)
proof (induction "nat timeout" arbitrary: timeout s)
  case 0
  obtain v h where v: "dev_in dev IO_PORT_PS2_STATUS (hw s) = (v, h)" by fastforce
  have "ready s = (P v, s\<lparr>hw := h, io_trace := io_trace s @ [In IO_PORT_PS2_STATUS v]\<rparr>)"
    by (simp add: assms(1) ps2_read_status_def inb_def v)
  moreover have "timeout = 0" using 0 by simp
  ultimately have "t \<le> 0" "io_trace s' = io_trace s @ status_reads [v]"
    using 0 by (auto simp: wait_loop.simps [of ready 0 s] status_reads_def split: if_splits)
  then show ?case using \<open>timeout = 0\<close> by (intro exI [of _ "[v]"]) (simp add: polled_def)
next
  case (Suc n timeout s)
  obtain v h where v: "dev_in dev IO_PORT_PS2_STATUS (hw s) = (v, h)" by fastforce
  let ?s = "s\<lparr>hw := h, io_trace := io_trace s @ [In IO_PORT_PS2_STATUS v]\<rparr>"
  have r: "ready s = (P v, ?s)" by (simp add: assms(1) ps2_read_status_def inb_def v)
  have pos: "0 < timeout" and n: "n = nat (timeout - 1)" using Suc.hyps(2) by linarith+
  show ?case
  proof (cases "P v")
    case True
    then have "t = timeout" "s' = ?s" using Suc.prems r by (simp_all add: wait_loop.simps [of ready timeout s])
    with True pos show ?thesis by (intro exI [of _ "[v]"]) (simp add: polled_def status_reads_def)
  next
    case False
    then have "wait_loop ready (timeout - 1) ?s = (t, s')"
      using Suc.prems(2) r pos by (simp add: wait_loop.simps [of ready timeout s])
    then obtain vs where "io_trace s' = io_trace ?s @ status_reads vs"
      "polled (nat (timeout - 1)) P (if t \<le> 0 then ps2_error_timeout else ps2_error_none) vs"
      using Suc.hyps(1) [OF n] pos by fastforce
    with False pos show ?thesis
      by (intro exI [of _ "v # vs"]) (auto simp: polled_def status_reads_def split: if_splits)
  qed
qed

text \<open>A wait for the controller to take a byte: bit 1 of its status clear, within 100000000 reads.\<close>

definition input_polls :: "ps2_error \<Rightarrow> u8 list \<Rightarrow> bool" where
  "input_polls = polled 100000000 (\<lambda>v. \<not> bit v 1)"

lemma wait_input_trace:
  assumes "ps2_wait_input_ready dev s = (e, s')"
  obtains vs where "io_trace s' = io_trace s @ status_reads vs" "input_polls e vs"
proof -
  obtain t s1 where w: "wait_loop (ps2_input_ready dev) 100000000 s = (t, s1)" by fastforce
  then have s1: "s' = s1" "e = (if t \<le> 0 then ps2_error_timeout else ps2_error_none)"
    using assms by (auto simp: ps2_wait_input_ready_def)
  have b: "NOT v AND 0x02 \<noteq> 0 \<longleftrightarrow> \<not> bit v 1" for v :: u8
    using and_exp_eq_0_iff_not_bit [of "NOT v" 1] by (simp add: bit_simps)
  have "ps2_input_ready dev s = (let (v, s) = ps2_read_status dev s in (\<not> bit v 1, s))" for s :: "('a, 'b) ps2_scheme"
    by (simp only: ps2_input_ready_def b)
  from wait_loop_trace [where P = "\<lambda>v. \<not> bit v 1", OF this _ w]
  show thesis using that by (auto simp: s1 input_polls_def)
qed

text \<open>The wait for a byte to be taken, and the byte.\<close>

lemma data_byte_trace:
  assumes "(let (error, s) = ps2_wait_input_ready dev t
     in if error \<noteq> ps2_error_none then (error, s) else (ps2_error_none, ps2_write_data dev data s)) = (e, s')"
  shows "\<exists>vs. input_polls e vs \<and>
    io_trace s' = io_trace t @ status_reads vs @ (if e = ps2_error_none then [Out 0x60 data] else [])"
proof -
  obtain e1 t1 where w: "ps2_wait_input_ready dev t = (e1, t1)" by fastforce
  obtain vs where "io_trace t1 = io_trace t @ status_reads vs" "input_polls e1 vs"
    by (rule wait_input_trace [OF w]) (rule that)
  with assms show ?thesis
    by (intro exI [of _ vs]) (auto simp: w ps2_write_data_def outb_def ps2_consts split: if_splits)
qed

section \<open>Initialisation\<close>

text \<open>What \<open>ps2_init\<close> writes up to the self-check, given the configuration byte it reads.\<close>

definition init_config :: "u8 \<Rightarrow> u8" where
  "init_config c = c AND NOT 0x31"

definition init_writes :: "u8 \<Rightarrow> io_event list" where
  "init_writes c =
     [Out 0x64 0xAD, Out 0x64 0xA7, Out 0x64 0x20, Out 0x64 0x60, Out 0x60 (init_config c),
      Out 0x64 0x20, Out 0x64 0xAA]"

lemma configure_effect:
  obtains f c r s' where "ps2_configure dev s = (init_config c, s')"
    "io_steps s s' (butlast (init_writes c)) [f, c, r]"
proof -
  define s1 where "s1 = command_when_ready dev IO_COMMAND_PS2_DISABLE_2 (command_when_ready dev IO_COMMAND_PS2_DISABLE_1 s)"
  obtain f s2 where 2: "ps2_read_data dev s1 = (f, s2)" by fastforce
  define s3 where "s3 = ps2_write_command dev IO_COMMAND_PS2_READ_CONFIG s2"
  obtain c s4 where 4: "read_when_ready dev s3 = (c, s4)" by fastforce
  have config: "c AND NOT (PS2_CONFIG_TRANSLATE_1_BIT OR PS2_CONFIG_CLOCK_1_BIT OR PS2_CONFIG_INTERRUPT_1_BIT) =
      init_config c"
    by (simp add: init_config_def ps2_consts)
  define s5 where "s5 = command_when_ready dev IO_COMMAND_PS2_READ_CONFIG
    (data_when_ready dev (init_config c) (ps2_write_command dev IO_COMMAND_PS2_WRITE_CONFIG s4))"
  obtain r s6 where 6: "read_when_ready dev s5 = (r, s6)" by fastforce
  have 1: "io_steps s s1 [Out 0x64 0xAD, Out 0x64 0xA7] []"
    using io_steps_trans [OF command_steps command_steps] by (fastforce simp: s1_def ps2_consts)
  have 3: "io_steps s s3 [Out 0x64 0xAD, Out 0x64 0xA7, Out 0x64 0x20] [f]"
    using io_steps_trans [OF read_data.run_then [OF 1 2] write_steps(1)]
    by (simp add: s3_def ps2_consts)
  have 5: "io_steps s4 s5 [Out 0x64 0x60, Out 0x60 (init_config c), Out 0x64 0x20] []"
    using io_steps_trans [OF io_steps_trans [OF write_steps(1) data_steps] command_steps]
    by (fastforce simp: s5_def ps2_consts)
  show thesis
  proof (rule that)
    show "ps2_configure dev s = (init_config c, s6)"
      unfolding ps2_configure_def Let_def s1_def [symmetric] 2 prod.case s3_def [symmetric] 4 config
        s5_def [symmetric] 6 ..
    show "io_steps s s6 (butlast (init_writes c)) [f, c, r]"
      using read_ready.run_then [OF io_steps_trans [OF read_ready.run_then [OF 3 4] 5] 6]
      by (simp add: init_writes_def)
  qed
qed

lemma literal_message: "literal msg \<Longrightarrow> prints s (kprintf msg [] s)"
  by (rule prints_kprintf) (simp add: format_text_literal)

lemma reset_devices_effect:
  obtains ws rs s' where "ps2_reset_devices dev s = Some s'" "drives s s' ws rs"
proof -
  obtain rs1 s1 where 1: "ps2_reset_device dev Device1 s = Some s1" "\<exists>ws. drives s s1 ws rs1"
    by (rule reset_device_effect [of dev Device1 s]) (auto simp: resets_def)
  obtain rs2 s2 where 2: "ps2_reset_device dev Device2 s1 = Some s2" "\<exists>ws. drives s1 s2 ws rs2"
    by (rule reset_device_effect [of dev Device2 s1]) (auto simp: resets_def)
  from 1 2 that show thesis using drives_trans by (fastforce simp: ps2_reset_devices_def)
qed

text \<open>The part of \<open>ps2_init\<close> after the configuration is restored.\<close>

definition init_devices :: "'h port_device \<Rightarrow> ('h, 'a) ps2_scheme \<Rightarrow> ('h, 'a) ps2_scheme option" where
  "init_devices dev s = do {
     s \<leftarrow> ps2_check_dual_channel dev s;
     s \<leftarrow> ps2_ports_self_check dev s;
     if \<not> ps2_is_port1_valid s \<and> \<not> ps2_is_port2_valid s
     then kprintf (cstr ''ps/2: failed to initialize\<newline>'') [] s
     else do {
       s \<leftarrow> ps2_enable_ports dev s;
       s \<leftarrow> ps2_reset_devices dev s;
       kprintf (cstr ''ps/2: init done\<newline>'') [] s
     }
   }"

lemma init_messages:
  "literal (cstr ''ps/2: failed to initialize\<newline>'')" "literal (cstr ''ps/2: init done\<newline>'')"
  by simp_all

lemma init_devices_effect:
  obtains s' ws rs where "init_devices dev s = Some s'" "drives s s' ws rs"
proof -
  obtain c1 ws1 rs1 s1 where 1: "ps2_check_dual_channel dev s = Some s1" "drives s s1 ws1 rs1"
    by (rule check_dual_channel_effect [of dev s])
  obtain p1 p2 s2 where 2: "ps2_ports_self_check dev s1 = Some s2" "drives s1 s2 [Out 0x64 0xAB, Out 0x64 0xA9] [p1, p2]"
    by (rule ports_self_check_effect [of dev s1])
  note d2 = drives_trans [OF 1(2) 2(2)]
  show thesis
  proof (cases "\<not> ps2_is_port1_valid s2 \<and> \<not> ps2_is_port2_valid s2")
    case True
    obtain s3 where 3: "kprintf (cstr ''ps/2: failed to initialize\<newline>'') [] s2 = Some s3" "drives s2 s3 [] []"
      by (rule drives_prints [OF literal_message [OF init_messages(1)]])
    show thesis by (rule that [OF _ drives_trans [OF d2 3(2)]]) (use True 1 2 3 in \<open>simp add: init_devices_def\<close>)
  next
    case False
    obtain ws3 c3 s3 where 3: "ps2_enable_ports dev s2 = Some s3" "drives s2 s3 ws3 [c3]"
      by (rule enable_ports_effect [of dev s2])
    obtain ws4 rs4 s4 where 4: "ps2_reset_devices dev s3 = Some s4" "drives s3 s4 ws4 rs4"
      by (rule reset_devices_effect)
    obtain s5 where 5: "kprintf (cstr ''ps/2: init done\<newline>'') [] s4 = Some s5" "drives s4 s5 [] []"
      by (rule drives_prints [OF literal_message [OF init_messages(2)]])
    show thesis
      by (rule that [OF _ drives_trans [OF drives_trans [OF drives_trans [OF d2 3(2)] 4(2)] 5(2)]])
         (use False 1 2 3 4 5 in \<open>auto simp: init_devices_def simp del: of_char_Char\<close>)
  qed
qed

lemma init_effect:
  obtains f c r st s' ws rs where "ps2_init dev s = Some s'"
    "drives s s' (init_writes c @ (if st = 0x55 then [Out 0x64 0x60, Out 0x60 (init_config c)] @ ws else []))
       ([f, c, r, st] @ rs)"
    "st \<noteq> 0x55 \<Longrightarrow> ps2_device1 s' = ps2_device1 s \<and> ps2_device2 s' = ps2_device2 s \<and>
       ps2_is_port1_valid s' = ps2_is_port1_valid s \<and> ps2_is_port2_valid s' = ps2_is_port2_valid s"
proof -
  obtain f c r s1 where 1: "ps2_configure dev s = (init_config c, s1)"
    "io_steps s s1 (butlast (init_writes c)) [f, c, r]"
    by (rule configure_effect) (rule that)
  define s2 where "s2 = command_when_ready dev IO_COMMAND_PS2_TEST_CONTROLLER s1"
  obtain st s3 where 3: "read_when_ready dev s2 = (st, s3)" by fastforce
  have "io_steps s1 s2 [Out 0x64 0xAA] []" using command_steps by (simp add: s2_def ps2_consts)
  from read_ready.run_then [OF io_steps_trans [OF 1(2) this] 3]
  have io3: "io_steps s s3 (init_writes c) [f, c, r, st]" by (simp add: init_writes_def)
  obtain s4 where 4: "kprintf (cstr ''ps/2: controller self-check passed: %s (response=0x%x)\<newline>'')
      [BOOL_YES_NO (st = 0x55), VWord (ucast st)] s3 = Some s4" "tty.more s4 = tty.more s3" "drives s3 s4 [] []"
    by (rule drives_prints [OF controller_message]) (rule that)
  have d4: "drives s s4 (init_writes c) [f, c, r, st]" using drives_trans [OF drives_io [OF io3] 4(3)] by simp
  note f4 = ps2_more_cong [OF 4(2)] io_steps_frame [OF io3]
  note unf = ps2_init_def Let_def 1(1) prod.case s2_def [symmetric] 3 4(1) bind.bind_lunit
  note result = that
  show thesis
  proof (cases "st = 0x55")
    case False
    obtain s5 where 5: "kprintf (cstr ''ps/2: failed to initialize\<newline>'') [] s4 = Some s5"
      "tty.more s5 = tty.more s4" "drives s4 s5 [] []"
      by (rule drives_prints [OF literal_message [OF init_messages(1)]]) (rule that)
    have "ps2_init dev s = Some s5" unfolding unf using False 5(1) by simp
    then show thesis
      by (rule result [where s' = s5 and st = st and rs = "[]" and c = c and f = f and r = r])
         (use False f4 drives_trans [OF d4 5(3)] ps2_more_cong [OF 5(2)] in simp_all)
  next
    case st: True
    define s5 where "s5 = data_when_ready dev (init_config c) (command_when_ready dev IO_COMMAND_PS2_WRITE_CONFIG s4)"
    have "io_steps s4 s5 [Out 0x64 0x60, Out 0x60 (init_config c)] []"
      using io_steps_trans [OF command_steps data_steps] by (fastforce simp: s5_def ps2_consts)
    from drives_trans [OF d4 drives_io [OF this]]
    have d5: "drives s s5 (init_writes c @ [Out 0x64 0x60, Out 0x60 (init_config c)]) [f, c, r, st]" by simp
    obtain s' ws rs where 6: "init_devices dev s5 = Some s'" "drives s5 s' ws rs" by (rule init_devices_effect)
    show thesis
    proof (rule result)
      show "ps2_init dev s = Some s'"
        unfolding unf using st 6(1) by (simp add: init_devices_def flip: s5_def)
      show "drives s s' (init_writes c @ (if st = 0x55 then [Out 0x64 0x60, Out 0x60 (init_config c)] @ ws else []))
          ([f, c, r, st] @ rs)"
        using drives_trans [OF d5 6(2)] st by simp
    qed (use st in simp)
  qed
qed

lemma drives_kernel_step: "r = Some s' \<Longrightarrow> drives s s' ws rs \<Longrightarrow> wf_tty s \<Longrightarrow> kernel_step s r"
  by (simp add: drives_def)

interpretation ps2_init: kernel_op "ps2_init dev" for dev
  by unfold_locales (metis init_effect drives_kernel_step)

interpretation ps2_enable: kernel_op "ps2_enable_ports dev" for dev
  by unfold_locales (metis enable_ports_effect drives_kernel_step)

interpretation ps2_reset: kernel_op "ps2_reset_devices dev" for dev
  by unfold_locales (metis reset_devices_effect drives_kernel_step)

section \<open>Properties\<close>

text \<open>A controller that answers with a given list of data bytes and is always ready for input.\<close>

definition script_device :: "u8 list port_device" where
  "script_device =
     \<lparr>dev_in = (\<lambda>port h. if port = IO_PORT_PS2_STATUS then (if h = [] then 0 else 1, h)
                else case h of [] \<Rightarrow> (0, []) | v # vs \<Rightarrow> (v, vs)),
      dev_out = (\<lambda>port v h. h)\<rparr>"

definition start_ps2 :: "u8 list \<Rightarrow> u8 list ps2" where
  "start_ps2 h = intr.extend start_intr
     (ps2.fields False False False
       \<lparr>device_type = ps2_device_type_unknown, device_status = ps2_device_status_not_connected, is_port_1 = True\<rparr>
       \<lparr>device_type = ps2_device_type_unknown, device_status = ps2_device_status_not_connected, is_port_1 = False\<rparr>
       h [])"

text \<open>
  C25: the wait for a data byte ends after at most 10001 status reads, and it reports success
  exactly when one of the first 10000 shows the output buffer full. (A controller that becomes
  ready at the last read, the 10001st, is reported as a timeout.)
\<close>

theorem wait_output_polls:
  "(case ps2_wait_output_ready dev s of (e, s') \<Rightarrow>
     (e = ps2_error_none \<longleftrightarrow> (\<exists>n<10000. status_at dev n (hw s) AND 0x01 \<noteq> 0)) \<and>
     length (io_trace s') \<le> length (io_trace s) + 10001)"
proof -
  obtain t s' where w: "wait_loop (ps2_output_ready dev) 10000 s = (t, s')" by fastforce
  have "ps2_output_ready dev s = (let (v, s) = ps2_read_status dev s in (v AND 0x01 \<noteq> 0, s))" for s :: "('a, 'b) ps2_scheme"
    by (simp add: ps2_output_ready_def)
  from wait_loop_polls [where P = "\<lambda>v. v AND 0x01 \<noteq> 0", OF this _ w] show ?thesis
    by (auto simp: ps2_wait_output_ready_def w not_le)
qed

text \<open>
  C24: a byte for a device. The port accesses are exactly: status reads until the controller takes a
  byte; for the second port the prefix command and another such wait; then the byte at the data port.
  A wait succeeds with the first of 100000000 status reads that shows the busy bit clear; if all of
  them show it set there is one more read, whose value does not count, the result is a timeout, and
  nothing is written after it.
\<close>

theorem device_write_ports:
  "(case ps2_device_write_data dev p data s of (e, s') \<Rightarrow>
     if is_port_1 (get_device p s)
     then (\<exists>vs. input_polls e vs \<and>
       io_trace s' = io_trace s @ status_reads vs @ (if e = ps2_error_none then [Out 0x60 data] else []))
     else (\<exists>vs. e = ps2_error_timeout \<and> input_polls e vs \<and> io_trace s' = io_trace s @ status_reads vs) \<or>
       (\<exists>vs vs'. input_polls ps2_error_none vs \<and> input_polls e vs' \<and>
         io_trace s' = io_trace s @ status_reads vs @ [Out 0x64 0xD4] @ status_reads vs' @
           (if e = ps2_error_none then [Out 0x60 data] else [])))"
proof -
  obtain e s' where r: "ps2_device_write_data dev p data s = (e, s')" by fastforce
  show ?thesis
  proof (cases "is_port_1 (get_device p s)")
    case True
    then show ?thesis using data_byte_trace [of dev s data e s'] r by (simp add: ps2_device_write_data_def)
  next
    case False
    obtain e1 s1 where w: "ps2_wait_input_ready dev s = (e1, s1)" by fastforce
    obtain vs where vs: "io_trace s1 = io_trace s @ status_reads vs" "input_polls e1 vs"
      by (rule wait_input_trace [OF w]) (rule that)
    show ?thesis
    proof (cases "e1 = ps2_error_none")
      case True
      with False r w data_byte_trace [of dev "ps2_write_command dev IO_COMMAND_PS2_WRITE_PORT2_INPUT s1" data e s'] vs
      show ?thesis by (fastforce simp: ps2_device_write_data_def ps2_write_command_def outb_def ps2_consts)
    next
      case timeout: False
      then have "e1 = ps2_error_timeout" by (cases e1) simp_all
      with False r w vs show ?thesis by (auto simp: ps2_device_write_data_def)
    qed
  qed
qed

text \<open>
  The self-check of the ports sends the two test commands in order, reads one byte after
  each, and records a port as valid exactly when its byte is zero.
\<close>

lemma ports_self_check_records:
  "\<exists>s' r1 r2. ps2_ports_self_check dev s = Some s' \<and>
     writes (io_trace s') = writes (io_trace s) @ [Out 0x64 0xAB, Out 0x64 0xA9] \<and>
     replies (io_trace s') = replies (io_trace s) @ [r1, r2] \<and>
     (ps2_is_port1_valid s' \<longleftrightarrow> r1 = 0) \<and> (ps2_is_port2_valid s' \<longleftrightarrow> r2 = 0)"
  by (rule ports_self_check_effect [of dev s]) (auto simp: drives_def)

text \<open>
  C23: enabling the ports enables exactly the valid ones and writes back the configuration byte it
  has read with the interrupt bits of the valid ports set and no other bit changed.
\<close>

theorem enable_ports_config:
  "\<exists>s' c. ps2_enable_ports dev s = Some s' \<and> replies (io_trace s') = replies (io_trace s) @ [c] \<and>
     writes (io_trace s') = writes (io_trace s) @
       (if ps2_is_port1_valid s then [Out 0x64 0xAE] else []) @
       (if ps2_is_port2_valid s then [Out 0x64 0xA8] else []) @
       [Out 0x64 0x20, Out 0x64 0x60,
        Out 0x60 (c OR (if ps2_is_port1_valid s then 1 else 0) OR (if ps2_is_port2_valid s then 2 else 0))]"
  by (rule enable_ports_effect [of dev s]) (auto simp: drives_def)

text \<open>
  C12: resetting a device implements \<open>reset_outcome\<close>: the status and the type it leaves are those
  of the bytes the device sent, and the other device is untouched. In particular a device that
  sends no id is recorded as a standard mouse.
\<close>

theorem reset_device_outcome:
  "\<exists>s' rs. ps2_reset_device dev p s = Some s' \<and> replies (io_trace s') = replies (io_trace s) @ rs \<and>
     (device_status (get_device p s'), device_type (get_device p s')) =
       reset_outcome (device_type (get_device p s)) rs \<and>
     is_port_1 (get_device p s') = is_port_1 (get_device p s) \<and>
     get_device (other_device p) s' = get_device (other_device p) s"
  by (rule reset_device_effect [of dev p s]) (auto simp: resets_def drives_def)

text \<open>
  C9: the initialisation is defined for every controller. It disables both ports, changes the
  configuration byte it reads, asks for the self-check, and goes on only when the answer is
  \<open>0x55\<close>, restoring the configuration first; otherwise it writes nothing more and neither the
  port flags nor the devices change.
\<close>

theorem ps2_init_protocol:
  "\<exists>s' f c r st ws rs. ps2_init dev s = Some s' \<and>
     writes (io_trace s') = writes (io_trace s) @ init_writes c @
       (if st = 0x55 then [Out 0x64 0x60, Out 0x60 (init_config c)] @ ws else []) \<and>
     replies (io_trace s') = replies (io_trace s) @ [f, c, r, st] @ rs \<and>
     (st = 0x55 \<or> ps2_device1 s' = ps2_device1 s \<and> ps2_device2 s' = ps2_device2 s \<and>
        ps2_is_port1_valid s' = ps2_is_port1_valid s \<and> ps2_is_port2_valid s' = ps2_is_port2_valid s)"
proof -
  obtain f c r st s' ws rs where "ps2_init dev s = Some s'"
    "drives s s' (init_writes c @ (if st = 0x55 then [Out 0x64 0x60, Out 0x60 (init_config c)] @ ws else []))
       ([f, c, r, st] @ rs)"
    "st \<noteq> 0x55 \<Longrightarrow> ps2_device1 s' = ps2_device1 s \<and> ps2_device2 s' = ps2_device2 s \<and>
       ps2_is_port1_valid s' = ps2_is_port1_valid s \<and> ps2_is_port2_valid s' = ps2_is_port2_valid s"
    by (rule init_effect) (rule that)
  then show ?thesis
    by (intro exI [of _ s'] exI [of _ f] exI [of _ c] exI [of _ r] exI [of _ st] exI [of _ ws] exI [of _ rs])
       (auto simp: drives_def)
qed

text \<open>
  The configuration written before the self-check has the interrupt and the clock bits of the
  first port and bit 5 cleared; the translation bit, bit 6, keeps its value, because the mask
  named after it is that of bit 5, the clock of the second port.
\<close>

lemma configure_translation:
  "\<exists>f c r. replies (io_trace (snd (ps2_configure dev s))) = replies (io_trace s) @ [f, c, r] \<and>
     fst (ps2_configure dev s) = c AND NOT 0x31 \<and>
     (bit (fst (ps2_configure dev s)) 6 \<longleftrightarrow> bit c 6) \<and> \<not> bit (fst (ps2_configure dev s)) 5"
proof -
  obtain f c r s' where c: "ps2_configure dev s = (init_config c, s')"
    "io_steps s s' (butlast (init_writes c)) [f, c, r]"
    by (rule configure_effect) (rule that)
  have "bit (init_config c) 6 = bit c 6" "\<not> bit (init_config c) 5"
    by (simp_all add: init_config_def bit_simps)
  with c io_steps_frame(11) [OF c(2)] show ?thesis by (auto simp: init_config_def)
qed

end
