(* ===== verification/Kernel.thy ===== *)
theory Kernel
  imports Ps2_Props
begin

text \<open>
  The boot path of the kernel, \<^verbatim>\<open>kernel/src/kernel.c\<close>: the self-tests of the memory routines,
  the report of the boot loader's information, and the two entry points, which run every other
  component in order. The addresses of the functions' local arrays and of the interrupt handler,
  and the values the boot loader leaves in the registers, are parameters.
\<close>

section \<open>Self-tests\<close>

text \<open>\<^verbatim>\<open>uint8_t a[n] = {};\<close>\<close>

definition zero_array :: "u32 \<Rightarrow> nat \<Rightarrow> mem \<Rightarrow> mem" where
  "zero_array a n m = fold (\<lambda>i m. m(a + of_nat i := 0)) [0..<n] m"

definition init_data_array :: "u32 \<Rightarrow> u32 \<Rightarrow> mem \<Rightarrow> mem" where
  "init_data_array data n m = fold (\<lambda>i m. m(data + of_nat i := of_nat i)) [0..<unat n] m"

text \<open>The loops \<^verbatim>\<open>passed &= ...\<close>\<close>

definition all_equal :: "u32 \<Rightarrow> u32 \<Rightarrow> mem \<Rightarrow> bool \<Rightarrow> bool" where
  "all_equal dst_array src_array m passed =
     fold (\<lambda>i passed. passed \<and> m (dst_array + of_nat i) = m (src_array + of_nat i)) [0..<256] passed"

text \<open>
  The loop that fills the source array is the one of \<open>init_data_array\<close>, written out in the
  function.
\<close>

definition test_memcpy :: "u32 \<Rightarrow> u32 \<Rightarrow> 'a tty_scheme \<Rightarrow> 'a tty_scheme option" where
  "test_memcpy src_array dst_array s =
     (let m = zero_array dst_array 256 (zero_array src_array 256 (memory s));
          m = init_data_array src_array 256 m;
          m = memcpy dst_array src_array 256 m;
          passed = all_equal dst_array src_array m True;
          m = memcpy src_array dst_array 256 m;
          passed = all_equal dst_array src_array m passed;
          s = s\<lparr>memory := m\<rparr>
      in if passed then kprintf (cstr ''memcpy okay\<newline>'') [] s else kprintf (cstr ''memcpy failed\<newline>'') [] s)"

record memmove_case =
  case_from :: u32
  case_to :: u32
  case_n :: u32

definition memmove_cases :: "memmove_case list" where
  "memmove_cases =
     [\<lparr>case_from = 0, case_to = 10, case_n = 10\<rparr>,
      \<lparr>case_from = 5, case_to = 10, case_n = 10\<rparr>,
      \<lparr>case_from = 10, case_to = 10, case_n = 10\<rparr>,
      \<lparr>case_from = 15, case_to = 10, case_n = 10\<rparr>,
      \<lparr>case_from = 20, case_to = 10, case_n = 10\<rparr>]"

definition run_memmove_case ::
  "u32 \<Rightarrow> nat \<Rightarrow> memmove_case \<Rightarrow> bool \<times> 'a tty_scheme \<Rightarrow> (bool \<times> 'a tty_scheme) option" where
  "run_memmove_case data testcase_idx c acc =
     (let (overall_passed, s) = acc;
          m = init_data_array data 256 (memory s);
          from = case_from c; to = case_to c; n = case_n c;
          m = memmove (data + to) (data + from) n m;
          passed = fold (\<lambda>i passed. passed \<and> ucast (m (data + (to + of_nat i))) = from + of_nat i)
                     [0..<unat n] True;
          overall_passed = (overall_passed \<and> passed)
      in do {
        s \<leftarrow> ASSERT_MSG passed (cstr ''passed'') (cstr ''memmove testcase %u failed'')
               [VWord (of_nat testcase_idx)] (s\<lparr>memory := m\<rparr>);
        Some (overall_passed, s)
      })"

fun run_memmove_cases ::
  "u32 \<Rightarrow> nat \<Rightarrow> memmove_case list \<Rightarrow> bool \<times> 'a tty_scheme \<Rightarrow> (bool \<times> 'a tty_scheme) option" where
  "run_memmove_cases data testcase_idx [] acc = Some acc"
| "run_memmove_cases data testcase_idx (c # cs) acc =
     do { acc \<leftarrow> run_memmove_case data testcase_idx c acc;
          run_memmove_cases data (testcase_idx + 1) cs acc }"

definition test_memmove :: "u32 \<Rightarrow> 'a tty_scheme \<Rightarrow> 'a tty_scheme option" where
  "test_memmove data s = do {
     (overall_passed, s) \<leftarrow>
       run_memmove_cases data 0 memmove_cases (True, s\<lparr>memory := zero_array data 256 (memory s)\<rparr>);
     if overall_passed then kprintf (cstr ''memmove okay\<newline>'') [] s
     else kprintf (cstr ''memmove failed\<newline>'') [] s
   }"

section \<open>The boot loader's information\<close>

text \<open>
  \<^verbatim>\<open>boot/multiboot.h\<close>. The symbol information is a union of two structures of four words: it is
  the four words, and each view names them. The end of the structure is a union of six bytes:
  it is the palette's address and size, and the view of a direct-colour mode reads the bytes.
\<close>

record multiboot_symbols =
  symbols_0 :: u32
  symbols_1 :: u32
  symbols_2 :: u32
  symbols_3 :: u32

definition tabsize :: "multiboot_symbols \<Rightarrow> u32" where "tabsize u = symbols_0 u"
definition strsize :: "multiboot_symbols \<Rightarrow> u32" where "strsize u = symbols_1 u"
definition aout_addr :: "multiboot_symbols \<Rightarrow> u32" where "aout_addr u = symbols_2 u"
definition aout_reserved :: "multiboot_symbols \<Rightarrow> u32" where "aout_reserved u = symbols_3 u"

definition elf_num :: "multiboot_symbols \<Rightarrow> u32" where "elf_num u = symbols_0 u"
definition elf_size :: "multiboot_symbols \<Rightarrow> u32" where "elf_size u = symbols_1 u"
definition elf_addr :: "multiboot_symbols \<Rightarrow> u32" where "elf_addr u = symbols_2 u"
definition elf_shndx :: "multiboot_symbols \<Rightarrow> u32" where "elf_shndx u = symbols_3 u"

record multiboot_info =
  mbi_flags :: u32
  mem_lower :: u32
  mem_upper :: u32
  boot_device :: u32
  cmdline :: u32
  mods_count :: u32
  mods_addr :: u32
  mbi_u :: multiboot_symbols
  mmap_length :: u32
  mmap_addr :: u32
  drives_length :: u32
  drives_addr :: u32
  config_table :: u32
  boot_loader_name :: u32
  apm_table :: u32
  vbe_control_info :: u32
  vbe_mode_info :: u32
  vbe_mode :: u16
  vbe_interface_seg :: u16
  vbe_interface_off :: u16
  vbe_interface_len :: u16
  framebuffer_addr :: u64
  framebuffer_pitch :: u32
  framebuffer_width :: u32
  framebuffer_height :: u32
  framebuffer_bpp :: u8
  framebuffer_type :: u8
  framebuffer_palette_addr :: u32
  framebuffer_palette_num_colors :: u16

definition framebuffer_red_field_position :: "multiboot_info \<Rightarrow> u8" where
  "framebuffer_red_field_position i = ucast (framebuffer_palette_addr i)"
definition framebuffer_red_mask_size :: "multiboot_info \<Rightarrow> u8" where
  "framebuffer_red_mask_size i = ucast (drop_bit 8 (framebuffer_palette_addr i))"
definition framebuffer_green_field_position :: "multiboot_info \<Rightarrow> u8" where
  "framebuffer_green_field_position i = ucast (drop_bit 16 (framebuffer_palette_addr i))"
definition framebuffer_green_mask_size :: "multiboot_info \<Rightarrow> u8" where
  "framebuffer_green_mask_size i = ucast (drop_bit 24 (framebuffer_palette_addr i))"
definition framebuffer_blue_field_position :: "multiboot_info \<Rightarrow> u8" where
  "framebuffer_blue_field_position i = ucast (framebuffer_palette_num_colors i)"
definition framebuffer_blue_mask_size :: "multiboot_info \<Rightarrow> u8" where
  "framebuffer_blue_mask_size i = ucast (drop_bit 8 (framebuffer_palette_num_colors i))"

definition PRINT_VAR :: "u8 list \<Rightarrow> va_arg \<Rightarrow> 'a tty_scheme \<Rightarrow> 'a tty_scheme option" where
  "PRINT_VAR var value s = kprintf (var @ cstr '': 0x%x\<newline>'') [value] s"

definition print_multiboot_info :: "multiboot_info \<Rightarrow> 'a tty_scheme \<Rightarrow> 'a tty_scheme option" where
  "print_multiboot_info mb_info s = do {
     s \<leftarrow> kprintf (cstr ''multiboot info:\<newline>'') [] s;
     s \<leftarrow> PRINT_VAR (cstr ''vbe_mode'') (VWord (ucast (vbe_mode mb_info))) s;
     s \<leftarrow> PRINT_VAR (cstr ''vbe_control_info'') (VWord (vbe_control_info mb_info)) s;
     s \<leftarrow> PRINT_VAR (cstr ''vbe_mode_info'') (VWord (vbe_mode_info mb_info)) s;
     s \<leftarrow> PRINT_VAR (cstr ''framebuffer_addr'') (VLongLong (framebuffer_addr mb_info)) s;
     s \<leftarrow> PRINT_VAR (cstr ''framebuffer_type'') (VWord (ucast (framebuffer_type mb_info))) s;
     s \<leftarrow> PRINT_VAR (cstr ''framebuffer_bpp'') (VWord (ucast (framebuffer_bpp mb_info))) s;
     s \<leftarrow> PRINT_VAR (cstr ''framebuffer_width'') (VWord (framebuffer_width mb_info)) s;
     s \<leftarrow> PRINT_VAR (cstr ''framebuffer_height'') (VWord (framebuffer_height mb_info)) s;
     s \<leftarrow> PRINT_VAR (cstr ''framebuffer_pitch'') (VWord (framebuffer_pitch mb_info)) s;
     s \<leftarrow> PRINT_VAR (cstr ''framebuffer_palette_addr'') (VWord (framebuffer_palette_addr mb_info)) s;
     PRINT_VAR (cstr ''framebuffer_palette_num_colors'')
       (VWord (ucast (framebuffer_palette_num_colors mb_info))) s
   }"

section \<open>Entry points\<close>

text \<open>
  The static variables of the file: what the registers \<open>eax\<close> and \<open>ebx\<close> hold when the kernel is
  entered. \<open>mb_info\<close> is the pointer.
\<close>

record 'h kernel = "'h ps2" +
  mb_magic :: u32
  mb_info :: u32

definition expect_mb_magic :: u32 where "expect_mb_magic = 0x2badb002"

definition kernel_early_main :: "u32 \<Rightarrow> u32 \<Rightarrow> ('h, 'a) kernel_scheme \<Rightarrow> ('h, 'a) kernel_scheme option" where
  "kernel_early_main eax ebx s =
     (let s = s\<lparr>mb_magic := eax\<rparr>; s = s\<lparr>mb_info := ebx\<rparr>; s = tty_init s
      in kprintf (cstr ''[early main]: mb_magic okay: %s\<newline>'') [BOOL_YES_NO (expect_mb_magic = mb_magic s)] s)"

definition test_handler :: "'a tty_scheme \<Rightarrow> 'a tty_scheme option" where
  "test_handler s = kprintf (cstr ''Interrupt handler works!\<newline>'') [] s"

text \<open>
  Calling through a function pointer: the kernel defines one handler, at the address \<open>th\<close>; a call
  anywhere else is a jump into the unknown.
\<close>

definition call_function :: "u32 \<Rightarrow> u32 \<Rightarrow> 'a tty_scheme \<Rightarrow> 'a tty_scheme option" where
  "call_function th f s = (if f = th then test_handler s else None)"

text \<open>
  \<open>src_array\<close> and \<open>dst_array\<close> are the addresses of the arrays of \<open>test_memcpy\<close>, \<open>data\<close> of the one
  of \<open>test_memmove\<close>.
\<close>

definition kernel_main ::
  "'h port_device \<Rightarrow> u32 \<Rightarrow> u32 \<Rightarrow> u32 \<Rightarrow> u32 \<Rightarrow> ('h, 'a) kernel_scheme \<Rightarrow> ('h, 'a) kernel_scheme option" where
  "kernel_main dev th src_array dst_array data s = do {
     s \<leftarrow> kprintf (cstr ''chp-os kernel_main\<newline>'') [] s;
     s \<leftarrow> kprintf (cstr ''[self-test]: memutil\<newline>'') [] s;
     s \<leftarrow> test_memcpy src_array dst_array s;
     s \<leftarrow> test_memmove data s;
     s \<leftarrow> gdt_init s;
     s \<leftarrow> gdt_flush s;
     s \<leftarrow> Some (idt_init s);
     s \<leftarrow> idt_register_handler 32 th s;
     s \<leftarrow> idt_flush s;
     s \<leftarrow> software_interrupt (call_function th) 32 s;
     s \<leftarrow> software_interrupt (call_function th) 33 s;
     s \<leftarrow> Some (tty_print_colormap s);
     ps2_init dev s
   }"

text \<open>
  \<^verbatim>\<open>arch/i686/start.s\<close>: the early entry point, the constructors, of which the kernel has one and
  it does nothing, and the main entry point. The machine then hangs with interrupts off.
\<close>

definition test_constructor :: "'s \<Rightarrow> 's" where
  "test_constructor s = s"

definition start ::
  "'h port_device \<Rightarrow> u32 \<Rightarrow> u32 \<Rightarrow> u32 \<Rightarrow> u32 \<Rightarrow> u32 \<Rightarrow> u32 \<Rightarrow> ('h, 'a) kernel_scheme \<Rightarrow> ('h, 'a) kernel_scheme option" where
  "start dev th src_array dst_array data eax ebx s = do {
     s \<leftarrow> kernel_early_main eax ebx s;
     s \<leftarrow> Some (test_constructor s);
     kernel_main dev th src_array dst_array data s
   }"

end
