(* ===== verification/Screen.thy ===== *)
theory Screen
  imports Tty
begin

text \<open>
  The abstract console: a screen of 25 rows of 80 cells with a cursor and a colour, what each
  console operation means on it, and the refinement proof that the operations of
  \<^verbatim>\<open>kernel/src/io/tty/tty.c\<close> on the mapped video memory implement that meaning.
\<close>

section \<open>The abstract screen\<close>

record screen =
  rows :: "u16 list list"
  scol :: nat
  srow :: nat
  scolor :: u8

definition blank_cell :: "u8 \<Rightarrow> u16" where
  "blank_cell color = push_bit 8 (ucast color) OR of_char CHR '' ''"

definition scr_clear :: "screen \<Rightarrow> screen" where
  "scr_clear t = t\<lparr>rows := replicate VGA_ROWS (replicate VGA_COLS (blank_cell (scolor t))),
     scol := 0, srow := 0\<rparr>"

definition scr_scroll :: "screen \<Rightarrow> screen" where
  "scr_scroll t = t\<lparr>rows := tl (rows t) @ [replicate VGA_COLS (blank_cell (scolor t))]\<rparr>"

definition scr_next_line :: "screen \<Rightarrow> screen" where
  "scr_next_line t =
     (if srow t + 1 \<ge> VGA_ROWS then scr_scroll (t\<lparr>scol := 0\<rparr>)
      else t\<lparr>scol := 0, srow := srow t + 1\<rparr>)"

definition scr_write :: "u16 \<Rightarrow> screen \<Rightarrow> screen" where
  "scr_write v t = t\<lparr>rows := (rows t)[srow t := (rows t ! srow t)[scol t := v]]\<rparr>"

definition scr_putc :: "u8 \<Rightarrow> screen \<Rightarrow> screen" where
  "scr_putc c t =
     (if c = ch CHR ''\<newline>'' then scr_next_line t
      else (let t = scr_write (char_cell (scolor t) c) t
            in if scol t + 1 \<ge> VGA_COLS then scr_next_line t else t\<lparr>scol := scol t + 1\<rparr>))"

definition scr_puts :: "u8 list \<Rightarrow> screen \<Rightarrow> screen" where
  "scr_puts cs = fold scr_putc (takeWhile (\<lambda>c. c \<noteq> 0) cs)"

section \<open>The screen a console state shows\<close>

definition abs_rows :: "'a tty_scheme \<Rightarrow> u16 list list" where
  "abs_rows s = map (\<lambda>r. map (\<lambda>c. cell s (VGA_COLS * r + c)) [0..<VGA_COLS]) [0..<VGA_ROWS]"

definition abs_screen :: "'a tty_scheme \<Rightarrow> screen" where
  "abs_screen s = \<lparr>rows = abs_rows s, scol = nat (vga_col s), srow = nat (vga_row s),
     scolor = tty_color s\<rparr>"

lemma abs_screen_sel [simp]:
  "rows (abs_screen s) = abs_rows s" "scol (abs_screen s) = nat (vga_col s)"
  "srow (abs_screen s) = nat (vga_row s)" "scolor (abs_screen s) = tty_color s"
  by (simp_all add: abs_screen_def)

lemma length_abs_rows [simp]: "length (abs_rows s) = VGA_ROWS"
  by (simp add: abs_rows_def)

lemma length_abs_row [simp]: "r < VGA_ROWS \<Longrightarrow> length (abs_rows s ! r) = VGA_COLS"
  by (simp add: abs_rows_def)

lemma nth_abs_rows [simp]:
  "r < VGA_ROWS \<Longrightarrow> c < VGA_COLS \<Longrightarrow> abs_rows s ! r ! c = cell s (VGA_COLS * r + c)"
  by (simp add: abs_rows_def)

lemma grid_index_bound: "r < VGA_ROWS \<Longrightarrow> c < VGA_COLS \<Longrightarrow> VGA_COLS * r + c < n_cells"
  by (simp add: vga_dims)

lemma grid_index_eq:
  assumes "c < VGA_COLS" "c' < VGA_COLS"
  shows "VGA_COLS * r + c = VGA_COLS * r' + c' \<longleftrightarrow> r = r' \<and> c = c'"
proof
  assume eq: "VGA_COLS * r + c = VGA_COLS * r' + c'"
  have "r = (VGA_COLS * r + c) div VGA_COLS" "c = (VGA_COLS * r + c) mod VGA_COLS"
    using assms(1) by simp_all
  moreover have "r' = (VGA_COLS * r' + c') div VGA_COLS" "c' = (VGA_COLS * r' + c') mod VGA_COLS"
    using assms(2) by simp_all
  ultimately show "r = r' \<and> c = c'" unfolding eq by argo
qed simp

lemma abs_rows_eqI:
  assumes "length R = VGA_ROWS"
    and "\<And>r. r < VGA_ROWS \<Longrightarrow> length (R ! r) = VGA_COLS"
    and "\<And>r c. r < VGA_ROWS \<Longrightarrow> c < VGA_COLS \<Longrightarrow> cell s (VGA_COLS * r + c) = R ! r ! c"
  shows "abs_rows s = R"
proof (rule nth_equalityI)
  fix r assume "r < length (abs_rows s)"
  with assms show "abs_rows s ! r = R ! r" by (intro nth_equalityI) simp_all
qed (simp add: assms(1))

lemma abs_rows_update [simp]:
  "abs_rows (vga_col_update f s) = abs_rows s" "abs_rows (vga_row_update g s) = abs_rows s"
  "abs_rows (tty_color_update h s) = abs_rows s"
  by (simp_all add: abs_rows_def)

section \<open>Refinement\<close>

text \<open>
  The contract of a refined console operation: besides the console contract it comes with its
  meaning on the abstract screen.
\<close>

locale screen_op = tty_op operation for operation :: "'a tty_scheme \<Rightarrow> 'a tty_scheme" +
  fixes meaning :: "screen \<Rightarrow> screen"
  assumes refines: "wf_tty s \<Longrightarrow> abs_screen (operation s) = meaning (abs_screen s)"
begin

lemma refines_iterate: "wf_tty s \<Longrightarrow> abs_screen ((operation ^^ n) s) = (meaning ^^ n) (abs_screen s)"
proof (induction n)
  case (Suc n)
  have "wf_tty ((operation ^^ n) s)" using Suc.prems by (induction n) (simp_all add: op_wf)
  with Suc show ?case by (simp add: refines)
qed simp

end

lemma screen_op_comp:
  assumes "screen_op f F" "screen_op g G"
  shows "screen_op (\<lambda>s. g (f s)) (\<lambda>t. G (F t))"
  using assms by (simp add: screen_op_def screen_op_axioms_def tty_op_def)

lemma screen_op_fold:
  assumes "\<And>x. screen_op (f x) (F x)"
  shows "screen_op (fold f xs) (fold F xs)"
proof (induction xs)
  case Nil
  show ?case by (simp add: screen_op_def screen_op_axioms_def tty_op_def)
next
  case (Cons x xs)
  then show ?case using screen_op_comp [OF assms Cons.IH, of x] by (simp add: comp_def)
qed

lemma abs_rows_vga_store:
  assumes "wf_tty s"
  shows "abs_rows (vga_store (of_nat (cursor s)) v s) =
    (abs_rows s)[nat (vga_row s) := (abs_rows s ! nat (vga_row s))[nat (vga_col s) := v]]"
    (is "_ = ?R")
proof (rule abs_rows_eqI)
  let ?r = "nat (vga_row s)" and ?c = "nat (vga_col s)"
  have bounds: "?r < VGA_ROWS" "?c < VGA_COLS" using assms by (auto simp: wf_tty_def)
  have cur: "cursor s = VGA_COLS * ?r + ?c"
    using assms by (simp add: cursor_def wf_tty_def nat_add_distrib nat_mult_distrib)
  show "length ?R = VGA_ROWS" by simp
  show "length (?R ! r) = VGA_COLS" if "r < VGA_ROWS" for r
    using that bounds by (simp add: nth_list_update)
  show "cell (vga_store (of_nat (cursor s)) v s) (VGA_COLS * r + c) = ?R ! r ! c"
    if "r < VGA_ROWS" "c < VGA_COLS" for r c
  proof -
    have "cell (vga_store (of_nat (cursor s)) v s) (VGA_COLS * r + c) =
        (if VGA_COLS * r + c = cursor s then v else cell s (VGA_COLS * r + c))"
      using grid_index_bound [OF that] cursor_bound [OF assms] by (rule cell_vga_store)
    then show ?thesis
      using that bounds by (auto simp: cur grid_index_eq nth_list_update)
  qed
qed

lemma abs_rows_scroll:
  "abs_rows (tty_scroll_up s) = tl (abs_rows s) @ [replicate VGA_COLS (blank_cell (tty_color s))]"
  (is "_ = ?R")
proof (rule abs_rows_eqI)
  show "length ?R = VGA_ROWS" by (simp add: vga_dims)
  have R: "?R ! r = (if r < VGA_ROWS - 1 then abs_rows s ! Suc r
                     else replicate VGA_COLS (blank_cell (tty_color s)))" if "r < VGA_ROWS" for r
    using that by (auto simp: nth_append nth_tl)
  show "length (?R ! r) = VGA_COLS" if "r < VGA_ROWS" for r
    using R [OF that] by simp
  show "cell (tty_scroll_up s) (VGA_COLS * r + c) = ?R ! r ! c"
    if "r < VGA_ROWS" "c < VGA_COLS" for r c
    using that R [OF that(1)] grid_index_bound [OF that]
    by (auto simp: mem_simps get_blank_def blank_cell_def vga_dims algebra_simps)
qed

lemma abs_scroll: "abs_screen (tty_scroll_up s) = scr_scroll (abs_screen s)"
  by (simp add: abs_screen_def scr_scroll_def abs_rows_scroll)

lemma abs_screen_update:
  "abs_screen (s\<lparr>vga_col := x\<rparr>) = (abs_screen s)\<lparr>scol := nat x\<rparr>"
  "abs_screen (s\<lparr>vga_row := y\<rparr>) = (abs_screen s)\<lparr>srow := nat y\<rparr>"
  "abs_screen (s\<lparr>tty_color := c\<rparr>) = (abs_screen s)\<lparr>scolor := c\<rparr>"
  by (simp_all add: abs_screen_def)

lemma abs_next_line:
  assumes "wf_tty s"
  shows "abs_screen (next_line s) = scr_next_line (abs_screen s)"
proof -
  have "vga_row s + 1 \<ge> int VGA_ROWS \<longleftrightarrow> nat (vga_row s) + 1 \<ge> VGA_ROWS"
    and "nat (vga_row s + 1) = nat (vga_row s) + 1"
    using assms by (auto simp: wf_tty_def)
  then show ?thesis
    by (simp add: next_line_def scr_next_line_def abs_scroll abs_screen_update)
qed

lemma abs_write:
  assumes "wf_tty s"
  shows "abs_screen (vga_store (of_nat (cursor s)) v s) = scr_write v (abs_screen s)"
  by (simp add: abs_screen_def scr_write_def abs_rows_vga_store [OF assms])

lemma wf_vga_store [simp]: "wf_tty (vga_store i v s) = wf_tty s"
  by (simp add: wf_tty_def)

lemma abs_putc:
  assumes "wf_tty s"
  shows "abs_screen (tty_putc c s) = scr_putc c (abs_screen s)"
proof (cases "c = ch CHR ''\<newline>''")
  case True
  with assms show ?thesis
    by (simp add: tty_putc_newline scr_putc_def abs_next_line del: of_char_Char)
next
  case False
  let ?s = "vga_store (of_nat (cursor s)) (char_cell (tty_color s) c) s"
  have abs: "abs_screen ?s = scr_write (char_cell (tty_color s) c) (abs_screen s)"
    by (rule abs_write [OF assms])
  have adv: "abs_screen (?s\<lparr>vga_col := vga_col s + 1\<rparr>) = (abs_screen ?s)\<lparr>scol := nat (vga_col s) + 1\<rparr>"
    using assms by (simp add: abs_screen_def wf_tty_def nat_add_distrib)
  have "vga_col s + 1 \<ge> int VGA_COLS \<longleftrightarrow> nat (vga_col s) + 1 \<ge> VGA_COLS"
    using assms by (auto simp: wf_tty_def)
  then show ?thesis
    using False assms
    by (simp add: tty_putc_char scr_putc_def Let_def abs_next_line abs adv)
       (simp add: scr_write_def)
qed

lemma abs_rows_clear:
  "abs_rows (tty_clear s) = replicate VGA_ROWS (replicate VGA_COLS (blank_cell (tty_color s)))"
proof (rule abs_rows_eqI)
  show "cell (tty_clear s) (VGA_COLS * r + c) =
      replicate VGA_ROWS (replicate VGA_COLS (blank_cell (tty_color s))) ! r ! c"
    if "r < VGA_ROWS" "c < VGA_COLS" for r c
    using that grid_index_bound [OF that]
    by (simp add: mem_simps get_blank_def blank_cell_def)
qed simp_all

lemma abs_clear: "abs_screen (tty_clear s) = scr_clear (abs_screen s)"
  by (simp add: abs_screen_def scr_clear_def abs_rows_clear)

lemma putc_screen_op: "screen_op (tty_putc c) (scr_putc c)"
  by (intro screen_op.intro tty_putc_op screen_op_axioms.intro abs_putc)

lemma tty_puts_fold: "tty_puts cs = fold tty_putc (takeWhile (\<lambda>c. c \<noteq> 0) cs)"
proof
  show "tty_puts cs s = fold tty_putc (takeWhile (\<lambda>c. c \<noteq> 0) cs) s" for s :: "'a tty_scheme"
    by (induction cs arbitrary: s) simp_all
qed

lemma puts_screen_op: "screen_op (tty_puts cs) (scr_puts cs)"
  unfolding tty_puts_fold scr_puts_def by (rule screen_op_fold [OF putc_screen_op])

interpretation clear_scr: screen_op tty_clear scr_clear
  by (intro screen_op.intro tty_clear_op screen_op_axioms.intro abs_clear)
interpretation putc_scr: screen_op "tty_putc c" "scr_putc c" for c by (rule putc_screen_op)
interpretation puts_scr: screen_op "tty_puts cs" "scr_puts cs" for cs by (rule puts_screen_op)
interpretation fg_scr: screen_op "tty_set_fg c" "\<lambda>t. t\<lparr>scolor := (scolor t AND 0xF0) OR (c AND 0x0F)\<rparr>" for c
  by (intro screen_op.intro tty_set_fg_op screen_op_axioms.intro)
     (simp add: tty_set_fg_def abs_screen_update)
interpretation bg_scr: screen_op "tty_set_bg c" "\<lambda>t. t\<lparr>scolor := (push_bit 4 c AND 0xF0) OR (scolor t AND 0x0F)\<rparr>" for c
  by (intro screen_op.intro tty_set_bg_op screen_op_axioms.intro)
     (simp add: tty_set_bg_def abs_screen_update)

section \<open>Text on one row\<close>

text \<open>A character that is neither the end of a string nor a line feed.\<close>

definition plain_char :: "u8 \<Rightarrow> bool" where
  "plain_char c \<longleftrightarrow> c \<noteq> 0 \<and> c \<noteq> ch CHR ''\<newline>''"

definition scr_text :: "u8 list \<Rightarrow> screen \<Rightarrow> screen" where
  "scr_text cs t = t\<lparr>rows := (rows t)[srow t :=
       take (scol t) (rows t ! srow t) @ map (char_cell (scolor t)) cs @
       drop (scol t + length cs) (rows t ! srow t)],
     scol := scol t + length cs\<rparr>"

lemma takeWhile_plain: "\<forall>c\<in>set cs. plain_char c \<Longrightarrow> takeWhile (\<lambda>c. c \<noteq> 0) cs = cs"
  by (simp add: takeWhile_eq_all_conv plain_char_def)

lemma fold_scr_putc_text:
  assumes "\<forall>c\<in>set cs. plain_char c" "scol t + length cs < VGA_COLS"
    and "srow t < length (rows t)" "length (rows t ! srow t) = VGA_COLS"
  shows "fold scr_putc cs t = scr_text cs t"
  using assms
proof (induction cs arbitrary: t)
  case Nil
  then show ?case by (simp add: scr_text_def)
next
  case (Cons c cs)
  let ?v = "char_cell (scolor t) c" and ?row = "rows t ! srow t"
  let ?t = "(scr_write ?v t)\<lparr>scol := scol t + 1\<rparr>"
  have step: "scr_putc c t = ?t"
    using Cons.prems by (simp add: scr_putc_def plain_char_def scr_write_def Let_def)
  have "fold scr_putc cs ?t = scr_text cs ?t"
    using Cons.prems by (intro Cons.IH) (simp_all add: scr_write_def)
  moreover have "take (Suc (scol t)) (?row[scol t := ?v]) = take (scol t) ?row @ [?v]"
    using Cons.prems by (simp add: take_Suc_conv_app_nth)
  ultimately show ?case
    using Cons.prems by (simp add: step) (simp add: scr_text_def scr_write_def)
qed

lemma bit_byte_cases: "bit (c :: u8) n \<Longrightarrow> n < 7 \<or> n = 7"
  by (auto dest: bit_imp_le_length)

section \<open>Properties\<close>

text \<open>
  C6: printing a character implements its meaning on the abstract screen: the cell under the
  cursor gets the character in the current colour, the cursor moves on, a line feed or the
  end of a row starts the next row, and past the last row the screen scrolls up by one row.
\<close>

theorem tty_putc_refines:
  assumes "wf_tty s"
  shows "abs_screen (tty_putc c s) = scr_putc c (abs_screen s)"
  using assms by (rule putc_scr.refines)

definition start_tty :: "tty" where
  "start_tty = \<lparr>memory = (\<lambda>_. 0), vga_col = 0, vga_row = 0, tty_color = 0x0F\<rparr>"

lemma wf_start_tty [simp]: "wf_tty start_tty"
  by (simp add: start_tty_def wf_tty_def vga_dims)

theorem tty_putc_refines_witness:
  "scol (abs_screen (tty_putc (ch CHR ''A'') start_tty)) = 1"
  using tty_putc_refines [OF wf_start_tty, where c = "ch CHR ''A''"]
  by (simp add: scr_putc_def scr_write_def scr_next_line_def vga_dims start_tty_def)

text \<open>
  A zero-terminated string refines to its characters in order, and printing it keeps the
  cursor on the screen, writes no byte outside the text buffer and leaves the other
  components' globals alone.
\<close>

lemma tty_puts_refines:
  assumes "wf_tty s"
  shows "abs_screen (tty_puts cs s) = scr_puts cs (abs_screen s) \<and> wf_tty (tty_puts cs s) \<and>
    tty.more (tty_puts cs s) = tty.more s \<and>
    (\<forall>a. \<not> vga_byte a \<longrightarrow> memory (tty_puts cs s) a = memory s a)"
  using puts_scr.refines [OF assms] puts.op_safe [OF assms] by blast

text \<open>
  Text without line feeds that fits on the cursor's row appears on it, character for
  character in the current colour, right of what was there; no other row changes.
\<close>

lemma tty_puts_line:
  assumes "wf_tty s" "\<forall>c\<in>set cs. plain_char c" "nat (vga_col s) + length cs < VGA_COLS"
  shows "abs_screen (tty_puts cs s) = scr_text cs (abs_screen s)"
proof -
  have "srow (abs_screen s) < length (rows (abs_screen s))"
    and "length (rows (abs_screen s) ! srow (abs_screen s)) = VGA_COLS"
    using assms(1) by (auto simp: wf_tty_def)
  then have "fold scr_putc cs (abs_screen s) = scr_text cs (abs_screen s)"
    using assms by (intro fold_scr_putc_text) simp_all
  then show ?thesis
    using puts_scr.refines [OF assms(1)] assms(2) by (simp add: scr_puts_def takeWhile_plain)
qed

text \<open>
  Initialising the console blanks every cell of the screen in the current colour and puts
  the cursor in the top left corner, from whatever state and memory it starts.
\<close>

lemma tty_init_clears:
  "abs_screen (tty_init s) =
    \<lparr>rows = replicate VGA_ROWS (replicate VGA_COLS (blank_cell (tty_color s))),
     scol = 0, srow = 0, scolor = tty_color s\<rparr>"
  by (simp add: tty_init_def abs_screen_def abs_rows_clear)

lemma char_cell_ascii:
  assumes "c < 0x80"
  shows "ucast (char_cell color c) = c \<and> ucast (drop_bit 8 (char_cell color c)) = color"
proof -
  have n7: "\<not> bit c 7" using assms by (simp add: bit7_iff)
  from n7 have low: "bit (scast c :: u16) n \<longleftrightarrow> bit c n" for n
    using bit_byte_cases [of c n] by (cases "n < 7") (auto simp: bit_simps min_def)
  have "ucast (char_cell color c) = c"
    by (rule bit_word_eqI) (simp add: char_cell_def bit_ucast_iff bit_or_iff bit_push_bit_iff low)
  moreover have "ucast (drop_bit 8 (char_cell color c)) = color"
    by (rule bit_word_eqI) (auto simp: char_cell_def bit_simps min_def n7 dest: bit_imp_le_length)
  ultimately show ?thesis ..
qed

lemma char_cell_high:
  assumes "0x80 \<le> c"
  shows "ucast (char_cell color c) = c \<and> drop_bit 8 (char_cell color c) = 0xFF"
proof -
  have "bit c 7" using assms by (simp add: bit7_iff)
  have "ucast (char_cell color c) = c"
  proof (rule bit_word_eqI)
    fix n assume "n < LENGTH(8)"
    then have "n < 7 \<or> n = 7" by auto
    then show "bit (ucast (char_cell color c) :: u8) n = bit c n"
      by (auto simp: char_cell_def bit_simps min_def)
  qed
  moreover have "drop_bit 8 (char_cell color c) = mask 8"
    using \<open>bit c 7\<close>
    by (intro bit_word_eqI) (auto simp: char_cell_def bit_simps min_def)
  moreover have "(mask 8 :: u16) = 0xFF" by (simp add: mask_eq_exp_minus_1)
  ultimately show ?thesis by simp
qed

text \<open>
  Every character is stored with its own code in the low byte of its cell. A 7-bit character
  has the current colour, unchanged, in the attribute byte; a character from \<open>0x80\<close> on loses the
  colour: its sign extension sets every bit of the attribute, bright white on bright white
  (blinking, in the default VGA mode).
\<close>

lemma char_cell_bytes:
  "ucast (char_cell color c) = c \<and>
   ucast (drop_bit 8 (char_cell color c)) = (if c < 0x80 then color else 0xFF)"
  using char_cell_ascii [of c color] char_cell_high [of c color] by (cases "c < 0x80") (simp_all flip: not_less)

text \<open>
  The colour setters change one nibble each, to the low nibble of their argument, and
  keep the other; printing the colour map leaves white on black whatever the colour was.
\<close>

lemma tty_colors:
  "tty_color (tty_set_fg c s) AND 0x0F = c AND 0x0F \<and>
   tty_color (tty_set_fg c s) AND 0xF0 = tty_color s AND 0xF0 \<and>
   tty_color (tty_set_bg c s) AND 0xF0 = push_bit 4 (c AND 0x0F) \<and>
   tty_color (tty_set_bg c s) AND 0x0F = tty_color s AND 0x0F \<and>
   tty_color (tty_print_colormap s) = 0x0F"
proof -
  have "push_bit 4 (c AND 0x0F) = push_bit 4 c AND 0xF0" by (simp add: push_bit_and)
  moreover have "tty_color (tty_print_colormap s) = 0x0F"
    by (simp add: tty_print_colormap_def tty_set_fg_def tty_set_bg_def Let_def
        bit.conj_disj_distrib2 and.assoc)
  ultimately show ?thesis
    by (simp add: tty_set_fg_def tty_set_bg_def bit.conj_disj_distrib2 and.assoc)
qed

end
