(* ===== verification/Kernel_Props.thy ===== *)
theory Kernel_Props
  imports Kernel Screen
begin

text \<open>
  The boot path: the self-tests pass, the tables of the processor are installed and the sample
  interrupt reaches its handler, and the whole of \<open>kernel_main\<close> is defined for every PS/2
  controller, with the state it leaves. The proofs use only the contracts of the components.
\<close>

section \<open>The arrays of the self-tests\<close>

lemma fold_store:
  assumes "n \<le> 2 ^ 32"
  shows "fold (\<lambda>i m. m(a + of_nat i := f i)) [0..<n] m =
    (\<lambda>x. if in_region a n x then f (unat (x - a)) else m x)"
  using assms
proof (induction n)
  case 0
  then show ?case by (simp add: in_region_def)
next
  case (Suc n)
  have "(x = a + of_nat n) = (unat (x - a) = n)" for x
    using Suc.prems by (intro eq_plus_of_nat_iff) simp
  moreover have "in_region a (Suc n) x \<longleftrightarrow> in_region a n x \<or> unat (x - a) = n" for x
    by (auto simp: in_region_def)
  ultimately show ?case using Suc by (simp add: fun_eq_iff)
qed

lemma zero_array_frame: "n \<le> 2 ^ 32 \<Longrightarrow> \<not> in_region a n x \<Longrightarrow> zero_array a n m x = m x"
  by (simp add: zero_array_def fold_store)

lemma init_data_array_eq:
  "init_data_array data n m = (\<lambda>x. if in_region data (unat n) x then of_nat (unat (x - data)) else m x)"
proof -
  have "unat n \<le> 2 ^ 32" using unat_lt [of n] by simp
  then show ?thesis by (simp add: init_data_array_def fold_store)
qed

lemma init_data_array_frame: "\<not> in_region data (unat n) x \<Longrightarrow> init_data_array data n m x = m x"
  by (simp add: init_data_array_eq)

lemma fold_passed: "fold (\<lambda>i passed. passed \<and> P i) is passed \<longleftrightarrow> passed \<and> (\<forall>i\<in>set is. P i)"
  by (induction "is" arbitrary: passed) auto

lemma all_equal_iff: "all_equal dst src m p \<longleftrightarrow> p \<and> (\<forall>i<256. m (dst + of_nat i) = m (src + of_nat i))"
  unfolding all_equal_def by (simp add: fold_passed del: upt_rec_numeral) auto

text \<open>Two objects of a program do not overlap.\<close>

definition apart :: "u32 \<Rightarrow> u32 \<Rightarrow> nat \<Rightarrow> bool" where
  "apart a b n \<longleftrightarrow> (\<forall>x. \<not> (in_region a n x \<and> in_region b n x))"

lemma apartI: "unat a + n \<le> unat b \<Longrightarrow> valid_region b n \<Longrightarrow> apart a b n"
  using in_region_iff [of a n] in_region_iff [of b n] by (auto simp: apart_def valid_region_def)

lemma apart_sym: "apart a b n \<longleftrightarrow> apart b a n"
  by (auto simp: apart_def)

lemma memcpy_twice:
  assumes "valid_region src 256" "valid_region dst 256" "apart src dst 256"
  shows "all_equal dst src (memcpy dst src 256 m) True"
    "all_equal dst src (memcpy src dst 256 m) True"
    "\<not> in_region src 256 x \<Longrightarrow> \<not> in_region dst 256 x \<Longrightarrow> memcpy src dst 256 m x = m x"
    "\<not> in_region dst 256 x \<Longrightarrow> memcpy dst src 256 m x = m x"
proof -
  have copy: "memcpy a b 256 m = block_copy a b 256 m" if "valid_region a 256" "valid_region b 256" for a b
    using copy.move_block [of a 256 b m] that by simp
  have reg: "in_region a 256 (a + of_nat i)" if "valid_region a 256" "i < 256" for a i
    using that by (rule in_region_offset)
  have "\<not> in_region dst 256 (src + of_nat i)" "\<not> in_region src 256 (dst + of_nat i)" if "i < 256" for i
    using assms reg that by (auto simp: apart_def)
  then show "all_equal dst src (memcpy dst src 256 m) True" "all_equal dst src (memcpy src dst 256 m) True"
    using reg assms by (simp_all add: all_equal_iff copy block_copy_def)
  show "\<not> in_region src 256 x \<Longrightarrow> \<not> in_region dst 256 x \<Longrightarrow> memcpy src dst 256 m x = m x"
    "\<not> in_region dst 256 x \<Longrightarrow> memcpy dst src 256 m x = m x"
    using assms by (simp_all add: copy block_copy_def)
qed

text \<open>A state that differs in memory, and there only inside some regions.\<close>

lemma test_memcpy_effect:
  assumes "valid_region src 256" "valid_region dst 256" "apart src dst 256"
  obtains m where "test_memcpy src dst s = kprintf (cstr ''memcpy okay\<newline>'') [] (s\<lparr>memory := m\<rparr>)"
    "\<And>x. \<not> in_region src 256 x \<Longrightarrow> \<not> in_region dst 256 x \<Longrightarrow> m x = memory s x"
proof -
  let ?m1 = "init_data_array src 256 (zero_array dst 256 (zero_array src 256 (memory s)))"
  let ?m2 = "memcpy dst src 256 ?m1"
  let ?m3 = "memcpy src dst 256 ?m2"
  note cp = memcpy_twice [OF assms]
  have "test_memcpy src dst s = kprintf (cstr ''memcpy okay\<newline>'') [] (s\<lparr>memory := ?m3\<rparr>)"
    unfolding test_memcpy_def Let_def using cp(1,2) by (simp only: if_True)
  moreover have "?m3 x = memory s x" if "\<not> in_region src 256 x" "\<not> in_region dst 256 x" for x
    using that cp(3,4) by (simp add: init_data_array_frame zero_array_frame)
  ultimately show thesis by (rule that)
qed

definition case_fits :: "memmove_case \<Rightarrow> bool" where
  "case_fits c \<longleftrightarrow> 0 < case_n c \<and> unat (case_from c) + unat (case_n c) \<le> 256 \<and>
     unat (case_to c) + unat (case_n c) \<le> 256"

text \<open>One test case: the block is inside the array and its bytes are the indices.\<close>

lemma run_memmove_case_effect:
  assumes "valid_region data 256" "case_fits c"
  obtains m where "run_memmove_case data k c (p, s) = Some (p, s\<lparr>memory := m\<rparr>)"
    "\<And>x. \<not> in_region data 256 x \<Longrightarrow> m x = memory s x"
proof -
  let ?from = "case_from c" and ?to = "case_to c" and ?n = "case_n c"
  let ?m = "init_data_array data 256 (memory s)"
  have fits: "0 < unat ?n" "unat ?from + unat ?n \<le> 256" "unat ?to + unat ?n \<le> 256"
    using assms(2) by (simp_all add: case_fits_def unat_gt_0 word_neq_0_conv)
  have at: "unat (data + w) = unat data + unat w" "valid_region (data + w) (unat ?n)"
    if "unat w + unat ?n \<le> 256" for w
  proof -
    show 1: "unat (data + w) = unat data + unat w"
      using that assms(1) fits(1) by (intro unat_plus) (auto simp: valid_region_def)
    show "valid_region (data + w) (unat ?n)" using that assms(1) 1 by (simp add: valid_region_def)
  qed
  have n: "unat ?n \<le> 2 ^ 31" using fits(2) by simp
  have mv: "memmove (data + ?to) (data + ?from) ?n ?m = block_copy (data + ?to) (data + ?from) (unat ?n) ?m"
    using at(2) fits n by (intro move.move_block) simp_all
  let ?m' = "memmove (data + ?to) (data + ?from) ?n ?m"
  have byte: "(ucast (?m' (data + (?to + of_nat i))) :: u32) = ?from + of_nat i" if i: "i < unat ?n" for i
  proof -
    have oi: "unat (of_nat i :: u32) = i" using i unat_lt32 [of ?n] by simp
    have fi: "unat (?from + of_nat i) = unat ?from + i" using i fits(2) oi by (subst unat_plus) simp_all
    have "?m' (data + (?to + of_nat i)) = ?m (data + (?from + of_nat i))"
      using i oi by (simp add: mv block_copy_def in_region_def add.assoc)
    also have "\<dots> = of_nat (unat ?from + i)"
      using i fits(2) fi by (simp add: init_data_array_eq in_region_def)
    finally have "(ucast (?m' (data + (?to + of_nat i))) :: u32) = ucast (of_nat (unat ?from + i) :: u8)" by simp
    also have "\<dots> = of_nat (unat (of_nat (unat ?from + i) :: u8))" by simp
    also have "unat (of_nat (unat ?from + i) :: u8) = unat ?from + i"
      using i fits(2) by (simp add: unat_of_nat del: of_nat_add)
    finally show ?thesis by simp
  qed
  have frame: "?m' x = memory s x" if "\<not> in_region data 256 x" for x
  proof -
    have "\<not> in_region (data + ?to) (unat ?n) x"
      using that at [OF fits(3)] assms(1) fits(3) by (auto simp: in_region_iff)
    then show ?thesis using that by (simp add: mv block_copy_def init_data_array_frame)
  qed
  have "run_memmove_case data k c (p, s) = Some (p, s\<lparr>memory := ?m'\<rparr>)"
    unfolding run_memmove_case_def Let_def prod.case using byte by (simp add: fold_passed ASSERT_MSG_def)
  then show thesis by (rule that) (rule frame)
qed

lemma run_memmove_cases_effect:
  assumes "valid_region data 256"
    "\<forall>c\<in>set cs. case_fits c"
  shows "\<exists>m. run_memmove_cases data k cs (p, s) = Some (p, s\<lparr>memory := m\<rparr>) \<and>
    (\<forall>x. \<not> in_region data 256 x \<longrightarrow> m x = memory s x)"
  using assms(2)
proof (induction cs arbitrary: k s)
  case Nil
  then show ?case by (intro exI [of _ "memory s"]) simp
next
  case (Cons c cs)
  obtain m where m: "run_memmove_case data k c (p, s) = Some (p, s\<lparr>memory := m\<rparr>)"
    "\<And>x. \<not> in_region data 256 x \<Longrightarrow> m x = memory s x"
    by (rule run_memmove_case_effect [OF assms(1), of c k p s]) (use Cons.prems in auto)
  from Cons.prems have "\<forall>c\<in>set cs. case_fits c"
    by simp
  from Cons.IH [OF this, of "k + 1" "s\<lparr>memory := m\<rparr>"] m show ?case by auto
qed

lemma test_memmove_effect:
  assumes "valid_region data 256"
  obtains m where "test_memmove data s = kprintf (cstr ''memmove okay\<newline>'') [] (s\<lparr>memory := m\<rparr>)"
    "\<And>x. \<not> in_region data 256 x \<Longrightarrow> m x = memory s x"
proof -
  have "\<forall>c\<in>set memmove_cases. case_fits c"
    by (simp add: memmove_cases_def case_fits_def)
  from run_memmove_cases_effect [OF assms this, of 0 True "s\<lparr>memory := zero_array data 256 (memory s)\<rparr>"]
  obtain m where m: "run_memmove_cases data 0 memmove_cases (True, s\<lparr>memory := zero_array data 256 (memory s)\<rparr>) =
      Some (True, s\<lparr>memory := m\<rparr>)"
    "\<And>x. \<not> in_region data 256 x \<Longrightarrow> m x = zero_array data 256 (memory s) x"
    by auto
  show thesis
  proof (rule that)
    show "test_memmove data s = kprintf (cstr ''memmove okay\<newline>'') [] (s\<lparr>memory := m\<rparr>)"
      unfolding test_memmove_def m(1) by simp
    show "\<not> in_region data 256 x \<Longrightarrow> m x = memory s x" for x
      using m(2) by (simp add: zero_array_frame)
  qed
qed

section \<open>The boot sequence\<close>

text \<open>
  From \<open>s\<close> to \<open>s'\<close> the console contract holds and no byte changes outside the text buffer and
  the addresses \<open>A\<close>.
\<close>

definition within :: "(u32 \<Rightarrow> bool) \<Rightarrow> 'a tty_scheme \<Rightarrow> 'b tty_scheme \<Rightarrow> bool" where
  "within A s s' \<longleftrightarrow>
     (wf_tty s \<longrightarrow> wf_tty s' \<and> (\<forall>a. \<not> vga_byte a \<longrightarrow> \<not> A a \<longrightarrow> memory s' a = memory s a))"

lemma within_trans: "within A s t \<Longrightarrow> within A t u \<Longrightarrow> within A s u"
  by (simp add: within_def)

lemma within_step: "(wf_tty s \<Longrightarrow> kernel_step s (Some s')) \<Longrightarrow> within A s s'"
  by (auto simp: within_def kernel_step_def)

lemma within_memory: "(\<And>x. \<not> A x \<Longrightarrow> m x = memory s x) \<Longrightarrow> within A s (s\<lparr>memory := m\<rparr>)"
  by (simp add: within_def wf_tty_def)

lemma message_effect:
  assumes "literal msg"
  shows "kprintf msg va s = Some (fold tty_putc msg s)" "within A s (fold tty_putc msg s)"
    "tty.more (fold tty_putc msg s) = tty.more s"
  by (simp_all add: printing_op.op_prints [OF printing_literal [OF assms]] within_step kernel_step_prints)

text \<open>The addresses of the arrays that the self-tests use.\<close>

definition test_arrays :: "u32 \<Rightarrow> u32 \<Rightarrow> u32 \<Rightarrow> u32 \<Rightarrow> bool" where
  "test_arrays src dst data x \<longleftrightarrow> in_region src 256 x \<or> in_region dst 256 x \<or> in_region data 256 x"

lemma self_tests_effect:
  assumes "valid_region src 256" "valid_region dst 256" "valid_region data 256" "apart src dst 256"
  obtains s' where
    "kprintf (cstr ''chp-os kernel_main\<newline>'') [] s \<bind> kprintf (cstr ''[self-test]: memutil\<newline>'') [] \<bind>
       test_memcpy src dst \<bind> test_memmove data = Some s'"
    "within (test_arrays src dst data) s s'" "tty.more s' = tty.more s"
proof -
  have lit: "literal (cstr ''chp-os kernel_main\<newline>'')" "literal (cstr ''[self-test]: memutil\<newline>'')"
    "literal (cstr ''memcpy okay\<newline>'')" "literal (cstr ''memmove okay\<newline>'')"
    by (simp_all add: literal_def)
  note say = message_effect [OF lit(1)] message_effect [OF lit(2)] message_effect [OF lit(3)]
    message_effect [OF lit(4)]
  let ?A = "test_arrays src dst data"
  define s1 where "s1 = fold tty_putc (cstr ''[self-test]: memutil\<newline>'') (fold tty_putc (cstr ''chp-os kernel_main\<newline>'') s)"
  have 1: "kprintf (cstr ''chp-os kernel_main\<newline>'') [] s \<bind> kprintf (cstr ''[self-test]: memutil\<newline>'') [] = Some s1"
    "within ?A s s1" "tty.more s1 = tty.more s"
    unfolding s1_def by (simp only: say(1,4) bind.bind_lunit, rule within_trans [OF say(2) say(5)], simp only: say(3,6))
  obtain m where m: "test_memcpy src dst s1 = kprintf (cstr ''memcpy okay\<newline>'') [] (s1\<lparr>memory := m\<rparr>)"
    "\<And>x. \<not> in_region src 256 x \<Longrightarrow> \<not> in_region dst 256 x \<Longrightarrow> m x = memory s1 x"
    by (rule test_memcpy_effect [OF assms(1,2,4), of s1]) (rule that)
  define s2 where "s2 = fold tty_putc (cstr ''memcpy okay\<newline>'') (s1\<lparr>memory := m\<rparr>)"
  have "within ?A s1 (s1\<lparr>memory := m\<rparr>)" using m(2) by (intro within_memory) (simp add: test_arrays_def)
  then have 2: "test_memcpy src dst s1 = Some s2" "within ?A s s2" "tty.more s2 = tty.more s"
    unfolding s2_def using within_trans [OF within_trans [OF 1(2)] say(8)] 1(3)
    by (simp_all only: m(1) say(7,9)) simp_all
  obtain n where n: "test_memmove data s2 = kprintf (cstr ''memmove okay\<newline>'') [] (s2\<lparr>memory := n\<rparr>)"
    "\<And>x. \<not> in_region data 256 x \<Longrightarrow> n x = memory s2 x"
    by (rule test_memmove_effect [OF assms(3), of s2]) (rule that)
  define s3 where "s3 = fold tty_putc (cstr ''memmove okay\<newline>'') (s2\<lparr>memory := n\<rparr>)"
  have "within ?A s2 (s2\<lparr>memory := n\<rparr>)" using n(2) by (intro within_memory) (simp add: test_arrays_def)
  then have 3: "test_memmove data s2 = Some s3" "within ?A s s3" "tty.more s3 = tty.more s"
    unfolding s3_def using within_trans [OF within_trans [OF 2(2)] say(11)] 2(3)
    by (simp_all only: n(1) say(10,12)) simp_all
  show thesis
    by (rule that [OF _ 3(2,3)]) (simp only: 1(1) 2(1) 3(1) bind.bind_lunit)
qed

text \<open>Registering a handler commutes with filling the table of gates.\<close>

lemma idt_init_register:
  "(idt_init s)\<lparr>isr_user_handlers := h\<rparr> = idt_init (s\<lparr>isr_user_handlers := h\<rparr>)"
proof -
  have gate: "(idt_init_gate i s)\<lparr>isr_user_handlers := h\<rparr> = idt_init_gate i (s\<lparr>isr_user_handlers := h\<rparr>)" for i s
    by (cases s) (simp add: idt_init_gate_def set_idt_entry_def idt_entry_def idt_entry_address_def isr_dispatch_table_def)
  have fold: "(fold idt_init_gate is s)\<lparr>isr_user_handlers := h\<rparr> = fold idt_init_gate is (s\<lparr>isr_user_handlers := h\<rparr>)" for "is" s
    by (induction "is" arbitrary: s) (simp_all add: gate)
  show ?thesis by (simp only: idt_init_def Let_def fold)
qed

text \<open>The tables of the processor hold what \<open>idt_init\<close> and \<open>idt_flush\<close> put there.\<close>

definition idt_installed :: "'a intr_scheme \<Rightarrow> bool" where
  "idt_installed s \<longleftrightarrow>
     cpu_idtr s = \<lparr>idtr_limit = 2039, idtr_base = idt_address s\<rparr> \<and> length (idt s) = IDT_MAX_ENTRIES \<and>
     (\<forall>i<IDT_MAX_ENTRIES. idt_entry s i = mk_gate (label_address s (dispatch_label i)) 0x08 0)"

lemma installed_interrupt:
  assumes "idt_installed s" "inj_on (label_address s) (set isr_labels)" "n < 255"
  shows "software_interrupt call n s =
    (if n < 32 \<or> isr_user_handlers s ! unat n = 0 then Some s else call (isr_user_handlers s ! unat n) s)"
proof -
  have n: "unat n < 255" using assms(3) by (simp add: word_less_nat_alt)
  have "software_interrupt call n s = run_label call (dispatch_label (unat n)) s"
    using assms n by (intro software_interrupt_stub [where sel = "0x08"])
      (simp_all add: idt_installed_def IDT_MAX_ENTRIES_def)
  moreover have "n < 32 \<longleftrightarrow> unat n < 32" by (simp add: word_less_nat_alt)
  ultimately show ?thesis
    by (simp add: run_label_def dispatch_label_def generic_isr_dispatch_def isr_user_stub_def)
qed

lemma idt_installed_cong:
  assumes "idt s = idt t" "cpu_idtr s = cpu_idtr t"
    "idt_address s = idt_address t" "label_address s = label_address t"
  shows "idt_installed s = idt_installed t"
  by (auto simp: idt_installed_def idt_entry_def assms)

text \<open>What the machine needs before \<open>kernel_main\<close>: the tables as the linker reserves them.\<close>

definition tables_reserved :: "'a intr_scheme \<Rightarrow> bool" where
  "tables_reserved s \<longleftrightarrow>
     length (gdt s) = SEGMENT_GDT_NUM_ENTRIES \<and> length (idt s) = IDT_MAX_ENTRIES \<and>
     inj_on (label_address s) (set isr_labels) \<and> length (isr_user_handlers s) = 256 \<and>
     isr_user_handlers s ! 33 = 0"

lemma tables_reserved_cong: "tty.more s = tty.more t \<Longrightarrow> tables_reserved s = tables_reserved t"
  unfolding tables_reserved_def by (cases s; cases t; simp)

definition install_tables :: "u32 \<Rightarrow> 'a intr_scheme \<Rightarrow> 'a intr_scheme option" where
  "install_tables th s = do {
     s \<leftarrow> gdt_init s;
     s \<leftarrow> gdt_flush s;
     s \<leftarrow> Some (idt_init s);
     s \<leftarrow> idt_register_handler 32 th s;
     s \<leftarrow> idt_flush s;
     s \<leftarrow> software_interrupt (call_function th) 32 s;
     software_interrupt (call_function th) 33 s
   }"

lemma gdt_keeps_tables:
  assumes "tables_reserved s"
  obtains s' where "gdt_init s \<bind> gdt_flush = Some s'" "flat_model s'" "tables_reserved s'"
    "label_address s' = label_address s" "intr.more s' = intr.more s"
    "isr_user_handlers s' = isr_user_handlers s" "within A s s'" "idt_address s' = idt_address s"
proof -
  have "length (gdt s) = SEGMENT_GDT_NUM_ENTRIES" using assms by (simp add: tables_reserved_def)
  then obtain s' where s': "gdt_init s \<bind> gdt_flush = Some s'" "flat_model s'"
    "gdt s' ! 0 = \<lparr>low_part = 0, high_part = 0\<rparr>" "length (gdt s') = SEGMENT_GDT_NUM_ENTRIES"
    "seg.more s' = seg.more s" "wf_tty s \<Longrightarrow> kernel_step s (Some s')"
    by (rule gdt_flat_effect) (rule that)
  have "label_address s' = label_address s \<and> intr.more s' = intr.more s \<and> idt s' = idt s \<and>
      isr_user_handlers s' = isr_user_handlers s \<and> idt_address s' = idt_address s"
    using s'(5) by (cases s; cases s'; simp)
  with assms s'(4) that [OF s'(1,2)] within_step [OF s'(6)] show thesis
    by (simp add: tables_reserved_def)
qed

lemma idt_keeps_tables:
  assumes "tables_reserved s" "flat_model s" "th \<noteq> 0"
  obtains s' where "idt_register_handler 32 th (idt_init s) \<bind> idt_flush = Some s'" "flat_model s'"
    "idt_installed s'" "tables_reserved s'" "intr.more s' = intr.more s"
    "isr_user_handlers s' = (isr_user_handlers s)[32 := th]" "within (idt_tail (idt_address s)) s s'"
    "idt_address s' = idt_address s"
proof -
  let ?s = "s\<lparr>isr_user_handlers := (isr_user_handlers s)[32 := th]\<rparr>"
  have "length (idt ?s) = IDT_MAX_ENTRIES" using assms(1) by (simp add: tables_reserved_def)
  then obtain s' where s': "idt_flush (idt_init ?s) = Some s'"
    "\<And>i. i < IDT_MAX_ENTRIES \<Longrightarrow> idt_entry s' i = mk_gate (label_address ?s (dispatch_label i)) 0x08 0"
    "cpu_idtr s' = \<lparr>idtr_limit = 2039, idtr_base = idt_address ?s\<rparr>" "idt_address s' = idt_address ?s"
    "label_address s' = label_address ?s" "isr_user_handlers s' = isr_user_handlers ?s"
    "gdt s' = gdt ?s" "gdtr s' = gdtr ?s" "segment_regs s' = segment_regs ?s"
    "wf_tty ?s \<Longrightarrow> wf_tty s'"
    "\<And>x. wf_tty ?s \<Longrightarrow> \<not> vga_byte x \<Longrightarrow> \<not> idt_tail (idt_address ?s) x \<Longrightarrow> memory s' x = memory ?s x"
    "intr.more s' = intr.more ?s" "log_current_level s' = log_current_level ?s"
    "length (idt s') = IDT_MAX_ENTRIES"
    by (rule idt_ready) (rule that)
  have init: "isr_user_handlers (idt_init s) = isr_user_handlers s"
    using assms(1) by (simp add: tables_reserved_def intr_other_cong(3) [OF idt_init_effect(1)])
  have "idt_register_handler 32 th (idt_init s) = Some (idt_init ?s)"
    by (simp add: idt_register_handler_def ASSERT_def init idt_init_register)
  moreover have "flat_model s'" using assms(2) flat_model_cong [of s' s] s'(7-9) by simp
  moreover have "idt_installed s'" using s'(2-5,14) by (simp add: idt_installed_def)
  moreover have "within (idt_tail (idt_address s)) s s'"
    using s'(10,11) by (simp add: within_def wf_tty_def)
  moreover have "tables_reserved s'" using s'(5-7,14) assms(1) by (simp add: tables_reserved_def)
  ultimately show thesis using that [of s'] s' by simp
qed

lemma install_tables_effect:
  assumes "tables_reserved s" "th \<noteq> 0"
  obtains s' where "install_tables th s = Some s'" "flat_model s'" "idt_installed s'"
    "isr_user_handlers s' = (isr_user_handlers s)[32 := th]" "intr.more s' = intr.more s"
    "within (idt_tail (idt_address s)) s s'" "tables_reserved s'" "idt_address s' = idt_address s"
proof -
  obtain s1 where 1: "gdt_init s \<bind> gdt_flush = Some s1" "flat_model s1" "tables_reserved s1"
    "label_address s1 = label_address s" "intr.more s1 = intr.more s"
    "isr_user_handlers s1 = isr_user_handlers s" "within (idt_tail (idt_address s)) s s1" "idt_address s1 = idt_address s"
    by (rule gdt_keeps_tables [OF assms(1)]) (rule that)
  obtain s2 where 2: "idt_register_handler 32 th (idt_init s1) \<bind> idt_flush = Some s2" "flat_model s2"
    "idt_installed s2" "tables_reserved s2" "intr.more s2 = intr.more s1"
    "isr_user_handlers s2 = (isr_user_handlers s1)[32 := th]" "within (idt_tail (idt_address s1)) s1 s2"
    "idt_address s2 = idt_address s1"
    by (rule idt_keeps_tables [OF 1(3,2) assms(2)]) (rule that)
  let ?msg = "cstr ''Interrupt handler works!\<newline>''"
  let ?s = "fold tty_putc ?msg s2"
  have lit: "literal ?msg" by (simp add: literal_def)
  note say = message_effect(1) [OF lit, where va = "[]" and s = s2] message_effect(2,3) [OF lit, where s = s2]
  have h: "isr_user_handlers s2 ! 32 = th" "isr_user_handlers s2 ! 33 = 0"
      "inj_on (label_address s2) (set isr_labels)"
    using 1(3) 2(4,6) by (simp_all add: tables_reserved_def)
  have "software_interrupt (call_function th) 32 s2 = Some ?s"
    using h(1) assms(2) installed_interrupt [OF 2(3) h(3), of 32 "call_function th"] say(1)
    by (simp add: call_function_def test_handler_def)
  moreover note more = intr_more_cong [OF say(3)] seg_more_cong [OF say(3)]
  have kept: "idt_installed ?s" "flat_model ?s" "inj_on (label_address ?s) (set isr_labels)"
    "isr_user_handlers ?s = isr_user_handlers s2" "intr.more ?s = intr.more s2" "tables_reserved ?s"
    "idt_address ?s = idt_address s2"
    using 2(2,3,4) h(3) tables_reserved_cong [OF say(3)] idt_installed_cong [OF more(1,4,2,5)] flat_model_cong [OF more(8,12,13)] more(2,5-7)
    by simp_all
  moreover have "software_interrupt (call_function th) 33 ?s = Some ?s"
    using h(2) installed_interrupt [OF kept(1,3), of 33 "call_function th"] kept(4) by simp
  ultimately have "install_tables th s = Some ?s"
    using 1(1) 2(1) by (auto simp: install_tables_def bind_eq_Some_conv)
  then show thesis
    using kept 1(5-8) 2(5-8) say(2) [of "idt_tail (idt_address s)"]
    by (intro that [of ?s]) (auto intro: within_trans)
qed

text \<open>The phases of \<open>kernel_main\<close>.\<close>

lemma kernel_main_phases:
  "kernel_main dev th src dst data s =
     kprintf (cstr ''chp-os kernel_main\<newline>'') [] s \<bind> kprintf (cstr ''[self-test]: memutil\<newline>'') [] \<bind>
       test_memcpy src dst \<bind> test_memmove data \<bind> install_tables th \<bind>
       (\<lambda>s. ps2_init dev (tty_print_colormap s))"
  by (simp add: kernel_main_def install_tables_def Option.bind_assoc)

lemma ps2_init_effect:
  obtains s' c st f r ws rs where "ps2_init dev s = Some s'" "system_tables s' = system_tables s"
    "writes (io_trace s') = writes (io_trace s) @ init_writes c @ ws" "st \<noteq> 0x55 \<Longrightarrow> ws = []"
    "replies (io_trace s') = replies (io_trace s) @ [f, c, r, st] @ rs" "within A s s'"
proof -
  obtain f c r st s' ws rs where i: "ps2_init dev s = Some s'"
    "drives s s' (init_writes c @ (if st = 0x55 then [Out 0x64 0x60, Out 0x60 (init_config c)] @ ws else []))
       ([f, c, r, st] @ rs)"
    by (rule init_effect [of dev s]) (rule that)
  define ws' where "ws' = (if st = 0x55 then [Out 0x64 0x60, Out 0x60 (init_config c)] @ ws else [])"
  have d: "drives s s' (init_writes c @ ws') ([f, c, r, st] @ rs)" "st \<noteq> 0x55 \<Longrightarrow> ws' = []"
    using i(2) by (simp_all add: ws'_def)
  show thesis
    by (rule that [OF i(1), of c ws' st f r rs])
      (use d in \<open>simp_all add: drives_def within_step\<close>)
qed

lemma system_tables_cong:
  assumes "system_tables s = system_tables t"
  shows "flat_model s = flat_model t" "idt_installed s = idt_installed t"
    "isr_user_handlers s = isr_user_handlers t" "ps2.more s = ps2.more t"
    "tables_reserved s = tables_reserved t"
  using assms flat_model_cong [of s t] idt_installed_cong [of s t]
  by (simp_all add: system_tables_def tables_reserved_def)

lemma colormap_keeps:
  "flat_model (tty_print_colormap s) = flat_model s"
  "idt_installed (tty_print_colormap s) = idt_installed s"
  "isr_user_handlers (tty_print_colormap s) = isr_user_handlers s"
  "intr.more (tty_print_colormap s) = intr.more s" "within A s (tty_print_colormap s)"
proof -
  have m: "tty.more (tty_print_colormap s) = tty.more s" by (rule colormap.op_more)
  note more = intr_more_cong [OF m] seg_more_cong [OF m]
  show "flat_model (tty_print_colormap s) = flat_model s"
    "idt_installed (tty_print_colormap s) = idt_installed s"
    "isr_user_handlers (tty_print_colormap s) = isr_user_handlers s"
    "intr.more (tty_print_colormap s) = intr.more s"
    by (simp_all only: idt_installed_cong [OF more(1,4,2,5)] flat_model_cong [OF more(8,12,13)] more(6,7))
  show "within A s (tty_print_colormap s)"
    using colormap.op_safe [of s] by (simp add: within_def)
qed

text \<open>What the boot sequence writes besides the text buffer: its arrays, and the bytes behind the IDT.\<close>

definition boot_memory :: "u32 \<Rightarrow> u32 \<Rightarrow> u32 \<Rightarrow> u32 \<Rightarrow> u32 \<Rightarrow> bool" where
  "boot_memory src dst data base x \<longleftrightarrow> test_arrays src dst data x \<or> idt_tail base x"

lemma within_mono: "within A s t \<Longrightarrow> (\<And>x. A x \<Longrightarrow> B x) \<Longrightarrow> within B s t"
  by (auto simp: within_def)

lemma kernel_main_effect:
  assumes "valid_region src 256" "valid_region dst 256" "valid_region data 256" "apart src dst 256"
    and "tables_reserved s" "th \<noteq> 0"
  obtains s' c st f r ws rs where "kernel_main dev th src dst data s = Some s'"
    "flat_model s'" "idt_installed s'" "isr_user_handlers s' = (isr_user_handlers s)[32 := th]"
    "writes (io_trace s') = writes (io_trace s) @ init_writes c @ ws"
    "replies (io_trace s') = replies (io_trace s) @ [f, c, r, st] @ rs"
    "st \<noteq> 0x55 \<Longrightarrow> ws = []" "within (boot_memory src dst data (idt_address s)) s s'" "ps2.more s' = ps2.more s"
    "tables_reserved s'" "idt_address s' = idt_address s"
proof -
  let ?A = "boot_memory src dst data (idt_address s)"
  obtain s1 where 1: "kprintf (cstr ''chp-os kernel_main\<newline>'') [] s \<bind>
      kprintf (cstr ''[self-test]: memutil\<newline>'') [] \<bind> test_memcpy src dst \<bind> test_memmove data = Some s1"
    "within (test_arrays src dst data) s s1" "tty.more s1 = tty.more s"
    by (rule self_tests_effect [OF assms(1-4)]) (rule that)
  have w1: "within ?A s s1" by (rule within_mono [OF 1(2)]) (simp add: boot_memory_def)
  have a1: "idt_address s1 = idt_address s" by (rule intr_more_cong(2) [OF 1(3)])
  have "tables_reserved s1" using assms(5) tables_reserved_cong [OF 1(3)] by simp
  then obtain s2 where 2: "install_tables th s1 = Some s2" "flat_model s2" "idt_installed s2"
    "isr_user_handlers s2 = (isr_user_handlers s1)[32 := th]" "intr.more s2 = intr.more s1"
    "within (idt_tail (idt_address s1)) s1 s2" "tables_reserved s2" "idt_address s2 = idt_address s1"
    by (rule install_tables_effect [OF _ assms(6)]) (rule that)
  have w2: "within ?A s1 s2" by (rule within_mono [OF 2(6)]) (simp add: boot_memory_def a1)
  let ?s = "tty_print_colormap s2"
  obtain s' c st f r ws rs where 3: "ps2_init dev ?s = Some s'" "system_tables s' = system_tables ?s"
    "writes (io_trace s') = writes (io_trace ?s) @ init_writes c @ ws" "st \<noteq> 0x55 \<Longrightarrow> ws = []"
    "replies (io_trace s') = replies (io_trace ?s) @ [f, c, r, st] @ rs" "within ?A ?s s'"
    by (rule ps2_init_effect) (rule that)
  have "intr.more ?s = intr.more s"
    using colormap_keeps(4) [of s2] 2(5) intr_more_cong(7) [OF 1(3)] by simp
  then have trace: "io_trace ?s = io_trace s" "ps2.more ?s = ps2.more s"
    by (cases ?s; cases s; simp)+
  note keep = system_tables_cong [OF 3(2)]
  show thesis
  proof (rule that [of s' c ws f r st rs])
    show "kernel_main dev th src dst data s = Some s'"
      by (simp only: kernel_main_phases 1(1) 2(1) 3(1) bind.bind_lunit)
    show "within ?A s s'"
      by (rule within_trans [OF within_trans [OF within_trans [OF w1 w2] colormap_keeps(5)] 3(6)])
    have "tables_reserved ?s" using 2(7) tables_reserved_cong [OF colormap.op_more [of s2]] by simp
    then show "tables_reserved s'" by (simp only: keep(5))
    show "idt_address s' = idt_address s"
      using 3(2) intr_more_cong(2) [OF colormap.op_more [of s2]] 2(8) a1 by (simp add: system_tables_def)
  qed (use keep 2(2-4) colormap_keeps(1-3) [of s2] 3(3-5) trace intr_more_cong(6) [OF 1(3)] in \<open>simp_all\<close>)
qed

section \<open>The early entry point\<close>

lemma early_message:
  "format_text (cstr ''[early main]: mb_magic okay: %s\<newline>'') [BOOL_YES_NO b] =
     Some (cstr ''[early main]: mb_magic okay: '' @ (if b then cstr ''yes'' else cstr ''no'') @ cstr ''\<newline>'')"
proof -
  have "format_text (cstr ''[early main]: mb_magic okay: %s\<newline>'') [BOOL_YES_NO True] =
      Some (cstr ''[early main]: mb_magic okay: yes\<newline>'')"
    "format_text (cstr ''[early main]: mb_magic okay: %s\<newline>'') [BOOL_YES_NO False] =
      Some (cstr ''[early main]: mb_magic okay: no\<newline>'')"
    by code_simp+
  then show ?thesis by (cases b) simp_all
qed

definition early_text :: "bool \<Rightarrow> u8 list" where
  "early_text b = cstr ''[early main]: mb_magic okay: '' @
     (if b then cstr ''yes'' else cstr ''no'') @ cstr ''\<newline>''"

lemma early_text_plain: "shown (early_text b) = early_text b"
    "takeWhile (\<lambda>c. c \<noteq> 0) (early_text b) = early_text b"
  by (simp_all add: shown_def early_text_def)

lemma early_prints: "kprintf (cstr ''[early main]: mb_magic okay: %s\<newline>'') [BOOL_YES_NO b] s =
    Some (fold tty_putc (early_text b) s)"
  using printing_op.op_prints [OF printing_kprintf [OF early_message, folded early_text_def]]
  by (simp only: early_text_plain)

text \<open>The interrupt handler and the constant messages of the kernel only print.\<close>

interpretation test_handler: printing_op test_handler "cstr ''Interrupt handler works!\<newline>''"
  by unfold_locales (simp add: test_handler_def printing_op.op_prints [OF printing_literal] literal_def)

lemma print_var_long: "PRINT_VAR (cstr ''framebuffer_addr'') (VLongLong v) s =
    PRINT_VAR (cstr ''framebuffer_addr'') (VWord (ucast v)) s"
proof -
  have "format_text (cstr ''framebuffer_addr: 0x%x\<newline>'') [VLongLong v] =
      format_text (cstr ''framebuffer_addr: 0x%x\<newline>'') [VWord (ucast v)]"
    by (simp add: format_eval)
  moreover have "format_text (cstr ''framebuffer_addr: 0x%x\<newline>'') [VWord (ucast v)] \<noteq> None"
    by (simp add: format_eval)
  moreover have "cstr ''framebuffer_addr'' @ cstr '': 0x%x\<newline>'' = cstr ''framebuffer_addr: 0x%x\<newline>''" by simp
  ultimately show ?thesis
    unfolding PRINT_VAR_def by (auto simp only: printing_op.op_prints [OF printing_kprintf])
qed

section \<open>Properties\<close>

text \<open>
  The self-test of \<open>memcpy\<close> passes: with its two arrays disjoint it prints \<open>memcpy okay\<close>, and
  besides the console it changes nothing outside the arrays.
\<close>

lemma test_memcpy_passes:
  assumes "valid_region src 256" "valid_region dst 256" "apart src dst 256"
  shows "\<exists>m. test_memcpy src dst s = Some (fold tty_putc (cstr ''memcpy okay\<newline>'') (s\<lparr>memory := m\<rparr>)) \<and>
    (\<forall>x. \<not> in_region src 256 x \<longrightarrow> \<not> in_region dst 256 x \<longrightarrow> m x = memory s x)"
proof -
  obtain m where "test_memcpy src dst s = kprintf (cstr ''memcpy okay\<newline>'') [] (s\<lparr>memory := m\<rparr>)"
    "\<And>x. \<not> in_region src 256 x \<Longrightarrow> \<not> in_region dst 256 x \<Longrightarrow> m x = memory s x"
    by (rule test_memcpy_effect [OF assms, of s]) (rule that)
  then show ?thesis by (auto simp: message_effect(1) literal_def)
qed

lemma arrays_witness: "valid_region 0x107100 256" "valid_region 0x107200 256" "valid_region 0x107300 256"
    "apart 0x107100 0x107200 256"
  by (simp_all add: valid_region_def apartI)

text \<open>
  C21: the self-test of \<open>memmove\<close> passes on all of its overlaps: it prints \<open>memmove okay\<close> and no
  message about a failed test case.
\<close>

theorem test_memmove_passes:
  assumes "valid_region data 256"
  shows "\<exists>m. test_memmove data s = Some (fold tty_putc (cstr ''memmove okay\<newline>'') (s\<lparr>memory := m\<rparr>)) \<and>
    (\<forall>x. \<not> in_region data 256 x \<longrightarrow> m x = memory s x)"
proof -
  obtain m where "test_memmove data s = kprintf (cstr ''memmove okay\<newline>'') [] (s\<lparr>memory := m\<rparr>)"
    "\<And>x. \<not> in_region data 256 x \<Longrightarrow> m x = memory s x"
    by (rule test_memmove_effect [OF assms, of s]) (rule that)
  then show ?thesis by (auto simp: message_effect(1) literal_def)
qed

theorem test_memmove_passes_witness: "test_memmove 0x107300 start_tty \<noteq> None"
  using test_memmove_passes [OF arrays_witness(3), of start_tty] by auto

text \<open>
  \<open>print_multiboot_info\<close> shows only the low half of the framebuffer's 64-bit address: \<open>%x\<close>
  reads one word of the two that are passed.
\<close>

lemma multiboot_address_truncated:
  "print_multiboot_info (i\<lparr>framebuffer_addr := a\<rparr>) s =
   print_multiboot_info (i\<lparr>framebuffer_addr := take_bit 32 a\<rparr>) s"
proof -
  have low: "(ucast (take_bit 32 a) :: u32) = ucast a" by (rule bit_word_eqI) (auto simp: bit_simps)
  show ?thesis unfolding print_multiboot_info_def print_var_long 
    by (cases i) (simp only: multiboot_info.select_convs multiboot_info.update_convs low)
qed

text \<open>
  C22: after the early entry point the screen is blank but for its message, which says whether
  the boot loader's magic number is the expected one; both register values are kept.
\<close>

theorem early_main_reports:
  "\<exists>s'. kernel_early_main eax ebx s = Some s' \<and> wf_tty s' \<and> mb_magic s' = eax \<and> mb_info s' = ebx \<and>
     abs_screen s' = scr_puts (early_text (eax = 0x2badb002)) (scr_clear (abs_screen s))"
proof -
  let ?s = "tty_init (s\<lparr>mb_magic := eax, mb_info := ebx\<rparr>)"
  let ?cs = "early_text (0x2badb002 = eax)"
  have "tty.more ?s = tty.more (s\<lparr>mb_magic := eax, mb_info := ebx\<rparr>)" by (rule init.op_more)
  then have m: "mb_magic ?s = eax" "mb_info ?s = ebx" by (cases ?s; cases s; simp)+
  have wf: "wf_tty ?s" unfolding tty_init_def by (simp add: wf_tty_def vga_dims)
  have "kernel_early_main eax ebx s = Some (fold tty_putc ?cs ?s)"
    by (simp only: kernel_early_main_def Let_def early_prints expect_mb_magic_def kernel.select_convs m)
  moreover have same: "abs_screen (s\<lparr>mb_magic := eax, mb_info := ebx\<rparr>) = abs_screen s"
    by (simp add: abs_screen_def abs_rows_def cell_def)
  have "abs_screen (fold tty_putc ?cs ?s) = scr_puts ?cs (scr_clear (abs_screen s))"
    using puts_scr.refines [OF wf, of ?cs]
    by (simp only: tty_puts_fold early_text_plain) (simp add: tty_init_def abs_clear same)
  moreover have "wf_tty (fold tty_putc ?cs ?s)"
    using puts.op_wf [OF wf, of ?cs] by (simp only: tty_puts_fold early_text_plain)
  moreover have "mb_magic (fold tty_putc ?cs ?s) = eax" "mb_info (fold tty_putc ?cs ?s) = ebx"
    using fold_putc_more [of ?cs ?s] m by (cases "fold tty_putc ?cs ?s"; cases ?s; simp)+
  moreover have "?cs = early_text (eax = 0x2badb002)" by (simp add: eq_commute)
  ultimately show ?thesis by metis
qed

text \<open>
  C1: the boot sequence completes on every PS/2 controller. At the end the processor is in the
  flat model, every vector below 255 has its gate, the one change of the table of handlers is the
  registration for vector 32, and the console's cursor is on the screen. No byte of memory has changed outside the text buffer,
  the arrays of the self-tests and the eight bytes behind the table of gates, which the gate of
  vector 255 overwrites; the controller has seen the commands of the initialisation.
\<close>

theorem kernel_boots:
  assumes "valid_region src 256" "valid_region dst 256" "valid_region data 256" "apart src dst 256"
    and "tables_reserved s" "th \<noteq> 0" "wf_tty s"
  shows "\<exists>s' c ws. kernel_main dev th src dst data s = Some s' \<and> flat_model s' \<and> idt_installed s' \<and>
    isr_user_handlers s' = (isr_user_handlers s)[32 := th] \<and> wf_tty s' \<and>
    (\<forall>a. \<not> vga_byte a \<longrightarrow> \<not> test_arrays src dst data a \<longrightarrow> \<not> idt_tail (idt_address s) a \<longrightarrow>
       memory s' a = memory s a) \<and>
    writes (io_trace s') = writes (io_trace s) @ init_writes c @ ws"
proof -
  obtain s' c st f r ws rs where "kernel_main dev th src dst data s = Some s'"
    "flat_model s'" "idt_installed s'" "isr_user_handlers s' = (isr_user_handlers s)[32 := th]"
    "writes (io_trace s') = writes (io_trace s) @ init_writes c @ ws"
    "replies (io_trace s') = replies (io_trace s) @ [f, c, r, st] @ rs"
    "st \<noteq> 0x55 \<Longrightarrow> ws = []" "within (boot_memory src dst data (idt_address s)) s s'" "ps2.more s' = ps2.more s"
    "tables_reserved s'"
    by (rule kernel_main_effect [OF assms(1-6), of dev]) (rule that)
  then show ?thesis using assms(7) unfolding within_def boot_memory_def by blast
qed

definition start_kernel :: "u8 list \<Rightarrow> u8 list kernel" where
  "start_kernel h = ps2.extend ((start_ps2 h)\<lparr>isr_user_handlers := replicate 256 0\<rparr>) (kernel.fields 0 0)"

lemma start_kernel_simps:
  "tables_reserved (start_kernel h)" "wf_tty (start_kernel h)"
  "isr_user_handlers (start_kernel h) = replicate 256 0" "writes (io_trace (start_kernel h)) = []"
  using stub_addresses_inj wf_start_tty
  by (simp_all add: tables_reserved_def start_kernel_def start_ps2_def start_intr_def start_seg_def
      ps2.defs intr.defs seg.defs kernel.defs wf_tty_def vga_dims)

theorem kernel_boots_witness:
  "\<exists>s'. kernel_main script_device 0x102000 0x107100 0x107200 0x107300 (start_kernel []) = Some s' \<and>
     flat_model s' \<and> isr_user_handlers s' = (replicate 256 0)[32 := 0x102000]"
proof -
  have "(0x102000 :: u32) \<noteq> 0" by simp
  from kernel_boots [OF arrays_witness start_kernel_simps(1) this start_kernel_simps(2),
      of script_device "[]"]
  show ?thesis unfolding start_kernel_simps(3) by blast
qed

end
