(* ===== verification/Kernel_Runs.thy ===== *)
theory Kernel_Runs
  imports Kernel_Props
begin

text \<open>
  The kernel after \<open>kernel_main\<close> (\<^verbatim>\<open>kernel/src/kernel.c\<close>) as a state machine: each step is one call of
  an operation that the components offer, in any order and any number. What the boot sequence
  establishes is an invariant of all runs, no call gets stuck, and an interrupt runs the handler
  that was registered last for its vector.
\<close>

section \<open>Calls and steps\<close>

datatype console_call = Clear | Puts "u8 list" | Set_fg u8 | Set_bg u8 | Colormap | Ascii_table | Output_num u8

fun run_console :: "console_call \<Rightarrow> 'a tty_scheme \<Rightarrow> 'a tty_scheme" where
  "run_console Clear s = tty_clear s"
| "run_console (Puts cs) s = tty_puts cs s"
| "run_console (Set_fg c) s = tty_set_fg c s"
| "run_console (Set_bg c) s = tty_set_bg c s"
| "run_console Colormap s = tty_print_colormap s"
| "run_console Ascii_table s = tty_ascii_printable_table s"
| "run_console (Output_num n) s = output_num n s"

datatype kernel_call = Print "u8 list" "va_arg list" | Console console_call | Segments | Gates | Gates_flush
  | Register u8 u32 | Interrupt u8 | Ps2_init | Ps2_enable | Ps2_reset

text \<open>
  One step. A format must have a defined text, the only handler is the one at \<open>th\<close>, and the last
  vector has no gate within the limit of the table.
\<close>

inductive kernel_steps_to ::
  "'h port_device \<Rightarrow> u32 \<Rightarrow> ('h, 'a) kernel_scheme \<Rightarrow> kernel_call \<Rightarrow> ('h, 'a) kernel_scheme \<Rightarrow> bool"
  for dev th where
  print: "format_text fmt va \<noteq> None \<Longrightarrow> kprintf fmt va s = Some t \<Longrightarrow> kernel_steps_to dev th s (Print fmt va) t"
| console: "kernel_steps_to dev th s (Console c) (run_console c s)"
| segments: "gdt_init s \<bind> gdt_flush = Some t \<Longrightarrow> kernel_steps_to dev th s Segments t"
| gates: "kernel_steps_to dev th s Gates (idt_init s)"
| gates_flush: "idt_flush s = Some t \<Longrightarrow> kernel_steps_to dev th s Gates_flush t"
| register: "h = 0 \<or> h = th \<Longrightarrow> idt_register_handler v h s = Some t \<Longrightarrow>
    kernel_steps_to dev th s (Register v h) t"
| interrupt: "n < 255 \<Longrightarrow> software_interrupt (call_function th) n s = Some t \<Longrightarrow>
    kernel_steps_to dev th s (Interrupt n) t"
| ps2_init: "ps2_init dev s = Some t \<Longrightarrow> kernel_steps_to dev th s Ps2_init t"
| ps2_enable: "ps2_enable_ports dev s = Some t \<Longrightarrow> kernel_steps_to dev th s Ps2_enable t"
| ps2_reset: "ps2_reset_devices dev s = Some t \<Longrightarrow> kernel_steps_to dev th s Ps2_reset t"

inductive_cases interruptE: "kernel_steps_to dev th s (Interrupt n) t"

inductive_cases steps_toE:
  "kernel_steps_to dev th s (Print fmt va) t" "kernel_steps_to dev th s (Console d) t"
  "kernel_steps_to dev th s Segments t" "kernel_steps_to dev th s Gates t" "kernel_steps_to dev th s Gates_flush t"
  "kernel_steps_to dev th s (Register v h) t" "kernel_steps_to dev th s (Interrupt n) t"
  "kernel_steps_to dev th s Ps2_init t" "kernel_steps_to dev th s Ps2_enable t" "kernel_steps_to dev th s Ps2_reset t"

text \<open>A run with the sequence of its calls.\<close>

inductive kernel_runs ::
  "'h port_device \<Rightarrow> u32 \<Rightarrow> ('h, 'a) kernel_scheme \<Rightarrow> kernel_call list \<Rightarrow> ('h, 'a) kernel_scheme \<Rightarrow> bool"
  for dev th s where
  start: "kernel_runs dev th s [] s"
| step: "kernel_runs dev th s cs t \<Longrightarrow> kernel_steps_to dev th t c u \<Longrightarrow> kernel_runs dev th s (cs @ [c]) u"

section \<open>The invariant\<close>

definition tables_sized :: "'a intr_scheme \<Rightarrow> bool" where
  "tables_sized s \<longleftrightarrow> length (gdt s) = SEGMENT_GDT_NUM_ENTRIES \<and> length (idt s) = IDT_MAX_ENTRIES \<and>
     inj_on (label_address s) (set isr_labels) \<and> length (isr_user_handlers s) = 256"

lemma tables_reserved_sized: "tables_reserved s \<Longrightarrow> tables_sized s"
  by (simp add: tables_reserved_def tables_sized_def)

definition kernel_ready :: "u32 \<Rightarrow> ('h, 'a) ps2_scheme \<Rightarrow> bool" where
  "kernel_ready th s \<longleftrightarrow> flat_model s \<and> idt_installed s \<and> tables_sized s \<and> set (isr_user_handlers s) \<subseteq> {0, th}"

text \<open>What a call does to the table of handlers.\<close>

fun registers :: "kernel_call \<Rightarrow> u32 list \<Rightarrow> u32 list" where
  "registers (Register v h) hs = hs[unat v := h]"
| "registers _ hs = hs"

definition keeps_kernel :: "u32 \<Rightarrow> kernel_call \<Rightarrow> ('h, 'a) ps2_scheme \<Rightarrow> ('h, 'a) ps2_scheme \<Rightarrow> bool" where
  "keeps_kernel th c s t \<longleftrightarrow> kernel_ready th t \<and> within (idt_tail (idt_address s)) s t \<and> idt_address t = idt_address s \<and>
     isr_user_handlers t = registers c (isr_user_handlers s)"

lemma keeps_tables:
  assumes "kernel_ready th s" "system_tables t = system_tables s" "within (idt_tail (idt_address s)) s t" "\<And>hs. registers c hs = hs"
  shows "keeps_kernel th c s t"
  using assms system_tables_cong [OF assms(2)]
  by (simp add: keeps_kernel_def kernel_ready_def tables_sized_def system_tables_def)

lemma keeps_more:
  assumes "kernel_ready th s" "tty.more t = tty.more s" "within (idt_tail (idt_address s)) s t" "\<And>hs. registers c hs = hs"
  shows "keeps_kernel th c s t"
  by (rule keeps_tables [OF assms(1) system_tables_more [OF assms(2)] assms(3,4)])

lemma prints_within: "prints s r \<Longrightarrow> r = Some t \<Longrightarrow> within A s t \<and> tty.more t = tty.more s"
  by (elim printsE) (auto simp: within_step)

lemma run_console_eqs:
  "run_console Clear = tty_clear" "run_console (Puts cs) = tty_puts cs" "run_console (Set_fg c) = tty_set_fg c"
  "run_console (Set_bg c) = tty_set_bg c" "run_console Colormap = tty_print_colormap"
  "run_console Ascii_table = tty_ascii_printable_table" "run_console (Output_num c) = output_num c"
  by (simp_all add: fun_eq_iff)

lemma run_console_op: "tty_op (run_console c)"
  by (cases c) (simp_all only: run_console_eqs clear.tty_op_axioms puts.tty_op_axioms set_fg.tty_op_axioms
    set_bg.tty_op_axioms colormap.tty_op_axioms table.tty_op_axioms num.tty_op_axioms)


section \<open>Every step keeps it\<close>

lemma keeps_segments:
  assumes "kernel_ready th s"
  shows "\<exists>t. gdt_init s \<bind> gdt_flush = Some t \<and> keeps_kernel th Segments s t"
proof -
  have "length (gdt s) = SEGMENT_GDT_NUM_ENTRIES" using assms by (simp add: kernel_ready_def tables_sized_def)
  then obtain t where t: "gdt_init s \<bind> gdt_flush = Some t" "flat_model t"
    "length (gdt t) = SEGMENT_GDT_NUM_ENTRIES" "seg.more t = seg.more s" "wf_tty s \<Longrightarrow> kernel_step s (Some t)"
    by (rule gdt_flat_effect) (rule that)
  have same: "idt t = idt s \<and> idt_address t = idt_address s \<and>
      cpu_idtr t = cpu_idtr s \<and> label_address t = label_address s \<and> isr_user_handlers t = isr_user_handlers s"
    using t(4) by (cases s; cases t; simp)
  then have "idt_installed t = idt_installed s" by (intro idt_installed_cong) simp_all
  with same t(2,3) assms have "kernel_ready th t" by (simp add: kernel_ready_def tables_sized_def)
  with same t(1) within_step [OF t(5)] show ?thesis by (auto simp: keeps_kernel_def)
qed

lemma keeps_gates:
  assumes "kernel_ready th s"
  shows "keeps_kernel th Gates s (idt_init s)"
proof -
  have len: "length (idt s) = IDT_MAX_ENTRIES" using assms by (simp add: kernel_ready_def tables_sized_def)
  note init = idt_init_effect [OF len]
  note other = intr_other_cong [OF init(1)]
  have "cpu_idtr (idt_init s) = cpu_idtr s"
    using init(1) by (cases s; cases "idt_init s"; simp add: other_state_def)
  then have "idt_installed (idt_init s)"
    using assms init(2,3) other(1,2) by (simp add: kernel_ready_def idt_installed_def stub_gate_def)
  moreover have "flat_model (idt_init s)"
    using assms flat_model_cong [OF other(6,7,8)] by (simp add: kernel_ready_def)
  ultimately have "kernel_ready th (idt_init s)"
    using assms init(2) other by (simp add: kernel_ready_def tables_sized_def)
  then show ?thesis using other init(4) by (simp add: keeps_kernel_def within_def)
qed

lemma keeps_flush:
  assumes "kernel_ready th s"
  shows "\<exists>t. idt_flush s = Some t \<and> keeps_kernel th Gates_flush s t"
proof -
  let ?r = "\<lparr>idtr_limit = 2039, idtr_base = idt_address s\<rparr>"
  obtain t where t: "idt_flush s = Some t" "tty.more t = tty.more (s\<lparr>idtr := ?r, cpu_idtr := ?r\<rparr>)"
    "wf_tty s \<Longrightarrow> kernel_step s (Some t)"
    by (rule idt_flush_effect) (rule that)
  have "cpu_idtr s = ?r" using assms by (simp add: kernel_ready_def idt_installed_def)
  then have "system_tables t = system_tables s"
    using system_tables_more [OF t(2)] by (simp add: system_tables_def)
  from keeps_tables [OF assms this within_step [OF t(3)]] t(1) show ?thesis by auto
qed

lemma keeps_register:
  assumes "kernel_ready th s" "h = 0 \<or> h = th"
  shows "\<exists>t. idt_register_handler v h s = Some t \<and> keeps_kernel th (Register v h) s t"
proof -
  have "prints s (ASSERT (v \<ge> 32) (cstr ''vector >= 32'') s)"
  proof (cases "v \<ge> 32")
    case False
    have "literal (cstr ''Assertion failedvector >= 32'')" by (simp add: literal_def)
    from prints_kprintf [of "cstr ''Assertion failedvector >= 32''" "[]" s] format_text_literal [OF this, of "[]"]
    show ?thesis using False by (simp add: ASSERT_def)
  qed (simp add: ASSERT_def)
  note p = this
  from p obtain u where eq: "ASSERT (v \<ge> 32) (cstr ''vector >= 32'') s = Some u" by (rule printsE)
  have u: "within (idt_tail (idt_address s)) s u" "tty.more u = tty.more s" using prints_within [OF p eq] by simp_all
  let ?t = "u\<lparr>isr_user_handlers := (isr_user_handlers u)[unat v := h]\<rparr>"
  have handlers: "isr_user_handlers u = isr_user_handlers s" by (rule intr_more_cong(6) [OF u(2)])
  have ready: "kernel_ready th u" "idt_address u = idt_address s"
    using keeps_more [OF assms(1) u(2,1), of Gates] by (simp_all add: keeps_kernel_def)
  have "flat_model ?t = flat_model u" by (rule flat_model_cong) simp_all
  moreover have "idt_installed ?t = idt_installed u" by (rule idt_installed_cong) simp_all
  moreover have "set ((isr_user_handlers u)[unat v := h]) \<subseteq> {0, th}"
    using ready assms(2) set_update_subset_insert [of "isr_user_handlers u" "unat v" h] by (auto simp: kernel_ready_def)
  ultimately have "kernel_ready th ?t" using ready by (simp add: kernel_ready_def tables_sized_def)
  moreover have "within (idt_tail (idt_address s)) s ?t" using u(1) by (simp add: within_def wf_tty_def)
  ultimately have "keeps_kernel th (Register v h) s ?t" using handlers ready(2) by (simp add: keeps_kernel_def)
  then show ?thesis using eq by (simp add: idt_register_handler_def)
qed

text \<open>The interrupt of a vector: nothing, or the message of the handler.\<close>

definition interrupt_text :: "u32 list \<Rightarrow> u8 \<Rightarrow> u8 list" where
  "interrupt_text hs n = (if n < 32 \<or> hs ! unat n = 0 then [] else cstr ''Interrupt handler works!\<newline>'')"

lemma handler_cases:
  assumes "kernel_ready th s"
  shows "isr_user_handlers s ! unat (n :: u8) \<in> {0, th}"
proof -
  have "unat n < length (isr_user_handlers s)"
    using assms unat_lt [of n] by (simp add: kernel_ready_def tables_sized_def)
  then show ?thesis using assms nth_mem by (fastforce simp: kernel_ready_def)
qed

lemma interrupt_prints:
  assumes "kernel_ready th s" "n < 255"
  shows "software_interrupt (call_function th) n s = Some (fold tty_putc (interrupt_text (isr_user_handlers s) n) s)"
proof -
  have "isr_user_handlers s ! unat n \<in> {0, th}" by (rule handler_cases [OF assms(1)])
  then show ?thesis
    using assms installed_interrupt [of s n "call_function th"] test_handler.op_prints [of s]
    by (auto simp: kernel_ready_def tables_sized_def call_function_def interrupt_text_def simp del: of_char_Char)
qed

lemma keeps_fold_putc: "kernel_ready th s \<Longrightarrow> (\<And>hs. registers c hs = hs) \<Longrightarrow> keeps_kernel th c s (fold tty_putc cs s)"
  by (rule keeps_more) (simp_all add: within_step kernel_step_prints)

lemma keeps_drives: "kernel_ready th s \<Longrightarrow> drives s t ws rs \<Longrightarrow> (\<And>hs. registers c hs = hs) \<Longrightarrow> keeps_kernel th c s t"
  by (rule keeps_tables) (simp_all add: drives_def within_step)

lemma keeps_ps2:
  assumes "kernel_ready th s"
  shows "\<exists>t. ps2_init dev s = Some t \<and> keeps_kernel th Ps2_init s t"
    "\<exists>t. ps2_enable_ports dev s = Some t \<and> keeps_kernel th Ps2_enable s t"
    "\<exists>t. ps2_reset_devices dev s = Some t \<and> keeps_kernel th Ps2_reset s t"
proof -
  show "\<exists>t. ps2_init dev s = Some t \<and> keeps_kernel th Ps2_init s t"
    by (rule init_effect [of dev s]) (use keeps_drives [OF assms, where c = Ps2_init] in auto)
  show "\<exists>t. ps2_enable_ports dev s = Some t \<and> keeps_kernel th Ps2_enable s t"
    by (rule enable_ports_effect [of dev s]) (use keeps_drives [OF assms, where c = Ps2_enable] in auto)
  show "\<exists>t. ps2_reset_devices dev s = Some t \<and> keeps_kernel th Ps2_reset s t"
    by (rule reset_devices_effect [of dev s]) (use keeps_drives [OF assms, where c = Ps2_reset] in auto)
qed

text \<open>The calls a client may make.\<close>

fun allowed :: "u32 \<Rightarrow> kernel_call \<Rightarrow> bool" where
  "allowed th (Print fmt va) \<longleftrightarrow> format_text fmt va \<noteq> None"
| "allowed th (Register v h) \<longleftrightarrow> h = 0 \<or> h = th"
| "allowed th (Interrupt n) \<longleftrightarrow> n < 255"
| "allowed th _ \<longleftrightarrow> True"

lemma keeps_print:
  assumes "kernel_ready th s" "format_text fmt va \<noteq> None"
  shows "\<exists>t. kprintf fmt va s = Some t \<and> keeps_kernel th (Print fmt va) s t"
proof -
  note p = prints_kprintf [OF assms(2), of s]
  from p obtain t where t: "kprintf fmt va s = Some t" by (rule printsE)
  from prints_within [OF p t] have "keeps_kernel th (Print fmt va) s t"
    by (intro keeps_more [OF assms(1)]) simp_all
  with t show ?thesis by (intro exI conjI)
qed

lemma keeps_console:
  assumes "kernel_ready th s"
  shows "keeps_kernel th (Console c) s (run_console c s)"
  by (rule keeps_more [OF assms tty_op.op_more [OF run_console_op]])
    (use tty_op.op_safe [OF run_console_op, of s c] in \<open>simp_all add: within_def\<close>)

lemma some_eq: "\<exists>t. r = Some t \<and> P t \<Longrightarrow> r = Some t \<Longrightarrow> P t"
  by simp

lemma step_keeps:
  assumes "kernel_steps_to dev th s c t" "kernel_ready th s"
  shows "keeps_kernel th c s t"
  using assms
proof (cases rule: kernel_steps_to.cases)
  case (print fmt va)
  show ?thesis unfolding print(1) by (rule some_eq [OF keeps_print [OF assms(2) print(2)] print(3)])
next
  case (console c)
  show ?thesis unfolding console by (rule keeps_console [OF assms(2)])
next
  case segments
  show ?thesis unfolding segments(1) by (rule some_eq [OF keeps_segments [OF assms(2)] segments(2)])
next
  case gates
  show ?thesis unfolding gates by (rule keeps_gates [OF assms(2)])
next
  case gates_flush
  show ?thesis unfolding gates_flush(1) by (rule some_eq [OF keeps_flush [OF assms(2)] gates_flush(2)])
next
  case (register h v)
  show ?thesis unfolding register(1) by (rule some_eq [OF keeps_register [OF assms(2) register(2)] register(3)])
next
  case (interrupt n)
  have "t = fold tty_putc (interrupt_text (isr_user_handlers s) n) s"
    using interrupt(3) interrupt_prints [OF assms(2) interrupt(2)] by simp
  then show ?thesis unfolding interrupt(1) using keeps_fold_putc [OF assms(2), of "Interrupt n"] by simp
next
  case ps2_init
  show ?thesis unfolding ps2_init(1) by (rule some_eq [OF keeps_ps2(1) [OF assms(2)] ps2_init(2)])
next
  case ps2_enable
  show ?thesis unfolding ps2_enable(1) by (rule some_eq [OF keeps_ps2(2) [OF assms(2)] ps2_enable(2)])
next
  case ps2_reset
  show ?thesis unfolding ps2_reset(1) by (rule some_eq [OF keeps_ps2(3) [OF assms(2)] ps2_reset(2)])
qed

lemma step_exists:
  assumes "kernel_ready th s" "allowed th c"
  shows "\<exists>t. kernel_steps_to dev th s c t"
proof (cases c)
  case (Print fmt va)
  with keeps_print [OF assms(1), of fmt va] assms(2) show ?thesis by (auto intro: kernel_steps_to.print)
next
  case (Console d)
  then show ?thesis by (auto intro: kernel_steps_to.console)
next
  case Segments
  with keeps_segments [OF assms(1)] show ?thesis by (auto intro: kernel_steps_to.segments)
next
  case Gates
  then show ?thesis by (auto intro: kernel_steps_to.gates)
next
  case Gates_flush
  with keeps_flush [OF assms(1)] show ?thesis by (auto intro: kernel_steps_to.gates_flush)
next
  case (Register v h)
  with keeps_register [OF assms(1), of h v] assms(2) show ?thesis by (auto intro: kernel_steps_to.register)
next
  case (Interrupt n)
  with interrupt_prints [OF assms(1), of n] assms(2) show ?thesis by (auto intro: kernel_steps_to.interrupt)
next
  case Ps2_init
  with keeps_ps2(1) [OF assms(1), of dev] show ?thesis by (auto intro: kernel_steps_to.ps2_init)
next
  case Ps2_enable
  with keeps_ps2(2) [OF assms(1), of dev] show ?thesis by (auto intro: kernel_steps_to.ps2_enable)
next
  case Ps2_reset
  with keeps_ps2(3) [OF assms(1), of dev] show ?thesis by (auto intro: kernel_steps_to.ps2_reset)
qed

lemma run_keeps:
  assumes "kernel_runs dev th s cs t" "kernel_ready th s"
  shows "kernel_ready th t \<and> within (idt_tail (idt_address s)) s t \<and> idt_address t = idt_address s \<and> isr_user_handlers t = fold registers cs (isr_user_handlers s)"
  using assms
proof (induction rule: kernel_runs.induct)
  case start
  then show ?case by (simp add: within_def)
next
  case (step cs t c u)
  then have t: "kernel_ready th t" "within (idt_tail (idt_address s)) s t" "idt_address t = idt_address s"
    "isr_user_handlers t = fold registers cs (isr_user_handlers s)"
    by simp_all
  have k: "kernel_ready th u" "within (idt_tail (idt_address t)) t u" "idt_address u = idt_address t"
    "isr_user_handlers u = registers c (isr_user_handlers t)"
    using step_keeps [OF step.hyps(2) t(1)] unfolding keeps_kernel_def by blast+
  from k(1,3,4) t(3,4) within_trans [OF t(2) k(2) [unfolded t(3)]] show ?case by simp
qed

text \<open>A call determines its successor, and every sequence of allowed calls has its run.\<close>

lemma step_det: "kernel_steps_to dev th s c t \<Longrightarrow> kernel_steps_to dev th s c u \<Longrightarrow> t = u"
  by (cases c) (auto elim!: steps_toE)

lemma run_det: "kernel_runs dev th s cs t \<Longrightarrow> kernel_runs dev th s cs u \<Longrightarrow> t = u"
proof (induction arbitrary: u rule: kernel_runs.induct)
  case start
  from start show ?case by (cases rule: kernel_runs.cases) simp_all
next
  case (step cs t c v)
  from step.prems obtain t' where "kernel_runs dev th s cs t'" "kernel_steps_to dev th t' c u"
    by (cases rule: kernel_runs.cases) simp_all
  with step.IH step.hyps(2) step_det show ?case by metis
qed

lemma run_exists:
  assumes "kernel_ready th s" "\<forall>c \<in> set cs. allowed th c"
  shows "\<exists>t. kernel_runs dev th s cs t"
  using assms(2)
proof (induction cs rule: rev_induct)
  case Nil
  then show ?case using kernel_runs.start by fast
next
  case (snoc c cs)
  then obtain t where t: "kernel_runs dev th s cs t" by auto
  have "kernel_ready th t" using run_keeps [OF t assms(1)] by simp
  then obtain u where "kernel_steps_to dev th t c u" using step_exists snoc.prems by fastforce
  with t show ?case using kernel_runs.step by fast
qed

text \<open>What the boot sequence leaves.\<close>

lemma boot_ready:
  assumes "valid_region src 256" "valid_region dst 256" "valid_region data 256" "apart src dst 256"
    and "tables_reserved s" "th \<noteq> 0" "set (isr_user_handlers s) \<subseteq> {0, th}"
  obtains s0 where "kernel_main dev th src dst data s = Some s0" "kernel_ready th s0"
    "isr_user_handlers s0 = (isr_user_handlers s)[32 := th]" "within (boot_memory src dst data (idt_address s)) s s0"
    "idt_address s0 = idt_address s"
proof (rule kernel_main_effect [OF assms(1-6), of dev])
  fix s0 c st f r ws rs
  assume s0: "kernel_main dev th src dst data s = Some s0"
    "flat_model s0" "idt_installed s0" "isr_user_handlers s0 = (isr_user_handlers s)[32 := th]"
    "within (boot_memory src dst data (idt_address s)) s s0" "tables_reserved s0" "idt_address s0 = idt_address s"
  have "set ((isr_user_handlers s)[32 := th]) \<subseteq> {0, th}"
    using assms(7) set_update_subset_insert [of "isr_user_handlers s" 32 th] by auto
  then have "kernel_ready th s0"
    using s0(2,3,4) tables_reserved_sized [OF s0(6)] by (simp add: kernel_ready_def)
  then show thesis using s0(1,4,5,7) by (intro that)
qed

section \<open>The kernel's runs\<close>

text \<open>
  C2: whatever sequence of calls follows the boot sequence (the steps of \<open>kernel_steps_to\<close>), the processor stays in the flat model,
  every vector below 255 keeps its gate, the cursor stays on the screen, no byte of memory changes
  outside the text buffer, the arrays of the self-tests and the eight bytes behind the table of
  gates, and the table of handlers is what the registrations made of it, in their order.
\<close>

theorem kernel_runs_safe:
  assumes "valid_region src 256" "valid_region dst 256" "valid_region data 256" "apart src dst 256"
    and "tables_reserved s" "th \<noteq> 0" "set (isr_user_handlers s) \<subseteq> {0, th}" "wf_tty s"
    and "kernel_main dev th src dst data s = Some s0" "kernel_runs dev th s0 cs t"
  shows "flat_model t \<and> idt_installed t \<and> wf_tty t \<and>
    (\<forall>a. \<not> vga_byte a \<longrightarrow> \<not> test_arrays src dst data a \<longrightarrow> \<not> idt_tail (idt_address s) a \<longrightarrow>
       memory t a = memory s a) \<and>
    isr_user_handlers t = fold registers cs ((isr_user_handlers s)[32 := th])"
proof (rule boot_ready [OF assms(1-7), of dev])
  fix s1
  assume s1: "kernel_main dev th src dst data s = Some s1" "kernel_ready th s1"
    "isr_user_handlers s1 = (isr_user_handlers s)[32 := th]" "within (boot_memory src dst data (idt_address s)) s s1"
    "idt_address s1 = idt_address s"
  have eq: "s1 = s0" using s1(1) assms(9) by simp
  note t = run_keeps [OF assms(10) s1(2) [unfolded eq]]
  have "wf_tty s0" using s1(4) assms(8) by (simp add: eq within_def)
  with t s1(3-5) assms(8) show ?thesis by (simp add: eq within_def boot_memory_def kernel_ready_def)
qed

text \<open>
  C5: after the boot sequence, every sequence of allowed calls (a format with a defined text, a
  handler that exists, a vector with a gate) runs to its end, in exactly one way, on every PS/2
  controller.
\<close>

theorem kernel_runs_complete:
  assumes "valid_region src 256" "valid_region dst 256" "valid_region data 256" "apart src dst 256"
    and "tables_reserved s" "th \<noteq> 0" "set (isr_user_handlers s) \<subseteq> {0, th}"
    and "\<forall>c \<in> set cs. allowed th c"
  shows "\<exists>s0. kernel_main dev th src dst data s = Some s0 \<and> (\<exists>!t. kernel_runs dev th s0 cs t)"
proof (rule boot_ready [OF assms(1-7), of dev])
  fix s0
  assume "kernel_main dev th src dst data s = Some s0" "kernel_ready th s0"
  with run_exists [OF _ assms(8)] run_det show ?thesis by metis
qed

text \<open>
  C8: an interrupt after any run prints the handler's message once if its vector is a user vector
  whose last registration is not null, and leaves the state as it is otherwise.
\<close>

theorem interrupt_last_handler:
  assumes "valid_region src 256" "valid_region dst 256" "valid_region data 256" "apart src dst 256"
    and "tables_reserved s" "th \<noteq> 0" "set (isr_user_handlers s) \<subseteq> {0, th}"
    and "kernel_main dev th src dst data s = Some s0" "kernel_runs dev th s0 cs t"
    and "kernel_steps_to dev th t (Interrupt n) u"
  shows "u = (if 32 \<le> n \<and> fold registers cs ((isr_user_handlers s)[32 := th]) ! unat n = th
    then fold tty_putc (cstr ''Interrupt handler works!\<newline>'') t else t)"
proof (rule boot_ready [OF assms(1-7), of dev])
  fix s1
  assume s1: "kernel_main dev th src dst data s = Some s1" "kernel_ready th s1"
    "isr_user_handlers s1 = (isr_user_handlers s)[32 := th]"
  have eq: "s1 = s0" using s1(1) assms(8) by simp
  note t = run_keeps [OF assms(9) s1(2) [unfolded eq]]
  then have ready: "kernel_ready th t" and hs: "isr_user_handlers t = fold registers cs ((isr_user_handlers s)[32 := th])"
    using s1(3) by (simp_all add: eq)
  from assms(10) obtain "n < 255" and u: "software_interrupt (call_function th) n t = Some u" by (rule interruptE)
  then have "u = fold tty_putc (interrupt_text (isr_user_handlers t) n) t"
    using interrupt_prints [OF ready] by simp
  moreover have "isr_user_handlers t ! unat n \<in> {0, th}" by (rule handler_cases [OF ready])
  ultimately show ?thesis
    using assms(6) unfolding hs interrupt_text_def by (auto simp: not_less simp del: of_char_Char)
qed

text \<open>Witnesses: runs that register a handler, raise its interrupt and use the other components.\<close>

definition sample_calls :: "kernel_call list" where
  "sample_calls = [Console Clear, Register 0x40 0x102000, Interrupt 0x40, Register 0x40 0, Ps2_init]"

lemma sample_boot:
  "valid_region 0x107100 256" "valid_region 0x107200 256" "valid_region 0x107300 256"
  "apart 0x107100 0x107200 256" "tables_reserved (start_kernel [])" "(0x102000 :: u32) \<noteq> 0"
  "set (isr_user_handlers (start_kernel [])) \<subseteq> {0, 0x102000}"
  using arrays_witness by (auto simp: start_kernel_simps)

lemma sample_runs:
  assumes "\<forall>c \<in> set cs. allowed 0x102000 c"
  obtains s0 t where "kernel_main dev 0x102000 0x107100 0x107200 0x107300 (start_kernel []) = Some s0"
    "kernel_ready 0x102000 s0" "kernel_runs dev 0x102000 s0 cs t" "kernel_ready 0x102000 t"
proof (rule boot_ready [OF sample_boot, of dev])
  fix s0
  assume s0: "kernel_main dev 0x102000 0x107100 0x107200 0x107300 (start_kernel []) = Some s0" "kernel_ready 0x102000 s0"
  from run_exists [OF s0(2) assms] obtain t where t: "kernel_runs dev 0x102000 s0 cs t" ..
  from run_keeps [OF t s0(2)] show thesis by (intro that [OF s0 t]) simp
qed

lemma sample_allowed: "\<forall>c \<in> set sample_calls. allowed 0x102000 c"
  by (simp add: sample_calls_def)

theorem kernel_runs_safe_witness:
  "\<exists>t :: u8 list kernel. flat_model t \<and> idt_installed t \<and> isr_user_handlers t = (replicate 256 0)[32 := 0x102000]"
proof -
  obtain s0 t where r: "kernel_main script_device 0x102000 0x107100 0x107200 0x107300 (start_kernel []) = Some s0"
    "kernel_runs script_device 0x102000 s0 sample_calls t" by (rule sample_runs [OF sample_allowed]) (rule that)
  have "fold registers sample_calls ((replicate 256 0)[32 := 0x102000]) = (replicate 256 0)[32 := 0x102000]"
    by (simp add: sample_calls_def list_eq_iff_nth_eq nth_list_update)
  with kernel_runs_safe [OF sample_boot start_kernel_simps(2) r] show ?thesis
    unfolding start_kernel_simps(3) by auto
qed

theorem kernel_runs_complete_witness:
  "\<exists>s0. kernel_main script_device 0x102000 0x107100 0x107200 0x107300 (start_kernel []) = Some s0 \<and>
     (\<exists>!t. kernel_runs script_device 0x102000 s0 sample_calls t)"
  by (rule kernel_runs_complete [OF sample_boot sample_allowed])

theorem interrupt_last_handler_witness:
  "\<exists>t u :: u8 list kernel. kernel_steps_to script_device 0x102000 t (Interrupt 0x40) u \<and>
     u = fold tty_putc (cstr ''Interrupt handler works!\<newline>'') t"
proof -
  let ?cs = "[Console Clear, Register 0x40 0x102000]"
  have "\<forall>c \<in> set ?cs. allowed 0x102000 c" by simp
  then obtain s0 t where r: "kernel_main script_device 0x102000 0x107100 0x107200 0x107300 (start_kernel []) = Some s0"
    "kernel_runs script_device 0x102000 s0 ?cs t" "kernel_ready 0x102000 t" by (rule sample_runs) (rule that)
  have "allowed 0x102000 (Interrupt 0x40)" by simp
  from step_exists [OF r(3) this] obtain u where u: "kernel_steps_to script_device 0x102000 t (Interrupt 0x40) u" ..
  have "fold registers ?cs ((replicate 256 0)[32 := 0x102000]) ! unat (0x40 :: u8) = 0x102000" by simp
  with interrupt_last_handler [OF sample_boot r(1,2) u] have "u = fold tty_putc (cstr ''Interrupt handler works!\<newline>'') t"
    unfolding start_kernel_simps(3) by (simp del: of_char_Char)
  with u show ?thesis by blast
qed

end
