(* ===== verification/Vsnprintf_Props.thy ===== *)
theory Vsnprintf_Props
  imports Vsnprintf_Text
begin

text \<open>
  What the functions of \<^verbatim>\<open>libc/include/stdio.h\<close> promise: \<open>snprintf\<close> stores a cut and
  terminated copy of the text and nothing else, \<open>printf\<close> puts it on the console, the
  directives mean what they should; and what happens to a format that ends in the middle of a
  directive.
\<close>

section \<open>Buffers\<close>

lemma emit_out_buffer:
  assumes "length cs \<le> 2 ^ 32"
  shows "emit (out_buffer buffer) maxlen 0 cs m a =
    (if unat (a - buffer) < min (length cs) (unat maxlen) then cs ! unat (a - buffer) else m a)"
  using buffer.emit_stored [of 0 cs buffer maxlen m "a - buffer"] assms
  by (auto simp: buffer_at_def word_less_nat_alt)

text \<open>
  C3: \<open>snprintf\<close> (and \<open>vsnprintf\<close>, \<open>snprintf_contract\<close> for both) with a buffer of \<open>count\<close>
  bytes stores the first \<open>count - 1\<close> characters of the text and a terminating zero behind
  them, writes no other byte of the memory (none at all when \<open>count\<close> is zero), and returns the
  length of the whole text, whatever was stored of it.
\<close>

theorem snprintf_contract:
  assumes "format_text fmt va = Some cs" "length cs < 2 ^ 32" "buffer \<noteq> 0"
  shows "snprintf buffer count fmt va m =
    Some (\<lambda>a. let k = unat (a - buffer); n = min (length cs) (unat count - 1)
              in if count = 0 then m a else if k < n then cs ! k else if k = n then 0 else m a,
          of_nat (length cs))"
proof -
  let ?n = "of_nat (length cs) :: u32"
  let ?m = "emit (out_buffer buffer) count 0 cs m"
  have "snprintf buffer count fmt va m =
      Some (out_buffer buffer 0 ?m (if ?n < count then ?n else count - 1) count, ?n)"
    using assms by (simp add: snprintf_def internal_vsnprintf_sends Let_def)
  moreover have "out_buffer buffer 0 ?m (if ?n < count then ?n else count - 1) count a =
      (let k = unat (a - buffer); n = min (length cs) (unat count - 1)
       in if count = 0 then m a else if k < n then cs ! k else if k = n then 0 else m a)" for a
  proof (cases "count = 0")
    case True
    then show ?thesis using assms(2) by (simp add: out_buffer_def emit_out_buffer)
  next
    case False
    then have c1: "unat (count - 1) = unat count - 1" "0 < unat count" "count - 1 < count"
      by (simp_all add: unat_minus_one unat_gt_0 word_less_nat_alt)
    let ?i = "if ?n < count then ?n else count - 1"
    have i: "unat ?i = min (length cs) (unat count - 1)" "?i < count"
      using assms(2) c1 by (auto simp: of_nat_less_word32_iff)
    have a: "a = buffer + ?i \<longleftrightarrow> unat (a - buffer) = unat ?i" by (rule eq_plus_iff_unat)
    show ?thesis
      using False i a c1(2) assms(2)
      by (auto simp: out_buffer_def emit_out_buffer Let_def simp del: unat_of_nat_u32 split: if_splits)
  qed
  ultimately show ?thesis by (simp add: fun_eq_iff)
qed

theorem snprintf_contract_witness:
  "map_option (\<lambda>(m, n). (bytes_at m 0x1000 5, n)) (snprintf 0x1000 4 (cstr ''x=%d'') [VWord 42] (\<lambda>_. 0xAA)) =
     Some (cstr ''x=4'' @ [0, 0xAA], 4)"
proof -
  have "format_text (cstr ''x=%d'') [VWord 42] = Some (cstr ''x=42'')" by code_simp
  from snprintf_contract [OF this, of "0x1000" 4 "\<lambda>_. 0xAA"] show ?thesis
    by (simp add: bytes_at_def upt_conv_Cons Let_def)
qed

text \<open>
  A null buffer makes \<open>snprintf\<close> measure the text: the memory is left alone, whatever the
  count, and the result is the length of the text.
\<close>

lemma snprintf_null: "snprintf 0 count fmt va m = map_option (\<lambda>cs. (m, of_nat (length cs))) (format_text fmt va)"
  by (simp add: snprintf_def internal_vsnprintf_sends Let_def)
     (simp add: out_null_def)

section \<open>The console and client functions\<close>

text \<open>
  C11: \<open>printf\<close> puts the characters of the text that are not zero on the console, one after the
  other, and its result is the length of the text. \<open>fctprintf\<close> gives the same characters to the
  client's function.
\<close>

theorem printf_console:
  "printf fmt va s =
     map_option (\<lambda>cs. (fold tty_putc (filter (\<lambda>c. c \<noteq> 0) cs) s, of_nat (length cs))) (format_text fmt va)"
  by (rule printf_sends)

lemma fctprintf_client:
  "fctprintf fct fmt va s =
     map_option (\<lambda>cs. (fold fct (filter (\<lambda>c. c \<noteq> 0) cs) s, of_nat (length cs))) (format_text fmt va)"
  by (simp add: fctprintf_def internal_vsnprintf_sends Let_def wrapped.emit_stream wrapped.out_zero)

section \<open>Directives\<close>

text \<open>A format that starts with a text and a directive of one specifier letter and no fields.\<close>

lemma eval_fields_plain:
  assumes "c \<in> set (cstr ''diuxXobfFeEgGcsp%'')"
  shows "eval_fields (c # fmt) va = Some (0, 0, 0, c # fmt, va)"
  using assms
  by (auto simp: eval_fields_def eval_width_def eval_precision_def eval_length_def peek_def is_digit_def)

lemma format_text_plain:
  assumes "literal cs" "c \<in> set (cstr ''diuxXobfFeEgGcsp%'')"
    and "convert_text c 0 0 0 va = Some (ds, va')"
  shows "format_text (cs @ ch CHR ''%'' # c # fmt) va = map_option (\<lambda>r. cs @ ds @ r) (format_text fmt va')"
proof -
  have "format_text (ch CHR ''%'' # c # fmt) va = map_option ((@) ds) (format_text fmt va')"
    using assms(3) eval_fields_plain [OF assms(2), of fmt va]
    by (simp add: peek_def advance_def)
  then show ?thesis
    by (cases "format_text fmt va'") (simp_all add: format_text_literal_append [OF assms(1)])
qed

lemma unat_of_small_int:
  assumes "0 \<le> k" "k < 2 ^ LENGTH('w)"
  shows "int (unat (word_of_int k :: 'w::len word)) = k"
  using assms by (simp add: unsigned_of_int take_bit_int_eq_self)

lemma sint_range:
  fixes w :: "'w::len word"
  shows "- sint w < 2 ^ LENGTH('w)" "sint w < 2 ^ LENGTH('w)"
proof -
  have "- (2 ^ (LENGTH('w) - Suc 0)) \<le> sint w" "sint w < 2 ^ (LENGTH('w) - Suc 0)"
    using sint_greater_eq [of w] sint_less [of w] by simp_all
  moreover have "(2::int) ^ (LENGTH('w) - Suc 0) < 2 ^ LENGTH('w)" by simp
  ultimately show "- sint w < 2 ^ LENGTH('w)" "sint w < 2 ^ LENGTH('w)" by linarith+
qed

lemma unat_neg_word:
  fixes w :: "'w::len word"
  assumes "sint w < 0"
  shows "int (unat (- w)) = - sint w"
  using unat_of_small_int [of "- sint w", where 'w = 'w] assms sint_range(1) [of w] by simp

lemma unat_magnitude:
  fixes v :: "'a::len word"
  shows "unat (magnitude v) = nat \<bar>sint v\<bar>"
proof (cases "sint v < 0")
  case True
  then have "int (unat (magnitude v)) = \<bar>sint v\<bar>"
    using unat_neg_word [OF True] by (simp add: magnitude_def)
  then show ?thesis by linarith
next
  case False
  have "magnitude v = v"
  proof (cases "sint v > 0")
    case True
    then show ?thesis by (simp add: magnitude_def)
  next
    case no: False
    with False have "sint v = 0" by simp
    then have "v = 0" by (simp add: signed_eq_0_iff)
    then show ?thesis by (simp add: magnitude_def)
  qed
  moreover have "int (unat v) = sint v"
    using unat_of_small_int [of "sint v", where 'w = 'a] False sint_range(2) [of v] by simp
  ultimately have "int (unat (magnitude v)) = \<bar>sint v\<bar>" using False by simp
  then show ?thesis by linarith
qed

lemma ntoa_text_widths:
  fixes v base :: "'v::len word" and w base' :: "'w::len word"
  assumes "unat v = unat w" "unat base = unat base'"
  shows "ntoa_text v base negative prec width flags = ntoa_text w base' negative prec width flags"
proof -
  have "v = 0 \<longleftrightarrow> w = 0" using assms(1) by (simp flip: unat_eq_zero)
  then have "no_hash_for_zero v flags = no_hash_for_zero w flags" by (simp add: no_hash_for_zero_def)
  moreover have "(ucast base :: u32) = ucast base'"
  proof -
    have "(ucast base :: u32) = of_nat (unat base)" "(ucast base' :: u32) = of_nat (unat base')" by simp_all
    with assms(2) show ?thesis by (simp only:)
  qed
  ultimately show ?thesis
    using \<open>v = 0 \<longleftrightarrow> w = 0\<close> by (simp only: ntoa_text_def digits_text_def assms Let_def)
qed

text \<open>
  C20: the conversions of the two widths agree: \<open>_ntoa_long\<close> and \<open>_ntoa_long_long\<close> send the same
  characters for a 32-bit number and the same number sign-extended (or zero-extended, when it is
  unsigned) to 64 bits, in every base and with every combination of flags, width and precision.
\<close>

theorem ntoa_widths_agree:
  assumes "2 \<le> unat base"
  shows "ntoa_long out idx maxlen (magnitude v) (sint v < 0) base precision width flags s =
      ntoa_long_long out idx maxlen (magnitude (scast v)) (sint (scast v :: u64) < 0) (ucast base) precision width flags s \<and>
    ntoa_long out idx maxlen v False base precision width flags s =
      ntoa_long_long out idx maxlen (ucast v) False (ucast base) precision width flags s"
proof -
  have s: "sint (scast v :: u64) = sint v" by (rule sint_up_scast) (simp add: is_up)
  have "unat (magnitude v) = unat (magnitude (scast v :: u64))" by (simp only: unat_magnitude s)
  moreover have "unat w = unat (ucast w :: u64)" for w :: u32
    using unat_lt [of w] by (simp add: unsigned_ucast_eq take_bit_nat_eq_self)
  ultimately show ?thesis
    using assms by (simp only: ntoa_long_sends ntoa_long_long_sends s cong: ntoa_text_widths)
qed

theorem ntoa_widths_agree_witness:
  "ntoa_long (\<lambda>c s idx maxlen. s @ [c]) 0 100 (magnitude (- 5)) (sint (- 5 :: u32) < 0) 10 0 4 0 [] =
    ntoa_long_long (\<lambda>c s idx maxlen. s @ [c]) 0 100 (magnitude (scast (- 5 :: u32))) True 10 0 4 0 []"
  using ntoa_widths_agree [where v = "- 5" and base = 10 and idx = 0 and maxlen = 100 and s = "[]"
      and width = 4 and precision = 0 and flags = 0 and out = "\<lambda>c s idx maxlen. s @ [c]"]
  by simp

text \<open>The decimal notation of an integer.\<close>

definition int_decimal :: "int \<Rightarrow> u8 list" where
  "int_decimal i = (if i < 0 then [ch CHR ''-''] else []) @ decimal (nat \<bar>i\<bar>)"

lemma format_decimal:
  assumes "literal cs" "c = ch CHR ''d'' \<or> c = ch CHR ''i''"
  shows "format_text (cs @ ch CHR ''%'' # c # fmt) (VWord w # va) =
    map_option (\<lambda>r. cs @ int_decimal (sint w) @ r) (format_text fmt va)"
proof -
  have "ntoa_text (magnitude w) 10 (sint w < 0) 0 0 0 = int_decimal (sint w)"
    by (subst ntoa_text_decimal)
       (simp_all add: no_flag_def has_def pad_text_def sign_text_def int_decimal_def unat_magnitude)
  then have "convert_text c 0 0 0 (VWord w # va) = Some (int_decimal (sint w), va)"
    using assms(2) by (auto simp: convert_text_def conv_int_text_def int_flags_def int_base_def
        is_signed_def has_def signed_text_def int_arg_def)
  then show ?thesis using assms by (intro format_text_plain) auto
qed

lemma format_string:
  assumes "literal cs" "0 \<notin> set p"
  shows "format_text (cs @ cstr ''%s'' @ fmt) (VStr a p # va) =
    map_option (\<lambda>r. cs @ p @ r) (format_text fmt va)"
proof -
  have "string_text 0 n p = p" for n
    using assms(2) by (induction p arbitrary: n) (auto simp: has_def)
  then have "convert_text (ch CHR ''s'') 0 0 0 (VStr a p # va) = Some (p, va)"
    by (simp add: convert_text_def conv_string_text_def padded_def has_def)
  then show ?thesis
    using format_text_plain [OF assms(1), of "ch CHR ''s''"] by simp
qed

lemma literal_no_zero: "literal cs \<Longrightarrow> filter (\<lambda>c. c \<noteq> 0) cs = cs"
  by (simp add: literal_def filter_id_conv)

lemma decimal_no_zero: "filter (\<lambda>c. c \<noteq> 0) (int_decimal i) = int_decimal i"
proof -
  have "ch CHR ''0'' + of_nat d \<noteq> (0 :: u8)" if "d < 10" for d
    using digit_of_nat(1) [OF that] is_digit_iff [of 0] by auto
  then show ?thesis
    using nat_digits_less [of 10] by (fastforce simp: int_decimal_def decimal_def filter_id_conv)
qed

text \<open>
  \<open>printf\<close> with \<open>%d\<close> or \<open>%i\<close> between two literal texts prints them with the decimal notation of
  the \<open>int\<close> in between, for every \<open>int\<close>, the least one included.
\<close>

lemma printf_decimal:
  assumes "literal cs" "literal ds" "c = ch CHR ''d'' \<or> c = ch CHR ''i''"
  shows "printf (cs @ ch CHR ''%'' # c # ds) [VWord w] s =
    (let text = cs @ int_decimal (sint w) @ ds in Some (fold tty_putc text s, of_nat (length text)))"
  using assms(1,2) format_text_literal_append [OF assms(2), of "[]" "[]"]
    format_decimal [OF assms(1,3), of ds w "[]"]
  by (simp add: printf_sends literal_no_zero decimal_no_zero Let_def)

text \<open>
  \<open>printf\<close> with \<open>%s\<close> between two literal texts prints them with the string argument in between.
\<close>

lemma printf_string:
  assumes "literal cs" "literal ds" "0 \<notin> set p"
  shows "printf (cs @ cstr ''%s'' @ ds) [VStr a p] s =
    Some (fold tty_putc (cs @ p @ ds) s, of_nat (length (cs @ p @ ds)))"
proof -
  have "filter (\<lambda>c. c \<noteq> 0) p = p" using assms(3) by (auto simp: filter_id_conv)
  then show ?thesis
    using assms(1,2) format_text_literal_append [OF assms(2), of "[]" "[]"] format_string [OF assms(1,3), of ds a "[]"]
    by (simp add: printf_sends literal_no_zero)
qed

text \<open>
  C33: a format that ends in a lone \<open>%\<close> has no defined result: the code prints the terminating
  zero as if it were a specifier and goes on reading behind the string.
\<close>

theorem format_trailing_percent:
  assumes "literal cs"
  shows "printf (cs @ cstr ''%'') va s = None"
proof -
  have "eval_fields [] va = Some (0, 0, 0, [], va)"
    by (simp add: eval_fields_def eval_width_def eval_precision_def eval_length_def peek_def is_digit_def)
  then have "format_text [ch CHR ''%''] va = None"
    by (simp add: peek_def advance_def bind_eq_None_conv)
  then show ?thesis
    by (simp add: printf_def internal_vsnprintf_sends format_text_literal_append [OF assms])
qed

theorem format_trailing_percent_witness:
  "printf (cstr ''100%'') [] (\<lparr> memory = \<lambda>_. 0, vga_col = 0, vga_row = 0, tty_color = 7 \<rparr> :: tty) = None"
  using format_trailing_percent [where cs = "cstr ''100''" and va = "[]"
      and s = "\<lparr> memory = \<lambda>_. 0, vga_col = 0, vga_row = 0, tty_color = 7 \<rparr> :: tty"] by simp

end
