(* ===== verification/Directive.thy ===== *)
theory Directive
  imports Vsnprintf_Props
begin

text \<open>
  The syntax of the directives of \<open>printf\<close> and the parser of \<open>_vsnprintf\<close> in \<^verbatim>\<open>libc/stdio.c\<close>: a
  directive written out in characters is read back with its flags, width, precision and length,
  and a format composed of texts and directives denotes the concatenation of what they print.
\<close>

section \<open>Syntax\<close>

datatype flag = ZeroPad | LeftAlign | PlusSign | SpaceSign | HashSign

text \<open>A width or a precision: left out, written as a number, or given by an argument.\<close>

datatype amount = Absent | Number nat | Star u32

datatype length_field = NoLength | Char_hh | Short_h | Long_l | LongLong_ll | Ptrdiff_t | Intmax_j | Size_z

record directive =
  dflags :: "flag list"
  dwidth :: amount
  dprecision :: "amount option"
  dlength :: length_field

fun show_flag :: "flag \<Rightarrow> u8" where
  "show_flag ZeroPad = ch CHR ''0''"
| "show_flag LeftAlign = ch CHR ''-''"
| "show_flag PlusSign = ch CHR ''+''"
| "show_flag SpaceSign = ch CHR '' ''"
| "show_flag HashSign = ch CHR ''#''"

fun show_amount :: "amount \<Rightarrow> u8 list" where
  "show_amount Absent = []"
| "show_amount (Number n) = decimal n"
| "show_amount (Star w) = cstr ''*''"

fun show_precision :: "amount option \<Rightarrow> u8 list" where
  "show_precision None = []"
| "show_precision (Some a) = ch CHR ''.'' # show_amount a"

fun show_length :: "length_field \<Rightarrow> u8 list" where
  "show_length NoLength = []"
| "show_length Char_hh = cstr ''hh''"
| "show_length Short_h = cstr ''h''"
| "show_length Long_l = cstr ''l''"
| "show_length LongLong_ll = cstr ''ll''"
| "show_length Ptrdiff_t = cstr ''t''"
| "show_length Intmax_j = cstr ''j''"
| "show_length Size_z = cstr ''z''"

definition show_directive :: "directive \<Rightarrow> u8 list" where
  "show_directive d =
     map show_flag (dflags d) @ show_amount (dwidth d) @ show_precision (dprecision d) @ show_length (dlength d)"

text \<open>The arguments that the stars take.\<close>

fun star_args :: "amount \<Rightarrow> va_arg list" where
  "star_args (Star w) = [VWord w]"
| "star_args a = []"

definition directive_args :: "directive \<Rightarrow> va_arg list" where
  "directive_args d = star_args (dwidth d) @ (case dprecision d of None \<Rightarrow> [] | Some a \<Rightarrow> star_args a)"

text \<open>A width that is written as a number has no leading zero, which would be a flag.\<close>

definition wf_directive :: "directive \<Rightarrow> bool" where
  "wf_directive d \<longleftrightarrow> dwidth d \<noteq> Number 0"

section \<open>Meaning\<close>

fun flag_bit :: "flag \<Rightarrow> u32" where
  "flag_bit ZeroPad = FLAGS_ZEROPAD"
| "flag_bit LeftAlign = FLAGS_LEFT"
| "flag_bit PlusSign = FLAGS_PLUS"
| "flag_bit SpaceSign = FLAGS_SPACE"
| "flag_bit HashSign = FLAGS_HASH"

definition flag_word :: "flag list \<Rightarrow> u32" where
  "flag_word fs = fold (\<lambda>f w. w OR flag_bit f) fs 0"

text \<open>A negative width argument means left alignment; a negative precision argument means zero.\<close>

fun width_of :: "amount \<Rightarrow> u32" where
  "width_of Absent = 0"
| "width_of (Number n) = of_nat n"
| "width_of (Star w) = (if sint w < 0 then - w else w)"

fun width_flags :: "amount \<Rightarrow> u32" where
  "width_flags (Star w) = (if sint w < 0 then FLAGS_LEFT else 0)"
| "width_flags a = 0"

fun precision_of :: "amount option \<Rightarrow> u32" where
  "precision_of (Some (Number n)) = of_nat n"
| "precision_of (Some (Star w)) = (if sint w > 0 then w else 0)"
| "precision_of a = 0"

fun length_flags :: "length_field \<Rightarrow> u32" where
  "length_flags NoLength = 0"
| "length_flags Char_hh = FLAGS_SHORT OR FLAGS_CHAR"
| "length_flags Short_h = FLAGS_SHORT"
| "length_flags LongLong_ll = FLAGS_LONG OR FLAGS_LONG_LONG"
| "length_flags Intmax_j = FLAGS_LONG_LONG"
| "length_flags _ = FLAGS_LONG"

definition directive_flags :: "directive \<Rightarrow> u32" where
  "directive_flags d = flag_word (dflags d) OR width_flags (dwidth d) OR
     (if dprecision d = None then 0 else FLAGS_PRECISION) OR length_flags (dlength d)"

section \<open>The parser reads back what is written\<close>

lemma eval_flags_show:
  assumes "peek rest \<notin> set (cstr ''0-+ #'')"
  shows "eval_flags w (map show_flag fs @ rest) = (fold (\<lambda>f w. w OR flag_bit f) fs w, rest)"
proof (induction fs arbitrary: w)
  case Nil
  then show ?case using assms by (cases rest) (auto simp: peek_def)
next
  case (Cons f fs)
  then show ?case by (cases f) simp_all
qed

lemma decimal_head:
  obtains c cs where "decimal n = c # cs" "is_digit c" "n \<noteq> 0 \<Longrightarrow> c \<noteq> ch CHR ''0''"
proof -
  let ?d = "last (nat_digits 10 n)"
  obtain ds where ds: "rev (nat_digits 10 n) = ?d # ds"
    by (metis hd_rev list.collapse nat_digits_not_Nil rev_is_Nil_conv)
  have d: "?d < 10" using nat_digits_less [of 10 ?d n] by simp
  have "ch CHR ''0'' + of_nat ?d \<noteq> ch CHR ''0''" if "n \<noteq> 0"
  proof -
    have "unat (of_nat ?d :: u8) = ?d" using d by (simp add: unat_of_nat)
    then show ?thesis using nat_digits_last [of 10 n] that by auto
  qed
  moreover have "decimal n = (ch CHR ''0'' + of_nat ?d) # map (\<lambda>d. ch CHR ''0'' + of_nat d) ds"
    unfolding decimal_def rev_map ds by (simp only: list.map)
  ultimately show thesis using that digit_of_nat(1) [OF d] by blast
qed

lemma peek_append: "peek (xs @ ys) = (if xs = [] then peek ys else hd xs)"
  by (cases xs) (simp_all add: peek_def)

lemma peek_Cons [simp]: "peek (c # cs) = c"
  by (simp add: peek_def)

lemma advance_Cons [simp]: "advance (c # cs) = Some cs"
  by (simp add: advance_def)

lemma atoi_show: "\<not> is_digit (peek rest) \<Longrightarrow> atoi (decimal n @ rest) = (of_nat n, rest)"
  by (rule atoi_reads_decimal) (cases rest; simp)

lemma is_digit_decimal: "is_digit (peek (decimal n @ rest))"
  by (rule decimal_head [of n]) simp

lemma eval_width_show:
  assumes "\<not> is_digit (peek rest)" "peek rest \<noteq> ch CHR ''*''"
  shows "eval_width w (show_amount a @ rest) (star_args a @ va) =
    Some (w OR width_flags a, width_of a, rest, va)"
proof (cases a)
  case (Number n)
  then show ?thesis
    using assms(1) by (simp add: eval_width_def is_digit_decimal atoi_show)
next
  case (Star v)
  have "\<not> is_digit (ch CHR ''*'')" by (simp add: is_digit_def)
  with Star show ?thesis by (simp add: eval_width_def)
qed (use assms in \<open>simp add: eval_width_def\<close>)

lemma eval_precision_show:
  assumes "\<not> is_digit (peek rest)" "peek rest \<noteq> ch CHR ''*''" "peek rest \<noteq> ch CHR ''.''"
  shows "eval_precision w (show_precision a @ rest) ((case a of None \<Rightarrow> [] | Some b \<Rightarrow> star_args b) @ va) =
    Some (w OR (if a = None then 0 else FLAGS_PRECISION), precision_of a, rest, va)"
proof (cases a)
  case None
  then show ?thesis using assms(3) by (simp add: eval_precision_def)
next
  case (Some b)
  show ?thesis
  proof (cases b)
    case (Number n)
    then show ?thesis
      using Some assms(1) by (simp add: eval_precision_def is_digit_decimal atoi_show)
  next
    case (Star v)
    have "\<not> is_digit (ch CHR ''*'')" by (simp add: is_digit_def)
    with Some Star show ?thesis by (simp add: eval_precision_def)
  qed (use Some assms in \<open>simp add: eval_precision_def\<close>)
qed

lemma eval_length_show:
  assumes "peek rest \<notin> set (cstr ''lhtjz'')"
  shows "eval_length w (show_length l @ rest) = Some (w OR length_flags l, rest)"
  using assms by (cases l) (simp_all add: eval_length_def or.assoc)

text \<open>The characters of the fields; none of them is a specifier.\<close>

definition field_chars :: "u8 list" where
  "field_chars = cstr ''0123456789-+ #*.lhtjz''"

lemma peek_length: "peek (show_length l @ c # fmt) \<in> insert c (set (cstr ''lhtjz''))"
  by (cases l) auto

lemma peek_precision: "peek (show_precision a @ show_length l @ c # fmt) \<in> insert c (set (cstr ''.lhtjz''))"
  using peek_length [of l c fmt] by (cases a) auto

lemma is_digit_chars:
  assumes "is_digit c"
  shows "c \<in> set (cstr ''0123456789'')"
proof -
  have "48 \<le> unat c" "unat c < 58" using assms by (simp_all add: is_digit_iff)
  then have "unat c \<in> set [48..<58]" by (simp only: set_upt atLeastLessThan_iff simp_thms)
  then have "of_nat (unat c) \<in> set (map of_nat [48..<58] :: u8 list)" by (simp only: set_map) (rule imageI)
  moreover have "(map of_nat [48..<58] :: u8 list) = cstr ''0123456789''" by (simp add: upt_rec)
  ultimately show ?thesis by (simp only: of_nat_unat ucast_id)
qed

lemma not_field:
  assumes "c \<notin> set field_chars"
  shows "\<not> is_digit c" "c \<notin> set (cstr ''*.lhtjz'')" "c \<notin> set (cstr ''0-+ #'')"
  using assms is_digit_chars [of c] by (auto simp: field_chars_def)

lemma after_width:
  assumes "c \<notin> set field_chars" "x = c \<or> x \<in> set (cstr ''.lhtjz'')"
  shows "\<not> is_digit x" "x \<noteq> ch CHR ''*''" "x \<notin> set (cstr ''0-+ #'')"
  using assms(2) not_field [OF assms(1)] by (elim disjE; auto simp: is_digit_def)+

lemma after_precision:
  assumes "c \<notin> set field_chars" "x = c \<or> x \<in> set (cstr ''lhtjz'')"
  shows "x \<noteq> ch CHR ''.''"
  using assms(2) not_field [OF assms(1)] by (elim disjE; auto)+

lemma eval_fields_show:
  assumes "wf_directive d" "c \<notin> set field_chars"
  shows "eval_fields (show_directive d @ c # fmt) (directive_args d @ va) =
    Some (directive_flags d, width_of (dwidth d), precision_of (dprecision d), c # fmt, va)"
proof -
  note c = not_field [OF assms(2)]
  define r3 where "r3 = show_length (dlength d) @ c # fmt"
  define r2 where "r2 = show_precision (dprecision d) @ r3"
  define r1 where "r1 = show_amount (dwidth d) @ r2"
  have p3: "peek r3 = c \<or> peek r3 \<in> set (cstr ''lhtjz'')"
    using peek_length [of "dlength d" c fmt] by (simp add: r3_def)
  have p2: "peek r2 = c \<or> peek r2 \<in> set (cstr ''.lhtjz'')"
    using peek_precision [of "dprecision d" "dlength d" c fmt] by (simp add: r2_def r3_def)
  have e1: "eval_flags 0 (map show_flag (dflags d) @ r1) = (flag_word (dflags d), r1)"
  proof -
    have "peek r1 \<notin> set (cstr ''0-+ #'')"
    proof (cases "dwidth d")
      case (Number n)
      obtain c' cs where n: "decimal n = c' # cs" "is_digit c'" "n \<noteq> 0 \<Longrightarrow> c' \<noteq> ch CHR ''0''"
        by (rule decimal_head [of n]) blast
      moreover have "n \<noteq> 0" using assms(1) Number by (auto simp: wf_directive_def)
      ultimately show ?thesis using Number by (auto simp: r1_def is_digit_def)
    qed (use after_width(3) [OF assms(2) p2] in \<open>simp_all add: r1_def\<close>)
    from eval_flags_show [OF this] show ?thesis by (simp only: flag_word_def)
  qed
  have e2: "eval_width w r1 (directive_args d @ va) = Some (w OR width_flags (dwidth d), width_of (dwidth d), r2,
      (case dprecision d of None \<Rightarrow> [] | Some b \<Rightarrow> star_args b) @ va)" for w
  proof -
    have "\<not> is_digit (peek r2)" "peek r2 \<noteq> ch CHR ''*''" by (rule after_width [OF assms(2) p2])+
    then show ?thesis unfolding r1_def directive_args_def append_assoc by (rule eval_width_show)
  qed
  have e3: "eval_precision w r2 ((case dprecision d of None \<Rightarrow> [] | Some b \<Rightarrow> star_args b) @ va) =
      Some (w OR (if dprecision d = None then 0 else FLAGS_PRECISION), precision_of (dprecision d), r3, va)" for w
  proof -
    have "\<not> is_digit (peek r3)" "peek r3 \<noteq> ch CHR ''*''" "peek r3 \<noteq> ch CHR ''.''"
      using after_width [OF assms(2), of "peek r3"] after_precision [OF assms(2) p3] p3 by auto
    then show ?thesis unfolding r2_def by (rule eval_precision_show)
  qed
  have e4: "eval_length w r3 = Some (w OR length_flags (dlength d), c # fmt)" for w
    unfolding r3_def by (rule eval_length_show) (use c in auto)
  have "show_directive d @ c # fmt = map show_flag (dflags d) @ r1"
    by (simp add: show_directive_def r1_def r2_def r3_def)
  then show ?thesis
    by (simp only: eval_fields_def Let_def e1 prod.case e2 Option.bind.simps e3 e4 directive_flags_def or.assoc)
qed


text \<open>
  C13: the parser of \<open>_vsnprintf\<close> reads back every directive that is written out in characters: any
  sequence of flags, a width and a precision as numbers, stars or left out, and any length field.
  It returns the flags, the width and the precision that the directive denotes, takes exactly the
  arguments of the stars, and stops at the specifier.
\<close>

theorem directive_roundtrip:
  assumes "wf_directive d" "c \<notin> set field_chars"
  shows "eval_fields (show_directive d @ c # fmt) (directive_args d @ va) =
    Some (directive_flags d, width_of (dwidth d), precision_of (dprecision d), c # fmt, va)"
  by (rule eval_fields_show [OF assms])

theorem directive_roundtrip_witness:
  "eval_fields (cstr ''-+*.7lld'') [VWord (- 12), VLongLong 5] =
     Some (FLAGS_LEFT OR FLAGS_PLUS OR FLAGS_LEFT OR FLAGS_PRECISION OR FLAGS_LONG OR FLAGS_LONG_LONG,
       12, 7, cstr ''d'', [VLongLong 5])"
  using directive_roundtrip [of "\<lparr> dflags = [LeftAlign, PlusSign], dwidth = Star (- 12),
      dprecision = Some (Number 7), dlength = LongLong_ll \<rparr>" "ch CHR ''d''" "[]" "[VLongLong 5]"]
  by (simp add: wf_directive_def field_chars_def show_directive_def directive_args_def directive_flags_def
      flag_word_def decimal_def nat_digits.simps or.assoc)

section \<open>Formats\<close>

text \<open>A format is a sequence of texts and directives; a directive comes with the arguments it takes.\<close>

datatype piece = Text "u8 list" | Conv directive u8 "va_arg list"

fun show_piece :: "piece \<Rightarrow> u8 list" where
  "show_piece (Text cs) = cs"
| "show_piece (Conv d c args) = ch CHR ''%'' # show_directive d @ [c]"

fun piece_args :: "piece \<Rightarrow> va_arg list" where
  "piece_args (Text cs) = []"
| "piece_args (Conv d c args) = directive_args d @ args"

fun wf_piece :: "piece \<Rightarrow> bool" where
  "wf_piece (Text cs) \<longleftrightarrow> literal cs"
| "wf_piece (Conv d c args) \<longleftrightarrow> wf_directive d \<and> c \<notin> set field_chars"

text \<open>What a piece prints; a directive must take all of its arguments.\<close>

fun piece_text :: "piece \<Rightarrow> u8 list option" where
  "piece_text (Text cs) = Some cs"
| "piece_text (Conv d c args) =
     (case convert_text c (directive_flags d) (width_of (dwidth d)) (precision_of (dprecision d)) args of
        Some (cs, []) \<Rightarrow> Some cs
      | _ \<Rightarrow> None)"

lemma va_append:
  "va_word args = Some (w, rest) \<Longrightarrow> va_word (args @ va) = Some (w, rest @ va)"
  "va_long_long args = Some (l, rest) \<Longrightarrow> va_long_long (args @ va) = Some (l, rest @ va)"
  "va_double args = Some (x, rest) \<Longrightarrow> va_double (args @ va) = Some (x, rest @ va)"
  "va_str args = Some (p, rest) \<Longrightarrow> va_str (args @ va) = Some (p, rest @ va)"
  by (auto elim!: va_word.elims va_long_long.elims va_double.elims va_str.elims)

text \<open>More arguments behind those that a conversion takes do not change it.\<close>

definition takes_args :: "text_conversion \<Rightarrow> bool" where
  "takes_args f \<longleftrightarrow> (\<forall>flags width precision args cs rest va.
     f flags width precision args = Some (cs, rest) \<longrightarrow>
     f flags width precision (args @ va) = Some (cs, rest @ va))"

lemma takes_args_if:
  "takes_args f \<Longrightarrow> takes_args g \<Longrightarrow>
    takes_args (\<lambda>flags width precision va. if b then f flags width precision va else g flags width precision va)"
  by (cases b) simp_all

lemma bind_args_append:
  assumes "(do { (x, va') \<leftarrow> get args; Some (f x, va') }) = Some (cs, rest)"
    and "\<And>x rest. get args = Some (x, rest) \<Longrightarrow> get (args @ va) = Some (x, rest @ va)"
  shows "(do { (x, va') \<leftarrow> get (args @ va); Some (f x, va') }) = Some (cs, rest @ va)"
  using assms by (cases "get args") auto

lemma takes_args_bind:
  assumes "\<And>args x rest va. get args = Some (x, rest) \<Longrightarrow> get (args @ va) = Some (x, rest @ va)"
  shows "takes_args (\<lambda>flags width precision va. do { (x, va) \<leftarrow> get va; cs \<leftarrow> f flags width precision x; Some (cs, va) })"
    and "takes_args (\<lambda>flags width precision va. do { (x, va) \<leftarrow> get va; Some (g flags width precision x, va) })"
  by (auto simp: takes_args_def bind_eq_Some_conv dest: assms)

lemma takes_args_conv:
  "takes_args (conv_int_text c)" "takes_args (conv_fixed_text c)" "takes_args (conv_exp_text c)"
  "takes_args conv_char_text" "takes_args conv_string_text" "takes_args conv_pointer_text"
proof -
  show "takes_args (conv_int_text c)"
    unfolding takes_args_def
  proof (intro allI impI)
    fix flags width precision args cs rest va
    assume conv: "conv_int_text c flags width precision args = Some (cs, rest)"
    show "conv_int_text c flags width precision (args @ va) = Some (cs, rest @ va)"
    proof (cases "has (int_flags c flags) FLAGS_LONG_LONG")
      case True
      from conv show ?thesis
        unfolding conv_int_text_def Let_def if_P [OF True] by (rule bind_args_append) (rule va_append)
    next
      case False
      from conv show ?thesis
        unfolding conv_int_text_def Let_def if_not_P [OF False] by (rule bind_args_append) (rule va_append)
    qed
  qed
  show "takes_args (conv_fixed_text c)" "takes_args (conv_exp_text c)"
    unfolding conv_fixed_text_def [abs_def] conv_exp_text_def [abs_def] Let_def
    by (rule takes_args_bind(1), erule va_append)+
  show "takes_args conv_char_text" "takes_args conv_pointer_text" "takes_args conv_string_text"
    unfolding conv_char_text_def [abs_def] conv_string_text_def [abs_def] conv_pointer_text_def [abs_def]
    by (rule takes_args_bind(2), erule va_append)+
qed

lemma takes_args_convert: "takes_args (convert_text c)"
proof -
  have "takes_args (\<lambda>flags width precision va. Some ([c], va))" by (simp add: takes_args_def)
  then show ?thesis
    unfolding convert_text_def [abs_def] by (intro takes_args_if) (assumption | rule takes_args_conv)+
qed

lemma convert_text_append:
  "convert_text c flags width precision args = Some (cs, rest) \<Longrightarrow>
    convert_text c flags width precision (args @ va) = Some (cs, rest @ va)"
  using takes_args_convert [of c] unfolding takes_args_def by blast

lemma format_text_piece:
  assumes "wf_piece p" "piece_text p = Some cs"
  shows "format_text (show_piece p @ fmt) (piece_args p @ va) = map_option ((@) cs) (format_text fmt va)"
proof (cases p)
  case (Text ds)
  then show ?thesis using assms by (simp add: format_text_literal_append)
next
  case (Conv d c args)
  let ?w = "width_of (dwidth d)" and ?p = "precision_of (dprecision d)"
  have "convert_text c (directive_flags d) ?w ?p args = Some (cs, [])"
    using assms(2) Conv by (auto split: option.splits prod.splits list.splits)
  from convert_text_append [OF this] have "convert_text c (directive_flags d) ?w ?p (args @ va) = Some (cs, va)"
    by simp
  moreover have "eval_fields (show_directive d @ c # fmt) (directive_args d @ args @ va) =
      Some (directive_flags d, ?w, ?p, c # fmt, args @ va)"
    using assms(1) Conv by (intro eval_fields_show) simp_all
  ultimately show ?thesis using Conv by simp
qed

text \<open>The text of a format is the concatenation of the texts of its pieces.\<close>

fun pieces_text :: "piece list \<Rightarrow> u8 list option" where
  "pieces_text [] = Some []"
| "pieces_text (p # ps) = do { cs \<leftarrow> piece_text p; ds \<leftarrow> pieces_text ps; Some (cs @ ds) }"

definition show_pieces :: "piece list \<Rightarrow> u8 list" where
  "show_pieces ps = concat (map show_piece ps)"

definition pieces_args :: "piece list \<Rightarrow> va_arg list" where
  "pieces_args ps = concat (map piece_args ps)"

lemma format_text_pieces:
  assumes "list_all wf_piece ps" "pieces_text ps = Some cs"
  shows "format_text (show_pieces ps) (pieces_args ps) = Some cs"
  using assms
proof (induction ps arbitrary: cs)
  case Nil
  then show ?case by (simp add: show_pieces_def pieces_args_def)
next
  case (Cons p ps)
  then obtain as bs where "piece_text p = Some as" "pieces_text ps = Some bs" "cs = as @ bs"
    by (auto simp: bind_eq_Some_conv)
  with Cons format_text_piece [of p as "show_pieces ps" "pieces_args ps"] show ?case
    by (simp add: show_pieces_def pieces_args_def)
qed

text \<open>
  C14: formats compose. \<open>printf\<close> of a format that consists of texts and directives with any
  fields prints the texts and what the directives print, in their order, for the arguments in their
  order, and returns the number of the characters.
\<close>

theorem printf_pieces:
  assumes "list_all wf_piece ps" "pieces_text ps = Some cs"
  shows "printf (show_pieces ps) (pieces_args ps) s =
    Some (fold tty_putc (filter (\<lambda>c. c \<noteq> 0) cs) s, of_nat (length cs))"
  by (simp add: printf_sends format_text_pieces [OF assms])


theorem printf_pieces_witness:
  "\<forall>s :: tty. printf (cstr ''%-4c|%*d'') [VWord 0x41, VWord 3, VWord 7] s =
     Some (fold tty_putc (cstr ''A   |  7'') s, 8)"
proof -
  let ?ps = "[Conv \<lparr> dflags = [LeftAlign], dwidth = Number 4, dprecision = None, dlength = NoLength \<rparr>
      (ch CHR ''c'') [VWord 0x41], Text (cstr ''|''),
    Conv \<lparr> dflags = [], dwidth = Star 3, dprecision = None, dlength = NoLength \<rparr> (ch CHR ''d'') [VWord 7]]"
  have sh: "show_pieces ?ps = cstr ''%-4c|%*d''" "pieces_args ?ps = [VWord 0x41, VWord 3, VWord 7]"
    by (simp_all add: show_pieces_def pieces_args_def show_directive_def directive_args_def decimal_def nat_digits.simps)
  have "list_all wf_piece ?ps" by (simp add: wf_directive_def field_chars_def)
  moreover have "pieces_text ?ps = Some (cstr ''A   |  7'')" by code_simp
  ultimately show ?thesis unfolding sh [symmetric] by (simp only: printf_pieces) simp
qed

section \<open>Decimal directives\<close>

text \<open>The directives for a decimal \<open>int\<close>: any flags but \<open>0\<close>, any width.\<close>

definition decimal_directive :: "directive \<Rightarrow> bool" where
  "decimal_directive d \<longleftrightarrow> wf_directive d \<and> ZeroPad \<notin> set (dflags d) \<and> dprecision d = None \<and> dlength d = NoLength"

lemma has_flag_word: "has (flag_word fs) F \<longleftrightarrow> (\<exists>f\<in>set fs. has (flag_bit f) F)"
proof -
  have "has (fold (\<lambda>f w. w OR flag_bit f) fs w) F \<longleftrightarrow> has w F \<or> (\<exists>f\<in>set fs. has (flag_bit f) F)" for w
  proof (induction fs arbitrary: w)
    case (Cons f fs)
    have "has (w OR flag_bit f) F \<longleftrightarrow> has w F \<or> has (flag_bit f) F"
      by (simp add: has_def bit.conj_disj_distrib2 or_eq_0_iff)
    with Cons show ?case by auto
  qed simp
  then show ?thesis by (simp add: flag_word_def has_def)
qed

lemma has_or_left: "has (v OR w) F \<longleftrightarrow> has v F \<or> has w F"
  by (simp add: has_def bit.conj_disj_distrib2 or_eq_0_iff)

text \<open>The flags of a directive, one by one.\<close>

fun negative_star :: "amount \<Rightarrow> bool" where
  "negative_star (Star w) \<longleftrightarrow> sint w < 0"
| "negative_star a \<longleftrightarrow> False"

lemma directive_flags_has:
  "has (directive_flags d) F \<longleftrightarrow> (\<exists>f\<in>set (dflags d). has (flag_bit f) F) \<or> has (width_flags (dwidth d)) F \<or>
     dprecision d \<noteq> None \<and> has FLAGS_PRECISION F \<or> has (length_flags (dlength d)) F"
  by (simp add: directive_flags_def has_or_left has_flag_word) (simp add: has_def)

lemma has_flag_bit:
  "has (flag_bit f) FLAGS_ZEROPAD \<longleftrightarrow> f = ZeroPad" "has (flag_bit f) FLAGS_LEFT \<longleftrightarrow> f = LeftAlign"
  "has (flag_bit f) FLAGS_PLUS \<longleftrightarrow> f = PlusSign" "has (flag_bit f) FLAGS_SPACE \<longleftrightarrow> f = SpaceSign"
  "has (flag_bit f) FLAGS_HASH \<longleftrightarrow> f = HashSign"
  "no_flag (flag_bit f) [FLAGS_UPPERCASE, FLAGS_CHAR, FLAGS_SHORT, FLAGS_LONG, FLAGS_LONG_LONG, FLAGS_PRECISION]"
  by (cases f; simp add: has_def flag_defs no_flag_def)+

lemma has_width_flags:
  "has (width_flags a) FLAGS_LEFT \<longleftrightarrow> negative_star a"
  "no_flag (width_flags a) [FLAGS_ZEROPAD, FLAGS_PLUS, FLAGS_SPACE, FLAGS_HASH, FLAGS_UPPERCASE, FLAGS_CHAR,
     FLAGS_SHORT, FLAGS_LONG, FLAGS_LONG_LONG, FLAGS_PRECISION]"
  by (cases a; simp add: has_def flag_defs no_flag_def)+

lemma has_length_flags:
  "has (length_flags l) FLAGS_CHAR \<longleftrightarrow> l = Char_hh" "has (length_flags l) FLAGS_SHORT \<longleftrightarrow> l = Char_hh \<or> l = Short_h"
  "has (length_flags l) FLAGS_LONG \<longleftrightarrow> l \<in> {Long_l, LongLong_ll, Ptrdiff_t, Size_z}"
  "has (length_flags l) FLAGS_LONG_LONG \<longleftrightarrow> l = LongLong_ll \<or> l = Intmax_j"
  "no_flag (length_flags l) [FLAGS_ZEROPAD, FLAGS_LEFT, FLAGS_PLUS, FLAGS_SPACE, FLAGS_HASH, FLAGS_UPPERCASE, FLAGS_PRECISION]"
  by (cases l; simp add: has_def flag_defs no_flag_def)+

lemma has_precision_flag:
  "has FLAGS_PRECISION FLAGS_PRECISION"
  "no_flag FLAGS_PRECISION [FLAGS_ZEROPAD, FLAGS_LEFT, FLAGS_PLUS, FLAGS_SPACE, FLAGS_HASH, FLAGS_UPPERCASE, FLAGS_CHAR,
     FLAGS_SHORT, FLAGS_LONG, FLAGS_LONG_LONG]"
  by (simp_all add: has_def flag_defs no_flag_def)

lemma has_directive_flags:
  "has (directive_flags d) FLAGS_ZEROPAD \<longleftrightarrow> ZeroPad \<in> set (dflags d)"
  "has (directive_flags d) FLAGS_LEFT \<longleftrightarrow> LeftAlign \<in> set (dflags d) \<or> negative_star (dwidth d)"
  "has (directive_flags d) FLAGS_PLUS \<longleftrightarrow> PlusSign \<in> set (dflags d)"
  "has (directive_flags d) FLAGS_SPACE \<longleftrightarrow> SpaceSign \<in> set (dflags d)"
  "has (directive_flags d) FLAGS_HASH \<longleftrightarrow> HashSign \<in> set (dflags d)"
  "\<not> has (directive_flags d) FLAGS_UPPERCASE"
  "has (directive_flags d) FLAGS_CHAR \<longleftrightarrow> dlength d = Char_hh"
  "has (directive_flags d) FLAGS_SHORT \<longleftrightarrow> dlength d = Char_hh \<or> dlength d = Short_h"
  "has (directive_flags d) FLAGS_LONG \<longleftrightarrow> dlength d \<in> {Long_l, LongLong_ll, Ptrdiff_t, Size_z}"
  "has (directive_flags d) FLAGS_LONG_LONG \<longleftrightarrow> dlength d = LongLong_ll \<or> dlength d = Intmax_j"
  "has (directive_flags d) FLAGS_PRECISION \<longleftrightarrow> dprecision d \<noteq> None"
  using has_flag_bit(6) has_width_flags(2) has_length_flags(5) has_precision_flag(2)
  by (auto simp: directive_flags_has has_flag_bit(1-5) has_width_flags(1) has_length_flags(1-4) has_precision_flag(1) no_flag_def)

text \<open>The width and the precision as numbers.\<close>

fun width_value :: "amount \<Rightarrow> nat" where
  "width_value Absent = 0"
| "width_value (Number n) = n"
| "width_value (Star w) = nat \<bar>sint w\<bar>"

text \<open>A precision that is a lone point is zero; a negative argument counts as none.\<close>

fun precision_value :: "amount option \<Rightarrow> nat option" where
  "precision_value None = None"
| "precision_value (Some Absent) = Some 0"
| "precision_value (Some (Number n)) = Some n"
| "precision_value (Some (Star w)) = (if sint w < 0 then None else Some (nat (sint w)))"

lemma width_of_value:
  assumes "width_value a < 2 ^ 32"
  shows "unat (width_of a) = width_value a"
proof (cases a)
  case (Star w)
  have "width_of a = magnitude w"
  proof (cases "sint w = 0")
    case True
    then have "w = 0" by (simp add: signed_eq_0_iff)
    then show ?thesis using Star by (simp add: magnitude_def)
  qed (use Star in \<open>auto simp: magnitude_def\<close>)
  then show ?thesis using Star by (simp add: unat_magnitude)
qed (use assms in \<open>simp_all add: unat_of_nat\<close>)

lemma precision_of_value:
  assumes "precision_value a = Some p" "p < 2 ^ 32"
  shows "unat (precision_of a) = p"
proof -
  have "unat w = nat (sint w)" if "0 < sint w" for w :: u32
    using unat_magnitude [of w] that by (simp add: magnitude_def)
  then show ?thesis using assms by (auto elim!: precision_value.elims simp: unat_of_nat split: if_splits)
qed

lemma precision_value_Some:
  assumes "\<not> negative_star a"
  obtains p where "precision_value (Some a) = Some p"
  using assms by (cases a) auto

lemma decimal_directive_flags:
  assumes "decimal_directive d"
  shows "no_flag (directive_flags d)
    [FLAGS_ZEROPAD, FLAGS_PRECISION, FLAGS_LONG, FLAGS_LONG_LONG, FLAGS_SHORT, FLAGS_CHAR]"
  using assms by (simp add: no_flag_def has_directive_flags decimal_directive_def)

lemma has_not_hash:
  "has (w AND NOT FLAGS_HASH) FLAGS_LEFT = has w FLAGS_LEFT" "has (w AND NOT FLAGS_HASH) FLAGS_PLUS = has w FLAGS_PLUS"
  "has (w AND NOT FLAGS_HASH) FLAGS_SPACE = has w FLAGS_SPACE" "\<not> has (w AND NOT FLAGS_HASH) FLAGS_HASH"
  unfolding has_iff_bit unfolding FLAGS_HASH_def
  by (simp_all only: bit_and_iff bit_not_iff bit_push_bit_iff) simp_all

lemma has_and: "has (v AND w) F \<Longrightarrow> has v F"
proof -
  have "(v AND w) AND F = w AND (v AND F)" by (simp only: and.commute and.left_commute)
  then show "has (v AND w) F \<Longrightarrow> has v F" by (auto simp: has_def)
qed

lemma decimal_piece:
  assumes "decimal_directive d" "c = ch CHR ''d'' \<or> c = ch CHR ''i''"
  shows "piece_text (Conv d c [VWord w]) =
    Some (decimal_field (sint w < 0) (width_of (dwidth d)) (directive_flags d) (nat \<bar>sint w\<bar>))"
proof -
  let ?f = "directive_flags d AND NOT FLAGS_HASH"
  note f = decimal_directive_flags [OF assms(1)]
  have nf: "no_flag ?f [FLAGS_ZEROPAD, FLAGS_HASH, FLAGS_PRECISION]"
    "\<not> has ?f FLAGS_LONG_LONG" "\<not> has ?f FLAGS_LONG" "\<not> has ?f FLAGS_SHORT" "\<not> has ?f FLAGS_CHAR"
    using f has_not_hash(4) by (auto simp: no_flag_def dest: has_and)
  have flags: "int_flags c (directive_flags d) = ?f" "int_base c = 10" "is_signed c"
    using assms(2) nf(1) by (auto simp: int_flags_def int_base_def is_signed_def no_flag_def Let_def)
  have "ntoa_text (magnitude w) 10 (sint w < 0) 0 (width_of (dwidth d)) ?f =
      decimal_field (sint w < 0) (width_of (dwidth d)) (directive_flags d) (nat \<bar>sint w\<bar>)"
    by (subst ntoa_text_decimal [OF unat_ten(1) length_u(1) nf(1)])
      (simp add: decimal_field_def unat_magnitude sign_text_def has_not_hash)
  then have "conv_int_text c (directive_flags d) (width_of (dwidth d)) 0 [VWord w] =
      Some (decimal_field (sint w < 0) (width_of (dwidth d)) (directive_flags d) (nat \<bar>sint w\<bar>), [])"
    using nf(2-5) by (simp add: conv_int_text_def Let_def flags signed_text_def int_arg_def)
  moreover have "precision_of (dprecision d) = 0" using assms(1) by (simp add: decimal_directive_def)
  moreover have "c \<in> set (cstr ''diuxXob'')" using assms(2) by auto
  ultimately show ?thesis by (simp only: piece_text.simps convert_text_def if_True) simp
qed


lemma decimal_field_no_zero: "filter (\<lambda>c. c \<noteq> 0) (decimal_field negative width flags n) = decimal_field negative width flags n"
proof -
  have "filter (\<lambda>c. c \<noteq> 0) (decimal n) = decimal n"
    using decimal_no_zero [of "int n"] by (simp add: int_decimal_def)
  then show ?thesis by (simp add: decimal_field_def Let_def sign_text_def pad_text_def)
qed

text \<open>
  \<open>printf\<close> with \<open>%d\<close> or \<open>%i\<close>, with any flags but \<open>0\<close> and any width, between two literal texts
  prints the decimal notation of the \<open>int\<close> in between, the least one included, with the sign and on
  the side of the field that the flags ask for.
\<close>

lemma printf_decimal_field:
  assumes "decimal_directive d" "literal cs" "literal ds" "c = ch CHR ''d'' \<or> c = ch CHR ''i''"
  shows "printf (cs @ ch CHR ''%'' # show_directive d @ c # ds) (directive_args d @ [VWord w]) s =
    (let text = cs @ decimal_field (sint w < 0) (width_of (dwidth d)) (directive_flags d) (nat \<bar>sint w\<bar>) @ ds
     in Some (fold tty_putc text s, of_nat (length text)))"
proof -
  let ?ps = "[Text cs, Conv d c [VWord w], Text ds]"
  have "show_pieces ?ps = cs @ ch CHR ''%'' # show_directive d @ c # ds" "pieces_args ?ps = directive_args d @ [VWord w]"
    by (simp_all add: show_pieces_def pieces_args_def)
  moreover have "list_all wf_piece ?ps"
    using assms by (auto simp: decimal_directive_def field_chars_def)
  moreover have "pieces_text ?ps =
      Some (cs @ decimal_field (sint w < 0) (width_of (dwidth d)) (directive_flags d) (nat \<bar>sint w\<bar>) @ ds)"
    using decimal_piece [OF assms(1,4)] by (simp del: piece_text.simps(2))
  ultimately show ?thesis
    using format_text_pieces [of ?ps] by (simp add: printf_sends decimal_field_no_zero literal_no_zero assms(2,3) Let_def)
qed

end
