(* ===== verification/Dbl_Real.thy ===== *)
theory Dbl_Real
  imports Dbl Complex_Main
begin

text \<open>
  The floating-point operations of \<open>Dbl\<close> as approximations of the operations on the reals: the
  value of a finite number, the error of a rounding, and the rules that add up the errors of a
  computation.
\<close>

section \<open>Values\<close>

fun rv :: "dbl \<Rightarrow> real" where
  "rv (Fin m e) = of_int m * 2 powi e"
| "rv _ = 0"

lemma two_powi_pos [simp]: "(0::real) < 2 powi e"
  by simp

lemma two_powi_add: "(2::real) powi (a + b) = 2 powi a * 2 powi b"
  by (simp add: power_int_add)

lemma two_powi_mono: "a \<le> b \<Longrightarrow> (2::real) powi a \<le> 2 powi b"
  by (rule power_int_increasing) simp_all

lemma two_powi_nat: "0 \<le> k \<Longrightarrow> real_of_int (2 ^ nat k) = 2 powi k"
  by (simp add: power_int_def)

lemma rv_scale: "0 \<le> k \<Longrightarrow> of_int (m * 2 ^ nat k) * (2::real) powi e = of_int m * 2 powi (e + k)"
  by (simp only: of_int_mult two_powi_nat two_powi_add mult.commute mult.left_commute)

lemma rv_align:
  assumes "align m1 e1 m2 e2 = (a, b, e)"
  shows "of_int a * (2::real) powi e = rv (Fin m1 e1)" "of_int b * (2::real) powi e = rv (Fin m2 e2)"
proof -
  show "of_int a * (2::real) powi e = rv (Fin m1 e1)"
    using assms rv_scale [of "e1 - e2" m1 e2] by (auto simp: align_def split: if_splits)
  show "of_int b * (2::real) powi e = rv (Fin m2 e2)"
    using assms rv_scale [of "e2 - e1" m2 e1] by (auto simp: align_def split: if_splits)
qed

lemma d_less_rv: "d_less (Fin m1 e1) (Fin m2 e2) \<longleftrightarrow> rv (Fin m1 e1) < rv (Fin m2 e2)"
proof -
  obtain a b e where al: "align m1 e1 m2 e2 = (a, b, e)" by (metis prod_cases3)
  have "a < b \<longleftrightarrow> of_int a * (2::real) powi e < of_int b * 2 powi e" by simp
  then show ?thesis by (simp only: d_less.simps al Let_def prod.case rv_align [OF al])
qed

section \<open>Rounding\<close>

lemma bit_length_bounds:
  assumes "0 < m"
  shows "2 ^ (bit_length m - 1) \<le> m" "m < 2 ^ bit_length m" "0 < bit_length m"
proof -
  have "2 ^ (bit_length m - 1) \<le> m \<and> m < 2 ^ bit_length m \<and> 0 < bit_length m"
    using assms
  proof (induction m rule: bit_length.induct)
    case (1 m)
    have len: "bit_length m = Suc (bit_length (m div 2))"
      using "1.prems" by (simp add: bit_length.simps [of m])
    show ?case
    proof (cases "m = 1")
      case True
      then show ?thesis by (simp add: bit_length.simps)
    next
      case False
      with "1.prems" have "0 < m div 2" by simp
      with "1.IH" "1.prems" have ih: "2 ^ (bit_length (m div 2) - 1) \<le> m div 2"
        "m div 2 < 2 ^ bit_length (m div 2)" "0 < bit_length (m div 2)" by simp_all
      have "2 * 2 ^ (bit_length (m div 2) - 1) = (2 ^ bit_length (m div 2) :: int)"
        using ih(3) by (cases "bit_length (m div 2)") simp_all
      moreover have "2 * (m div 2) \<le> m" "m < 2 * (m div 2) + 2" by linarith+
      moreover have "2 ^ bit_length m = (2 * 2 ^ bit_length (m div 2) :: int)" by (simp add: len)
      ultimately show ?thesis using ih by (simp only: len diff_Suc_1 zero_less_Suc) (intro conjI TrueI; linarith)
    qed
  qed
  then show "2 ^ (bit_length m - 1) \<le> m" "m < 2 ^ bit_length m" "0 < bit_length m" by simp_all
qed

lemma round_even_err: "2 * \<bar>round_even m s * 2 ^ s - m\<bar> \<le> 2 ^ s"
proof -
  let ?q = "m div 2 ^ s" and ?r = "m mod 2 ^ s"
  have m: "m = ?q * 2 ^ s + ?r" by (rule div_mult_mod_eq [symmetric])
  have r: "0 \<le> ?r" "?r < 2 ^ s" by simp_all
  have up: "2 * \<bar>a - m'\<bar> \<le> p" if "a = q + p" "m' = q + r" "p \<le> 2 * r" "r < p"
    for a m' p q r :: int using that by (simp add: abs_if)
  have down: "2 * \<bar>a - m'\<bar> \<le> p" if "a = q" "m' = q + r" "2 * r \<le> p" "0 \<le> r"
    for a m' p q r :: int using that by (simp add: abs_if)
  have "round_even m s = ?q + 1 \<and> 2 ^ s \<le> 2 * ?r \<or> round_even m s = ?q \<and> 2 * ?r \<le> 2 ^ s"
    by (auto simp: round_even_def Let_def)
  then show ?thesis
  proof
    assume *: "round_even m s = ?q + 1 \<and> 2 ^ s \<le> 2 * ?r"
    show ?thesis by (rule up [OF _ m]) (use * r in \<open>simp_all add: distrib_right\<close>)
  next
    assume *: "round_even m s = ?q \<and> 2 * ?r \<le> 2 ^ s"
    show ?thesis by (rule down [OF _ m]) (use * r in simp_all)
  qed
qed

lemma rv_ge_first_bit:
  assumes "m \<noteq> 0"
  shows "2 powi (int (bit_length \<bar>m\<bar>) - 1 + e) \<le> \<bar>rv (Fin m e)\<bar>"
proof -
  note b = bit_length_bounds [of "\<bar>m\<bar>"]
  have "real_of_int (2 ^ (bit_length \<bar>m\<bar> - 1)) \<le> real_of_int \<bar>m\<bar>"
    using assms b(1) by (simp only: of_int_le_iff)
  then have "2 powi (int (bit_length \<bar>m\<bar>) - 1) \<le> \<bar>real_of_int m\<bar>"
    using assms b(3) by (simp add: power_int_def nat_diff_distrib)
  then have "2 powi (int (bit_length \<bar>m\<bar>) - 1) * 2 powi e \<le> \<bar>real_of_int m\<bar> * 2 powi e"
    by (intro mult_right_mono) simp_all
  then show ?thesis by (simp add: power_int_add abs_mult)
qed

text \<open>One rounding step: half a unit of the new last place.\<close>

lemma round_unit:
  assumes "e < e1"
  shows "\<bar>rv (Fin (round_even m (nat (e1 - e))) e1) - rv (Fin m e)\<bar> \<le> 2 powi (e1 - 1)"
proof -
  let ?s = "nat (e1 - e)"
  let ?d = "real_of_int (round_even m ?s * 2 ^ ?s - m)"
  have "2 * \<bar>?d\<bar> \<le> real_of_int (2 ^ ?s)" using round_even_err [of m ?s] by linarith
  then have "\<bar>?d\<bar> \<le> 2 powi (e1 - e) / 2" using assms two_powi_nat [of "e1 - e"] by simp
  then have "\<bar>?d\<bar> * 2 powi e \<le> 2 powi (e1 - e) / 2 * 2 powi e" by (intro mult_right_mono) simp_all
  also have "\<dots> = 2 powi (e1 - 1)"
  proof -
    have "(2::real) powi (e1 - e) * 2 powi e = 2 powi (e1 - 1) * 2 powi 1"
      by (simp only: two_powi_add [symmetric]) simp
    then show ?thesis by simp
  qed
  finally have d: "\<bar>?d\<bar> * 2 powi e \<le> 2 powi (e1 - 1)" .
  have "rv (Fin (round_even m ?s) e1) = of_int (round_even m ?s * 2 ^ ?s) * 2 powi e"
    using assms rv_scale [of "e1 - e" "round_even m ?s" e] by auto
  then have "rv (Fin (round_even m ?s) e1) - rv (Fin m e) = ?d * 2 powi e"
    by (simp only: rv.simps of_int_diff left_diff_distrib)
  then have "\<bar>rv (Fin (round_even m ?s) e1) - rv (Fin m e)\<bar> = \<bar>?d\<bar> * 2 powi e"
    by (metis abs_mult abs_of_pos two_powi_pos)
  with d show ?thesis by metis
qed

text \<open>The error of a rounding is half a unit in the last place, of the number or of the format.\<close>

lemma two_powi_less_imp: "(2::real) powi a < 2 powi b \<Longrightarrow> a < b"
  using two_powi_mono [of b a] by (cases "a < b") simp_all

lemma first_bit_le:
  assumes "m \<noteq> 0" "\<bar>rv (Fin m e)\<bar> < 2 powi k"
  shows "int (bit_length \<bar>m\<bar>) + e \<le> k"
  using two_powi_less_imp [OF le_less_trans [OF rv_ge_first_bit [OF assms(1)] assms(2)]] by simp

lemma unit_le_error:
  assumes "m \<noteq> 0"
  shows "2 powi (max emin (e + int (bit_length \<bar>m\<bar>) - p) - 1) \<le> max (\<bar>rv (Fin m e)\<bar> * 2 powi (- p)) (2 powi (emin - 1))"
proof (cases "emin \<le> e + int (bit_length \<bar>m\<bar>) - p")
  case True
  then have eq: "max emin (e + int (bit_length \<bar>m\<bar>) - p) - 1 = (int (bit_length \<bar>m\<bar>) - 1 + e) + (- p)" by simp
  have "(2::real) powi (int (bit_length \<bar>m\<bar>) - 1 + e) * 2 powi (- p) \<le> \<bar>rv (Fin m e)\<bar> * 2 powi (- p)"
    using rv_ge_first_bit [OF assms, of e] by (intro mult_right_mono) simp_all
  then show ?thesis unfolding eq two_powi_add by (rule max.coboundedI1)
qed simp

lemma fp_round_near:
  assumes "0 \<le> p" "emin \<le> emax"
    and "\<bar>rv (Fin m e)\<bar> + max (\<bar>rv (Fin m e)\<bar> * 2 powi (- p)) (2 powi (emin - 1)) < 2 powi (emax + 1)"
  obtains m' e' where "fp_round p emin emax m e = Fin m' e'"
    "\<bar>rv (Fin m' e') - rv (Fin m e)\<bar> \<le> max (\<bar>rv (Fin m e)\<bar> * 2 powi (- p)) (2 powi (emin - 1))"
proof (cases "m = 0")
  case True
  then show thesis using that [of 0 0] by (simp add: fp_round_def)
next
  case False
  define err where "err = max (\<bar>rv (Fin m e)\<bar> * 2 powi (- p)) (2 powi (emin - 1))"
  define e1 where "e1 = max emin (e + int (bit_length \<bar>m\<bar>) - p)"
  define m2 where "m2 = (if e1 \<le> e then m else round_even m (nat (e1 - e)))"
  define e2 where "e2 = (if e1 \<le> e then e else e1)"
  have err: "0 \<le> err" "2 powi (e1 - 1) \<le> err" "\<bar>rv (Fin m e)\<bar> + err < 2 powi (emax + 1)"
    using unit_le_error [OF False] assms(3) by (simp_all only: err_def e1_def) (simp add: le_max_iff_disj)
  have near: "\<bar>rv (Fin m2 e2) - rv (Fin m e)\<bar> \<le> err"
    using err(1) order_trans [OF round_unit [of e e1 m] err(2)] by (auto simp: m2_def e2_def simp del: rv.simps)
  have "int (bit_length \<bar>m\<bar>) + e \<le> emax + 1"
    by (rule first_bit_le [OF False]) (use err in linarith)
  then have e2: "e2 \<le> emax + 1" using assms(1,2) by (auto simp: e2_def e1_def)
  have "int (bit_length \<bar>m2\<bar>) + e2 \<le> emax + 1"
  proof (cases "m2 = 0")
    case True
    then show ?thesis using e2 by (simp add: bit_length.simps [of 0])
  next
    case m2: False
    show ?thesis by (rule first_bit_le [OF m2]) (use near err in linarith)
  qed
  moreover have "(if e1 \<le> e then (m, e) else (round_even m (nat (e1 - e)), e1)) = (m2, e2)"
    by (simp add: m2_def e2_def)
  ultimately have "fp_round p emin emax m e = Fin m2 e2"
    using False by (simp add: fp_round_def Let_def flip: e1_def)
  then show thesis using near by (intro that [of m2 e2]) (simp_all only: err_def)
qed


section \<open>Errors of the operations\<close>

text \<open>\<open>near x r d\<close>: \<open>x\<close> is a finite number within \<open>d\<close> of the real \<open>r\<close>.\<close>

definition near :: "dbl \<Rightarrow> real \<Rightarrow> real \<Rightarrow> bool" where
  "near x r d \<longleftrightarrow> (\<exists>m e. x = Fin m e \<and> \<bar>rv (Fin m e) - r\<bar> \<le> d)"

lemma nearE:
  assumes "near x r d"
  obtains m e where "x = Fin m e" "\<bar>rv (Fin m e) - r\<bar> \<le> d"
  using assms by (auto simp: near_def)

lemma near_mono: "near x r d \<Longrightarrow> r = r' \<Longrightarrow> d \<le> d' \<Longrightarrow> near x r' d'"
  unfolding near_def by force

lemma near_self: "near (Fin m e) (rv (Fin m e)) 0"
  by (simp add: near_def)

text \<open>A rounding within the range of the format.\<close>

lemma fp_round_rel:
  assumes "4 \<le> p" "emin + 3 \<le> emax" "\<bar>rv (Fin m e)\<bar> \<le> 7 / 4 * 2 powi emax"
  shows "near (fp_round p emin emax m e) (rv (Fin m e))
    (max (\<bar>rv (Fin m e)\<bar> * 2 powi (- p)) (2 powi (emin - 1)))"
proof -
  have room: "v + max (v * a) b < t" if "v \<le> 7 / 4 * u" "v * a \<le> v * (1 / 16)" "b \<le> u / 16" "t = u * 2" "0 < u"
    for v a b t u :: real using that by linarith
  have small: "(2::real) powi (- p) \<le> 2 powi (- 4)" "(2::real) powi (emin - 1) \<le> 2 powi (emax + - 4)"
    by (rule two_powi_mono, use assms(1,2) in simp)+
  have four: "(2::real) powi (- 4) = 1 / 16" by (simp add: power_int_def power_divide)
  have "\<bar>rv (Fin m e)\<bar> + max (\<bar>rv (Fin m e)\<bar> * 2 powi (- p)) (2 powi (emin - 1)) < 2 powi (emax + 1)"
  proof (rule room [OF assms(3)])
    show "\<bar>rv (Fin m e)\<bar> * 2 powi (- p) \<le> \<bar>rv (Fin m e)\<bar> * (1 / 16)"
      by (rule mult_left_mono [OF small(1) [unfolded four] abs_ge_zero])
    show "(2::real) powi (emin - 1) \<le> 2 powi emax / 16"
      using small(2) by (simp only: two_powi_add four)
    show "(2::real) powi (emax + 1) = 2 powi emax * 2"
      by (simp only: two_powi_add power_int_1_right)
  qed simp
  moreover have "0 \<le> p" "emin \<le> emax" using assms(1,2) by simp_all
  ultimately show ?thesis unfolding near_def by (metis fp_round_near)
qed

definition eps :: real where "eps = 1 / 10 ^ 9"

lemma round_scale:
  assumes "\<bar>v\<bar> \<le> 8192" "53 \<le> p" "emin \<le> - 100"
  shows "max (\<bar>v\<bar> * 2 powi (- p)) (2 powi (emin - 1)) \<le> (eps :: real)"
proof -
  have "(2::real) powi (- p) \<le> 2 powi (- 53)" "(2::real) powi (emin - 1) \<le> 2 powi (- 53)"
    by (rule two_powi_mono, use assms in simp)+
  moreover have "\<bar>v\<bar> * 2 powi (- p) \<le> 8192 * 2 powi (- 53)"
    by (rule mult_mono) (rule assms(1), rule calculation(1), simp_all)
  moreover have "(2::real) powi (- 53) = 1 / 2 ^ 53" by (simp add: power_int_def power_divide)
  moreover have "8192 * (1 / 2 ^ 53) \<le> eps" "(1 / 2 ^ 53) \<le> eps" by (simp_all add: eps_def)
  ultimately show ?thesis by linarith
qed

lemma near_round:
  assumes "\<bar>rv (Fin m e) - r\<bar> \<le> d" "\<bar>r\<bar> \<le> 4096" "d \<le> 4096"
    and "53 \<le> p" "emin \<le> - 100" "1000 \<le> emax"
  shows "near (fp_round p emin emax m e) r (d + eps)"
proof -
  have v: "\<bar>rv (Fin m e)\<bar> \<le> 8192" using assms(1-3) by linarith
  have "(2::real) powi 13 \<le> 2 powi emax" by (rule two_powi_mono) (use assms in simp)
  with v have "\<bar>rv (Fin m e)\<bar> \<le> 7 / 4 * 2 powi emax" by simp
  then have "near (fp_round p emin emax m e) (rv (Fin m e))
      (max (\<bar>rv (Fin m e)\<bar> * 2 powi (- p)) (2 powi (emin - 1)))"
    using assms by (intro fp_round_rel) simp_all
  with round_scale [OF v assms(4,5)] assms(1) show ?thesis unfolding near_def by fastforce
qed

lemma near_ext_round: "\<bar>rv (Fin m e) - r\<bar> \<le> d \<Longrightarrow> \<bar>r\<bar> \<le> 4096 \<Longrightarrow> d \<le> 4096 \<Longrightarrow> near (ext_round m e) r (d + eps)"
  unfolding ext_round_def by (rule near_round) simp_all

lemma near_to_double:
  assumes "near x r d" "\<bar>r\<bar> \<le> 4096" "d \<le> 4096"
  shows "near (to_double x) r (d + eps)"
  using assms by (auto elim!: nearE intro!: near_round simp del: rv.simps)

lemma near_int: "near (d_int i) (of_int i) 0"
  by (simp add: near_def d_int_def)

lemma near_add:
  assumes "near x a c" "near y b d" "\<bar>a + b\<bar> \<le> 4096" "c + d \<le> 4096"
  shows "near (d_add x y) (a + b) (c + d + eps)"
proof -
  obtain m1 e1 where x: "x = Fin m1 e1" "\<bar>rv (Fin m1 e1) - a\<bar> \<le> c" using assms(1) by (rule nearE)
  obtain m2 e2 where y: "y = Fin m2 e2" "\<bar>rv (Fin m2 e2) - b\<bar> \<le> d" using assms(2) by (rule nearE)
  obtain m n e where al: "align m1 e1 m2 e2 = (m, n, e)" by (metis prod_cases3)
  have "rv (Fin (m + n) e) = rv (Fin m1 e1) + rv (Fin m2 e2)"
    using rv_align [OF al] by (simp only: rv.simps of_int_add distrib_right)
  then have "\<bar>rv (Fin (m + n) e) - (a + b)\<bar> \<le> c + d" using x(2) y(2) by linarith
  then show ?thesis using assms(3,4) near_ext_round by (simp add: x(1) y(1) al)
qed

lemma near_neg: "near x a c \<Longrightarrow> near (d_neg x) (- a) c"
  by (auto simp: near_def abs_minus_commute)

lemma near_sub:
  assumes "near x a c" "near y b d" "\<bar>a - b\<bar> \<le> 4096" "c + d \<le> 4096"
  shows "near (d_sub x y) (a - b) (c + d + eps)"
  using near_add [OF assms(1) near_neg [OF assms(2)]] assms(3,4) by (simp add: d_sub_def)

lemma near_mul:
  assumes "near x a c" "near y b d" "\<bar>a * b\<bar> \<le> 4096" "\<bar>a\<bar> * d + \<bar>b\<bar> * c + c * d \<le> 4096"
  shows "near (d_mul x y) (a * b) (\<bar>a\<bar> * d + \<bar>b\<bar> * c + c * d + eps)"
proof -
  obtain m1 e1 where x: "x = Fin m1 e1" "\<bar>rv (Fin m1 e1) - a\<bar> \<le> c" using assms(1) by (rule nearE)
  obtain m2 e2 where y: "y = Fin m2 e2" "\<bar>rv (Fin m2 e2) - b\<bar> \<le> d" using assms(2) by (rule nearE)
  let ?x = "rv (Fin m1 e1)" and ?y = "rv (Fin m2 e2)"
  have "rv (Fin (m1 * m2) (e1 + e2)) = ?x * ?y" by (simp add: two_powi_add)
  moreover have "?x * ?y - a * b = a * (?y - b) + b * (?x - a) + (?x - a) * (?y - b)"
    by (simp add: algebra_simps)
  moreover have "\<bar>a * (?y - b)\<bar> \<le> \<bar>a\<bar> * d" "\<bar>b * (?x - a)\<bar> \<le> \<bar>b\<bar> * c" "\<bar>(?x - a) * (?y - b)\<bar> \<le> c * d"
    using x(2) y(2) by (auto simp only: abs_mult intro!: mult_mono mult_left_mono)
  ultimately have "\<bar>rv (Fin (m1 * m2) (e1 + e2)) - a * b\<bar> \<le> \<bar>a\<bar> * d + \<bar>b\<bar> * c + c * d" by linarith
  then show ?thesis using assms(3,4) near_ext_round by (simp add: x(1) y(1))
qed


text \<open>The quotient with its sticky bit is within the last place of the exact one.\<close>

lemma sticky_div:
  fixes n d :: int
  assumes "0 < d"
  shows "\<bar>real_of_int (2 * (n div d) + (if n mod d = 0 then 0 else 1)) - 2 * (n / d)\<bar> \<le> 1"
    (is "\<bar>?q - _\<bar> \<le> 1")
proof -
  have "real_of_int n = real_of_int (n div d) * d + real_of_int (n mod d)"
    by (metis div_mult_mod_eq of_int_add of_int_mult)
  then have "n / d = real_of_int (n div d) + real_of_int (n mod d) / d"
    using assms by (simp add: field_simps)
  moreover have "0 \<le> real_of_int (n mod d) / d" "real_of_int (n mod d) / d < 1"
    using assms by simp_all
  ultimately show ?thesis by (cases "n mod d = 0") auto
qed

lemma quotient_err:
  assumes "quotient m1 m2 = (q, k)" "m2 \<noteq> 0"
  shows "\<bar>rv (Fin q k) - m1 / m2\<bar> \<le> \<bar>m1 / m2\<bar> * 2 powi (- 66)"
proof -
  define K where "K = 66 + bit_length \<bar>m2\<bar>"
  define n where "n = \<bar>m1\<bar> * 2 ^ K"
  define q0 where "q0 = 2 * (n div \<bar>m2\<bar>) + (if n mod \<bar>m2\<bar> = 0 then 0 else 1)"
  let ?v = "\<bar>real_of_int m1\<bar> / \<bar>real_of_int m2\<bar>"
  have k: "k = - int K - 1" and q: "q = (if (m1 < 0) = (m2 < 0) then q0 else - q0)"
    using assms(1) unfolding quotient_def Let_def K_def [symmetric] n_def [symmetric] q0_def [symmetric]
    by simp_all
  have v: "real_of_int m1 / m2 = (if (m1 < 0) = (m2 < 0) then ?v else - ?v)"
    using assms(2) by (auto simp: abs_if)
  have pw: "(2::real) powi k = 1 / (2 ^ K * 2)"
    by (simp add: k power_int_def power_divide nat_add_distrib)
  have err: "\<bar>real_of_int q0 * 2 powi k - ?v\<bar> \<le> ?v * 2 powi (- 66)"
  proof (cases "m1 = 0")
    case True
    then show ?thesis by (simp add: q0_def n_def)
  next
    case False
    have "\<bar>real_of_int q0 - 2 * (n / \<bar>m2\<bar>)\<bar> \<le> 1"
      unfolding q0_def by (rule sticky_div) (use assms(2) in simp)
    moreover have "2 * (real_of_int n / \<bar>m2\<bar>) = ?v * (2 ^ K * 2)" by (simp add: n_def)
    ultimately have "\<bar>real_of_int q0 - ?v * (2 ^ K * 2)\<bar> \<le> 1" by (simp only:)
    then have "\<bar>real_of_int q0 - ?v * (2 ^ K * 2)\<bar> * 2 powi k \<le> 1 * 2 powi k"
      by (rule mult_right_mono) simp
    moreover have "\<bar>real_of_int q0 - ?v * (2 ^ K * 2)\<bar> * 2 powi k = \<bar>(real_of_int q0 - ?v * (2 ^ K * 2)) * 2 powi k\<bar>"
      by (simp only: abs_mult abs_of_pos [OF two_powi_pos])
    moreover have "?v * (2 ^ K * 2) * 2 powi k = ?v" by (simp add: pw)
    ultimately have "\<bar>real_of_int q0 * 2 powi k - ?v\<bar> \<le> 2 powi k"
      by (simp only: left_diff_distrib mult_1)
    also have "\<dots> \<le> 1 / 2 ^ bit_length \<bar>m2\<bar> * (1 / 2 ^ 66)"
      by (simp add: pw K_def power_add divide_simps)
    also have "\<dots> \<le> ?v * (1 / 2 ^ 66)"
    proof (rule mult_right_mono)
      have "real_of_int \<bar>m2\<bar> \<le> real_of_int (2 ^ bit_length \<bar>m2\<bar>)"
        using bit_length_bounds(2) [of "\<bar>m2\<bar>"] assms(2) by (simp only: of_int_le_iff) simp
      then have "1 / 2 ^ bit_length \<bar>m2\<bar> \<le> 1 / \<bar>real_of_int m2\<bar>"
        using assms(2) by (intro divide_left_mono) simp_all
      also have "\<dots> \<le> ?v" using False by (intro divide_right_mono) simp_all
      finally show "1 / 2 ^ bit_length \<bar>m2\<bar> \<le> ?v" .
    qed simp
    also have "1 / 2 ^ 66 = (2::real) powi (- 66)" by (simp add: power_int_def power_divide)
    finally show ?thesis .
  qed
  have "\<bar>- x - - y\<bar> = \<bar>x - y\<bar>" for x y :: real by (simp add: abs_minus_commute)
  moreover have "\<bar>?v\<bar> = ?v" "\<bar>- ?v\<bar> = ?v" by simp_all
  ultimately show ?thesis using err
    by (cases "(m1 < 0) = (m2 < 0)") (simp_all only: v q simp_thms rv.simps if_True if_False of_int_minus mult_minus_left)
qed

lemma d_div_round:
  assumes "rv (Fin m2 e2) \<noteq> 0"
  obtains m e where "d_div (Fin m1 e1) (Fin m2 e2) = ext_round m e"
    "\<bar>rv (Fin m e) - rv (Fin m1 e1) / rv (Fin m2 e2)\<bar> \<le> \<bar>rv (Fin m1 e1) / rv (Fin m2 e2)\<bar> * 2 powi (- 66)"
proof -
  have m2: "m2 \<noteq> 0" using assms by auto
  obtain q k where qk: "quotient m1 m2 = (q, k)" by (metis surj_pair)
  let ?s = "(2::real) powi (e1 - e2)"
  have v: "rv (Fin m1 e1) / rv (Fin m2 e2) = m1 / m2 * ?s"
    using two_powi_add [of "e1 - e2" e2] by (simp add: field_simps)
  have w: "rv (Fin q (e1 - e2 + k)) = rv (Fin q k) * ?s" by (simp add: two_powi_add del: power_int_add)
  have "\<bar>rv (Fin q k) - m1 / m2\<bar> * ?s \<le> \<bar>m1 / m2\<bar> * 2 powi (- 66) * ?s"
    using quotient_err [OF qk m2] by (rule mult_right_mono) simp
  then have "\<bar>(rv (Fin q k) - m1 / m2) * ?s\<bar> \<le> \<bar>m1 / m2 * ?s\<bar> * 2 powi (- 66)"
    by (simp only: abs_mult abs_of_pos [OF two_powi_pos] ac_simps)
  then have "\<bar>rv (Fin q (e1 - e2 + k)) - m1 / m2 * ?s\<bar> \<le> \<bar>m1 / m2 * ?s\<bar> * 2 powi (- 66)"
    by (simp only: w left_diff_distrib)
  then show thesis using that [of q "e1 - e2 + k"] m2 qk by (simp only: v d_div.simps) simp
qed


lemma near_div_exact:
  assumes "rv (Fin m2 e2) \<noteq> 0" "\<bar>rv (Fin m1 e1) / rv (Fin m2 e2)\<bar> \<le> 4096"
  shows "near (d_div (Fin m1 e1) (Fin m2 e2)) (rv (Fin m1 e1) / rv (Fin m2 e2)) (2 * eps)"
proof -
  let ?v = "rv (Fin m1 e1) / rv (Fin m2 e2)"
  obtain m e where div: "d_div (Fin m1 e1) (Fin m2 e2) = ext_round m e" and
    err: "\<bar>rv (Fin m e) - ?v\<bar> \<le> \<bar>?v\<bar> * 2 powi (- 66)"
    by (rule d_div_round [OF assms(1)])
  have "\<bar>?v\<bar> * 2 powi (- 66) \<le> eps"
    using round_scale [of ?v 66 "- 100"] assms(2) by simp
  then have "\<bar>rv (Fin m e) - ?v\<bar> \<le> eps" using err by (rule order_trans [rotated])
  then have "near (ext_round m e) ?v (eps + eps)"
    using assms(2) by (rule near_ext_round) (simp add: eps_def)
  then show ?thesis by (simp only: div mult_2)
qed

lemma quotient_bound:
  fixes x y a b c d :: real
  assumes "\<bar>x - a\<bar> \<le> c" "\<bar>y - b\<bar> \<le> d" "1 \<le> b" "d \<le> 1 / 2"
  shows "\<bar>x / y - a / b\<bar> \<le> 2 * (c + \<bar>a / b\<bar> * d)"
proof -
  have y: "1 / 2 \<le> y" using assms(2-4) by linarith
  then have eq: "x / y - a / b = ((x - a) + a / b * (b - y)) / y"
    using assms(3) by (simp add: field_simps)
  have "\<bar>a / b * (b - y)\<bar> \<le> \<bar>a / b\<bar> * d"
    unfolding abs_mult using assms(2) by (intro mult_left_mono) simp_all
  with assms(1) have "\<bar>(x - a) + a / b * (b - y)\<bar> \<le> c + \<bar>a / b\<bar> * d" by linarith
  then have "\<bar>(x - a) + a / b * (b - y)\<bar> / y \<le> (c + \<bar>a / b\<bar> * d) / (1 / 2)"
    using y by (intro frac_le) linarith+
  moreover have "\<bar>x / y - a / b\<bar> = \<bar>(x - a) + a / b * (b - y)\<bar> / y"
    unfolding eq abs_divide using y by simp
  moreover have "B / (1 / 2) = 2 * B" for B :: real by simp
  ultimately show ?thesis by (simp only:)
qed

lemma near_div:
  assumes "near x a c" "near y b d" "1 \<le> b" "d \<le> 1 / 2" "\<bar>a / b\<bar> \<le> 2000" "c + \<bar>a / b\<bar> * d \<le> 1000"
  shows "near (d_div x y) (a / b) (2 * (c + \<bar>a / b\<bar> * d) + 2 * eps)"
proof -
  obtain m1 e1 where x: "x = Fin m1 e1" "\<bar>rv (Fin m1 e1) - a\<bar> \<le> c" using assms(1) by (rule nearE)
  obtain m2 e2 where y: "y = Fin m2 e2" "\<bar>rv (Fin m2 e2) - b\<bar> \<le> d" using assms(2) by (rule nearE)
  note close = quotient_bound [OF x(2) y(2) assms(3,4)]
  have tri: "\<bar>p\<bar> \<le> 4096" if "\<bar>p - q\<bar> \<le> 2 * t" "\<bar>q\<bar> \<le> 2000" "t \<le> 1000" for p q t :: real
    using that by linarith
  have "\<bar>rv (Fin m1 e1) / rv (Fin m2 e2)\<bar> \<le> 4096" by (rule tri [OF close assms(5,6)])
  moreover have "rv (Fin m2 e2) \<noteq> 0" using y(2) assms(3,4) by linarith
  ultimately have "near (d_div x y) (rv (Fin m1 e1) / rv (Fin m2 e2)) (2 * eps)"
    unfolding x(1) y(1) by (intro near_div_exact)
  moreover have "\<bar>v - q\<bar> \<le> s + t" if "\<bar>p - q\<bar> \<le> s" "\<bar>v - p\<bar> \<le> t" for p q s t v :: real
    using that by linarith
  ultimately show ?thesis using close unfolding near_def by blast
qed

text \<open>The decimal constants of the code.\<close>

lemma near_dec: "\<bar>of_int n / 10 ^ k\<bar> \<le> (2000 :: real) \<Longrightarrow> near (d_dec n k) (of_int n / 10 ^ k) (2 * eps)"
  using near_div [OF near_int near_int, of "10 ^ k" n] by (simp add: d_dec_def)

text \<open>The same rules with bounds on the operands, for the use on concrete expressions.\<close>

lemma near_nonneg: "near x r d \<Longrightarrow> 0 \<le> d"
  by (auto simp: near_def)

lemma near_addI:
  "near x a c \<Longrightarrow> near y b d \<Longrightarrow> \<bar>a\<bar> \<le> 2000 \<Longrightarrow> \<bar>b\<bar> \<le> 2000 \<Longrightarrow> c + d + eps \<le> D \<Longrightarrow> D \<le> 1 \<Longrightarrow>
    near (d_add x y) (a + b) D"
  by (rule near_mono [OF near_add]) (auto simp: eps_def)

lemma near_subI:
  "near x a c \<Longrightarrow> near y b d \<Longrightarrow> \<bar>a\<bar> \<le> 2000 \<Longrightarrow> \<bar>b\<bar> \<le> 2000 \<Longrightarrow> c + d + eps \<le> D \<Longrightarrow> D \<le> 1 \<Longrightarrow>
    near (d_sub x y) (a - b) D"
  by (rule near_mono [OF near_sub]) (auto simp: eps_def)

lemma near_mulI:
  assumes "near x a c" "near y b d" "\<bar>a\<bar> \<le> A" "\<bar>b\<bar> \<le> B" "A * B \<le> 4096" "A * d + B * c + c * d + eps \<le> D" "D \<le> 1"
  shows "near (d_mul x y) (a * b) D"
proof -
  note nn = near_nonneg [OF assms(1)] near_nonneg [OF assms(2)]
  have "\<bar>a\<bar> * d \<le> A * d" "\<bar>b\<bar> * c \<le> B * c" using assms(3,4) nn by (auto intro: mult_right_mono)
  moreover have "\<bar>a * b\<bar> \<le> A * B" unfolding abs_mult using assms(3,4) by (intro mult_mono) simp_all
  ultimately show ?thesis using assms(5-7)
    by (intro near_mono [OF near_mul [OF assms(1,2)] refl]) (simp_all add: eps_def)
qed

lemma near_divI:
  assumes "near x a c" "near y b d" "1 \<le> b" "\<bar>a / b\<bar> \<le> R" "d \<le> 1 / 2" "R \<le> 2000"
    "2 * (c + R * d) + 2 * eps \<le> D" "D \<le> 1"
  shows "near (d_div x y) (a / b) D"
proof -
  note nn = near_nonneg [OF assms(1)] near_nonneg [OF assms(2)]
  have *: "\<bar>a / b\<bar> * d \<le> R * d" using assms(4) nn by (intro mult_right_mono) simp_all
  have e: "0 \<le> eps" by (simp add: eps_def)
  have le: "c + p \<le> 1000 \<and> 2 * (c + p) + 2 * eps \<le> D" if "p \<le> q" "2 * (c + q) + 2 * eps \<le> D" for p q
    using that assms(8) e by simp
  show ?thesis
    by (rule near_mono [OF near_div [OF assms(1,2,3,5) order_trans [OF assms(4,6)]] refl])
      (use le [OF * assms(7)] in blast)+
qed

lemma near_to_doubleI: "near x r c \<Longrightarrow> \<bar>r\<bar> \<le> 4096 \<Longrightarrow> c + eps \<le> D \<Longrightarrow> D \<le> 1 \<Longrightarrow> near (to_double x) r D"
  by (rule near_mono [OF near_to_double]) (auto simp: eps_def)

text \<open>Truncation.\<close>

lemma d_trunc_rv:
  shows "0 \<le> rv (Fin m e) \<Longrightarrow> of_int (d_trunc (Fin m e)) \<le> rv (Fin m e) \<and> rv (Fin m e) < of_int (d_trunc (Fin m e)) + 1"
    and "rv (Fin m e) \<le> 0 \<Longrightarrow> rv (Fin m e) \<le> of_int (d_trunc (Fin m e)) \<and> of_int (d_trunc (Fin m e)) - 1 < rv (Fin m e)"
proof -
  have floor: "of_int (i div 2 ^ k) \<le> real_of_int i / 2 ^ k" "real_of_int i / 2 ^ k < of_int (i div 2 ^ k) + 1" for i k
  proof -
    have "of_int (i div 2 ^ k) = (of_int \<lfloor>real_of_int i / real_of_int (2 ^ k)\<rfloor> :: real)"
      by (simp only: floor_divide_of_int_eq)
    then show "of_int (i div 2 ^ k) \<le> real_of_int i / 2 ^ k" "real_of_int i / 2 ^ k < of_int (i div 2 ^ k) + 1"
      by (simp_all add: of_int_floor_le)
  qed
  have pw: "(2::real) powi e = 1 / 2 ^ nat (- e)" if "e < 0" using that by (simp add: power_int_def power_divide)
  have np: "\<not> (2::real) ^ nat (- e) \<le> 0" by (simp add: not_le)
  show "0 \<le> rv (Fin m e) \<Longrightarrow> of_int (d_trunc (Fin m e)) \<le> rv (Fin m e) \<and> rv (Fin m e) < of_int (d_trunc (Fin m e)) + 1"
    using floor [of m "nat (- e)"] pw np
    by (cases "0 \<le> e") (auto simp: zero_le_divide_iff zero_le_mult_iff simp flip: two_powi_nat)
  show "rv (Fin m e) \<le> 0 \<Longrightarrow> rv (Fin m e) \<le> of_int (d_trunc (Fin m e)) \<and> of_int (d_trunc (Fin m e)) - 1 < rv (Fin m e)"
    using floor [of "- m" "nat (- e)"] pw np
    by (cases "0 \<le> e") (auto simp: divide_le_0_iff mult_le_0_iff simp flip: two_powi_nat)
qed

lemma near_trunc:
  assumes "near x r d"
  shows "r - d - 1 < of_int (d_trunc x)" "of_int (d_trunc x) < r + d + 1"
    "d < r \<Longrightarrow> of_int (d_trunc x) \<le> r + d" "r < - d \<Longrightarrow> r - d \<le> of_int (d_trunc x)"
proof -
  obtain m e where x: "x = Fin m e" "\<bar>rv (Fin m e) - r\<bar> \<le> d" using assms by (rule nearE)
  note tr = d_trunc_rv [of m e, folded x(1)] and v = x(2) [folded x(1)]
  show "r - d - 1 < of_int (d_trunc x)" "of_int (d_trunc x) < r + d + 1"
    using v tr by (cases "0 \<le> rv x"; linarith)+
  show "d < r \<Longrightarrow> of_int (d_trunc x) \<le> r + d" "r < - d \<Longrightarrow> r - d \<le> of_int (d_trunc x)"
    using v tr by linarith+
qed


section \<open>Rounding of scaled numbers\<close>

text \<open>Away from the ends of the formats a rounding changes a number by less than its sixteenth.\<close>

lemma fp_round_scaled:
  assumes "53 \<le> p" "emin \<le> - 1074" "1023 \<le> emax"
    and "2 powi (- 1060) \<le> \<bar>rv (Fin m e)\<bar>" "\<bar>rv (Fin m e)\<bar> \<le> 7 / 4 * 2 powi 1023"
  shows "near (fp_round p emin emax m e) (rv (Fin m e)) (\<bar>rv (Fin m e)\<bar> / 16)"
proof -
  have "(2::real) powi 1023 \<le> 2 powi emax" by (rule two_powi_mono) (rule assms)
  then have "(7::real) / 4 * 2 powi 1023 \<le> 7 / 4 * 2 powi emax" by (rule mult_left_mono) simp
  then have "near (fp_round p emin emax m e) (rv (Fin m e))
      (max (\<bar>rv (Fin m e)\<bar> * 2 powi (- p)) (2 powi (emin - 1)))"
    using assms by (intro fp_round_rel order_trans [OF assms(5)]) simp_all
  moreover have "max (\<bar>rv (Fin m e)\<bar> * 2 powi (- p)) (2 powi (emin - 1)) \<le> \<bar>rv (Fin m e)\<bar> / 16"
  proof (rule max.boundedI)
    have four: "(2::real) powi (- 4) = 1 / 16" by (simp add: power_int_def power_divide)
    have "(2::real) powi (- p) \<le> 2 powi (- 4)" by (rule two_powi_mono) (use assms(1) in simp)
    then show "\<bar>rv (Fin m e)\<bar> * 2 powi (- p) \<le> \<bar>rv (Fin m e)\<bar> / 16"
      using mult_left_mono [of "2 powi (- p)" "1 / 16" "\<bar>rv (Fin m e)\<bar>"]
      by (simp only: four abs_ge_zero times_divide_eq_right mult_1_right)
    have "(2::real) powi (emin - 1) \<le> 2 powi (- 1060 + - 4)" by (rule two_powi_mono) (use assms(2) in simp)
    also have "\<dots> = 2 powi (- 1060) / 16" by (simp only: two_powi_add four times_divide_eq_right mult_1_right)
    also have "\<dots> \<le> \<bar>rv (Fin m e)\<bar> / 16" using assms(4) by (rule divide_right_mono) simp
    finally show "2 powi (emin - 1) \<le> \<bar>rv (Fin m e)\<bar> / 16" .
  qed
  ultimately show ?thesis by (rule near_mono [OF _ refl])
qed

lemma to_double_scaled:
  "2 powi (- 1060) \<le> \<bar>rv (Fin m e)\<bar> \<Longrightarrow> \<bar>rv (Fin m e)\<bar> \<le> 7 / 4 * 2 powi 1023 \<Longrightarrow>
    near (to_double (Fin m e)) (rv (Fin m e)) (\<bar>rv (Fin m e)\<bar> / 16)"
  unfolding to_double.simps by (rule fp_round_scaled) simp_all

lemma ext_round_scaled:
  "2 powi (- 1060) \<le> \<bar>rv (Fin m e)\<bar> \<Longrightarrow> \<bar>rv (Fin m e)\<bar> \<le> 7 / 4 * 2 powi 1023 \<Longrightarrow>
    near (ext_round m e) (rv (Fin m e)) (\<bar>rv (Fin m e)\<bar> / 16)"
  unfolding ext_round_def by (rule fp_round_scaled) simp_all

section \<open>The values of the type \<open>double\<close>\<close>

text \<open>Every rounding to \<open>double\<close> and every bit pattern gives one of these.\<close>

fun is_double :: "dbl \<Rightarrow> bool" where
  "is_double (Fin m e) \<longleftrightarrow> m = 0 \<or> \<bar>m\<bar> \<le> 2 ^ 53 \<and> - 1074 \<le> e \<and> e + int (bit_length \<bar>m\<bar>) \<le> 1024"
| "is_double _ \<longleftrightarrow> True"

subsection \<open>Their bits\<close>

lemma bit_below: "0 \<le> i \<Longrightarrow> i < 2 ^ k \<Longrightarrow> bit (i :: int) n \<Longrightarrow> n < k"
  by (metis bit_take_bit_iff take_bit_int_eq_self)

lemma mk_bits_field:
  assumes "0 \<le> fld" "fld < 2048" "0 \<le> fr" "fr < 2 ^ 52"
  shows "drop_bit 52 (mk_bits False fld fr) AND 0x7FF = of_int fld"
proof -
  have "bit fld n \<Longrightarrow> n < 11" for n using assms(1,2) bit_below [of fld 11 n] by simp
  moreover have "bit fr n \<Longrightarrow> n < 52" for n using assms(3,4) by (rule bit_below)
  ultimately have "drop_bit 52 (mk_bits False fld fr) AND mask 11 = of_int fld"
    by (fastforce intro!: bit_word_eqI simp: mk_bits_def bit_simps)
  moreover have "(0x7FF :: u64) = mask 11" by (simp add: mask_eq_exp_minus_1)
  ultimately show ?thesis by simp
qed

lemma bit_length_double:
  assumes "0 < m" "m \<le> 2 ^ 53"
  shows "1 \<le> bit_length m" "bit_length m \<le> 54"
proof -
  have "(2::int) ^ (bit_length m - 1) \<le> 2 ^ 53" using bit_length_bounds(1) [of m] assms by linarith
  then have "bit_length m - 1 \<le> 53" by (rule power_le_imp_le_exp [rotated]) simp
  then show "1 \<le> bit_length m" "bit_length m \<le> 54" using bit_length_bounds(3) [of m] assms(1) by simp_all
qed

lemma shift_normal:
  assumes "0 < m" "m \<le> 2 ^ 53" "b = int (bit_length m)"
  shows "2 ^ 52 \<le> shift m (53 - b) \<and> shift m (53 - b) < 2 ^ 53"
proof (cases "b = 54")
  case True
  then have "m = 2 ^ 53" using bit_length_bounds(1) [of m] assms by simp
  then show ?thesis using True by (simp add: shift_def)
next
  case False
  note bl = bit_length_bounds [OF assms(1)]
  have b: "1 \<le> b" "b \<le> 53" using bit_length_double [OF assms(1,2)] False by (simp_all add: assms(3))
  then have "shift m (53 - b) = m * 2 ^ nat (53 - b)" by (simp add: shift_def)
  moreover have "m * 2 ^ nat (53 - b) < 2 ^ bit_length m * 2 ^ nat (53 - b)" using bl(2) by simp
  moreover have "2 ^ (bit_length m - 1) * 2 ^ nat (53 - b) \<le> m * 2 ^ nat (53 - b)" using bl(1) by simp
  moreover have "bit_length m + nat (53 - b) = 53" "bit_length m - 1 + nat (53 - b) = 52"
    using b by (simp_all add: assms(3))
  ultimately show ?thesis by (simp only: power_add [symmetric])
qed

lemma shift_subnormal:
  assumes "0 < m" "- 1074 \<le> e" "e + int (bit_length m) \<le> - 1022"
  shows "0 \<le> shift m (e + 1074)" "shift m (e + 1074) < 2 ^ 52"
proof -
  have sh: "shift m (e + 1074) = m * 2 ^ nat (e + 1074)" using assms(2) by (simp add: shift_def)
  show "0 \<le> shift m (e + 1074)" using assms(1) by (simp add: sh)
  have "m * 2 ^ nat (e + 1074) < 2 ^ bit_length m * 2 ^ nat (e + 1074)"
    using bit_length_bounds(2) [OF assms(1)] by simp
  also have "\<dots> \<le> 2 ^ 52"
    unfolding power_add [symmetric] by (rule power_increasing) (use assms in simp_all)
  finally show "shift m (e + 1074) < 2 ^ 52" by (simp only: sh)
qed

text \<open>A positive \<open>double\<close> lies below the power of two after the one its exponent field names.\<close>

lemma dbl_bits_field:
  assumes "0 < m" "is_double (Fin m e)"
  shows "uint (drop_bit 52 (dbl_bits (Fin m e)) AND 0x7FF) = max 0 (e + int (bit_length m) + 1022)"
proof -
  define b where "b = int (bit_length m)"
  have m: "m \<le> 2 ^ 53" "- 1074 \<le> e" "e + b \<le> 1024" using assms by (simp_all add: b_def)
  have b: "1 \<le> b" "b \<le> 54" using bit_length_double [OF assms(1) m(1)] by (simp_all add: b_def)
  show ?thesis
  proof (cases "- 1022 \<le> e + b - 1")
    case True
    note sh = shift_normal [OF assms(1) m(1) b_def]
    have "drop_bit 52 (dbl_bits (Fin m e)) AND 0x7FF = of_int (e + b - 1 + 1023)"
      using True assms(1) m sh mk_bits_field [of "e + b - 1 + 1023" "shift m (53 - b) - 2 ^ 52"]
      by (simp add: Let_def b_def)
    moreover have "take_bit LENGTH(64) (e + b - 1 + 1023) = e + b - 1 + 1023"
      by (rule take_bit_int_eq_self) (use True m in simp_all)
    ultimately show ?thesis using True by (simp only: uint_word_of_int_eq) (simp add: b_def)
  next
    case False
    have "drop_bit 52 (dbl_bits (Fin m e)) AND 0x7FF = of_int 0"
      using False assms(1) shift_subnormal [of m e] m mk_bits_field [of 0 "shift m (e + 1074)"]
      by (simp add: Let_def b_def)
    then show ?thesis using False by (simp add: b_def)
  qed
qed

lemma dbl_bits_exponent:
  assumes "0 \<le> m" "is_double (Fin m e)"
  defines "x \<equiv> uint (drop_bit 52 (dbl_bits (Fin m e)) AND 0x7FF) - 1023"
  shows "- 1023 \<le> x" "x \<le> 1023" "rv (Fin m e) < 2 powi (x + 1)"
proof -
  have "- 1023 \<le> x \<and> x \<le> 1023 \<and> rv (Fin m e) < 2 powi (x + 1)"
  proof (cases "m = 0")
    case False
    then have m: "0 < m" "e + int (bit_length m) \<le> 1024" using assms by simp_all
    have x: "x = max 0 (e + int (bit_length m) + 1022) - 1023" unfolding x_def using dbl_bits_field [OF m(1) assms(2)] by simp
    have "real_of_int m < real_of_int (2 ^ bit_length m)" using bit_length_bounds(2) [OF m(1)] by (simp only: of_int_less_iff)
    then have "real_of_int m < 2 powi int (bit_length m)" by (simp add: power_int_def)
    then have "real_of_int m * 2 powi e < 2 powi int (bit_length m) * 2 powi e" by (rule mult_strict_right_mono) simp
    then have "rv (Fin m e) < 2 powi (e + int (bit_length m))" by (simp only: rv.simps two_powi_add mult.commute)
    also have "\<dots> \<le> 2 powi (x + 1)" by (rule two_powi_mono) (simp add: x)
    finally show ?thesis using x m(2) by simp
  qed (simp add: x_def)
  then show "- 1023 \<le> x" "x \<le> 1023" "rv (Fin m e) < 2 powi (x + 1)" by simp_all
qed


lemma bits_dbl_mantissa:
  "\<exists>fr. bits_dbl ((U AND (push_bit 52 1 - 1)) OR push_bit 52 1023) = Fin fr (- 52) \<and> 2 ^ 52 \<le> fr \<and> fr < 2 ^ 53"
proof -
  let ?W = "(U AND (push_bit 52 1 - 1)) OR push_bit 52 1023 :: u64"
  have m: "(push_bit 52 1 - 1 :: u64) = mask 52" by (simp add: mask_eq_exp_minus_1)
  have ten: "(1023 :: u64) = mask 10" by (simp add: mask_eq_exp_minus_1)
  have f: "drop_bit 52 ?W AND 0x7FF = 1023"
  proof -
    have "drop_bit 52 ?W AND mask 11 = 1023"
      unfolding m ten by (auto intro!: bit_word_eqI simp: bit_simps)
    moreover have "(0x7FF :: u64) = mask 11" by (simp add: mask_eq_exp_minus_1)
    ultimately show ?thesis by (simp only:)
  qed
  have s: "\<not> bit ?W 63" unfolding m ten by (simp add: bit_simps)
  have fr: "?W AND (push_bit 52 1 - 1) = U AND mask 52"
    unfolding m ten by (auto intro!: bit_word_eqI simp: bit_simps)
  have "uint (U AND mask 52) < 2 ^ 52"
  proof -
    have "U AND mask 52 = take_bit 52 U" by (simp add: take_bit_eq_mask)
    then have "uint (U AND mask 52) = take_bit 52 (uint U)" by (simp add: unsigned_take_bit_eq)
    then show ?thesis by (simp only: take_bit_int_less_exp)
  qed
  then show ?thesis using s unfolding bits_dbl_def Let_def f fr by simp
qed

lemma bits_dbl_power:
  assumes "- 1022 \<le> k" "k \<le> 1023"
  shows "bits_dbl (push_bit 52 (of_int (k + 1023))) = Fin (2 ^ 52) (k - 52)"
proof -
  have w: "push_bit 52 (of_int (k + 1023)) = mk_bits False (k + 1023) 0" by (simp add: mk_bits_def)
  have f: "drop_bit 52 (mk_bits False (k + 1023) 0) AND 0x7FF = of_int (k + 1023)"
    by (rule mk_bits_field) (use assms in simp_all)
  have u: "uint (of_int (k + 1023) :: u64) = k + 1023"
    unfolding uint_word_of_int_eq by (rule take_bit_int_eq_self) (use assms in simp_all)
  have m: "(push_bit 52 1 - 1 :: u64) = mask 52" by (simp add: mask_eq_exp_minus_1)
  have fr: "mk_bits False (k + 1023) 0 AND (push_bit 52 1 - 1) = 0"
    unfolding m by (auto intro!: bit_word_eqI simp: bit_simps mk_bits_def)
  have s: "\<not> bit (mk_bits False (k + 1023) 0) 63"
  proof -
    have "\<not> bit (k + 1023) 11" using bit_below [of "k + 1023" 11 11] assms by auto
    then show ?thesis by (simp add: mk_bits_def bit_simps del: of_int_add of_int_numeral)
  qed
  show ?thesis unfolding w by (simp only: bits_dbl_def Let_def f fr s u) (use assms in simp)
qed


subsection \<open>Where they come from\<close>

lemma round_even_bound:
  assumes "\<bar>m\<bar> \<le> 2 ^ k * 2 ^ s"
  shows "\<bar>round_even m s\<bar> \<le> 2 ^ k"
proof -
  have bound: "\<bar>r\<bar> \<le> B" if "2 * \<bar>r * p - m\<bar> \<le> p" "\<bar>m\<bar> \<le> B * p" "0 < p" for r p m B :: int
  proof (rule ccontr)
    assume "\<not> \<bar>r\<bar> \<le> B"
    then have "(B + 1) * p \<le> \<bar>r\<bar> * p" using that(3) by (intro mult_right_mono) simp_all
    moreover have "\<bar>r\<bar> * p = \<bar>r * p\<bar>" using that(3) by (simp add: abs_mult)
    ultimately show False using that by (simp add: distrib_right abs_if split: if_splits)
  qed
  show ?thesis using assms by (intro bound [OF round_even_err]) simp_all
qed

lemma to_double_is_double: "is_double (to_double x)"
proof (cases x)
  case (Fin m e)
  show ?thesis
  proof (cases "m = 0")
    case True
    then show ?thesis by (simp add: Fin fp_round_def)
  next
    case False
    define e1 where "e1 = max (- 1074) (e + int (bit_length \<bar>m\<bar>) - 53)"
    have m: "\<bar>m\<bar> < 2 ^ bit_length \<bar>m\<bar>" using bit_length_bounds(2) [of "\<bar>m\<bar>"] False by simp
    show ?thesis
    proof (cases "e1 \<le> e")
      case True
      then have "bit_length \<bar>m\<bar> \<le> 53" "- 1074 \<le> e" by (auto simp: e1_def)
      moreover have "(2::int) ^ bit_length \<bar>m\<bar> \<le> 2 ^ 53" by (rule power_increasing) (use calculation in simp_all)
      ultimately show ?thesis using m True False by (simp add: Fin fp_round_def Let_def flip: e1_def)
    next
      case exp: False
      have "(2::int) ^ bit_length \<bar>m\<bar> \<le> 2 ^ (53 + nat (e1 - e))"
        by (rule power_increasing) (use exp in \<open>simp_all add: e1_def\<close>)
      then have "\<bar>m\<bar> \<le> 2 ^ 53 * 2 ^ nat (e1 - e)" using m by (simp only: power_add)
      then have "\<bar>round_even m (nat (e1 - e))\<bar> \<le> 2 ^ 53" by (rule round_even_bound)
      moreover have "- 1074 \<le> e1" by (simp add: e1_def)
      ultimately show ?thesis using exp False by (simp add: Fin fp_round_def Let_def flip: e1_def)
    qed
  qed
qed simp_all

lemma bits_dbl_is_double: "is_double (bits_dbl u)"
proof -
  define fld where "fld = uint (drop_bit 52 u AND 0x7FF)"
  define fr where "fr = uint (u AND (push_bit 52 1 - 1))"
  have "(push_bit 52 1 - 1 :: u64) = mask 52" "(0x7FF :: u64) = mask 11" by (simp_all add: mask_eq_exp_minus_1)
  then have "fr = take_bit 52 (uint u)" "fld = take_bit 11 (uint (drop_bit 52 u))"
    by (simp_all only: fr_def fld_def take_bit_eq_mask [symmetric] unsigned_take_bit_eq)
  then have fr: "0 \<le> fr" "fr < 2 ^ 52" and fld: "0 \<le> fld" "fld < 2 ^ 11"
    by (simp_all only: take_bit_int_less_exp take_bit_nonnegative)
  have len: "bit_length k \<le> 53" if "0 \<le> k" "k < 2 ^ 53" for k
  proof (cases "k = 0")
    case False
    have "(2::int) ^ (bit_length k - 1) < 2 ^ 53" using bit_length_bounds(1) [of k] that False by linarith
    then have "bit_length k - 1 < 53" by (rule power_less_imp_less_exp [rotated]) simp
    then show ?thesis by simp
  qed (simp add: bit_length.simps)
  show ?thesis
    unfolding bits_dbl_def Let_def fld_def [symmetric] fr_def [symmetric]
    using fr fld len [of fr] len [of "fr + 2 ^ 52"] by auto
qed

end
