(* ===== verification/Dbl_Exact.thy ===== *)
theory Dbl_Exact
  imports Dbl_Real
begin

text \<open>
  The floating-point operations whose results are exact: roundings of numbers that the format
  holds, the fraction of a \<open>double\<close>, and a bound of the rounding error by the binade.
\<close>

section \<open>Exact roundings\<close>

lemma rv_less_last_bit:
  assumes "m \<noteq> 0"
  shows "\<bar>rv (Fin m e)\<bar> < 2 powi (int (bit_length \<bar>m\<bar>) + e)"
proof -
  have "real_of_int \<bar>m\<bar> < real_of_int (2 ^ bit_length \<bar>m\<bar>)"
    using bit_length_bounds(2) [of "\<bar>m\<bar>"] assms by (simp only: of_int_less_iff)
  then have "\<bar>real_of_int m\<bar> < 2 powi int (bit_length \<bar>m\<bar>)" by (simp add: power_int_def)
  then have "\<bar>real_of_int m\<bar> * 2 powi e < 2 powi int (bit_length \<bar>m\<bar>) * 2 powi e"
    by (rule mult_strict_right_mono) simp
  then show ?thesis by (simp add: two_powi_add abs_mult)
qed

lemma round_even_mult: "round_even (q * 2 ^ s) s = q"
  by (simp add: round_even_def)

lemma same_value:
  assumes "rv (Fin m e) = rv (Fin n E)" "e \<le> E"
  shows "m = n * 2 ^ nat (E - e)"
proof -
  have "of_int m * (2::real) powi e = of_int (n * 2 ^ nat (E - e)) * 2 powi e"
    using assms rv_scale [of "E - e" n e] by (simp del: of_int_mult)
  then have "real_of_int m = of_int (n * 2 ^ nat (E - e))" by (metis mult_cancel_right less_irrefl two_powi_pos)
  then show ?thesis by (simp only: of_int_eq_iff)
qed

lemma bit_length_le_power: "\<bar>m\<bar> < 2 ^ k \<Longrightarrow> bit_length \<bar>m\<bar> \<le> k" for m :: int
proof (rule ccontr)
  assume m: "\<bar>m\<bar> < 2 ^ k" "\<not> bit_length \<bar>m\<bar> \<le> k"
  then have "m \<noteq> 0" by (auto simp: bit_length.simps)
  then have "2 ^ (bit_length \<bar>m\<bar> - 1) \<le> \<bar>m\<bar>" by (intro bit_length_bounds) simp
  moreover have "(2::int) ^ k \<le> 2 ^ (bit_length \<bar>m\<bar> - 1)" by (rule power_increasing) (use m in simp_all)
  ultimately show False using m(1) by (meson less_le_trans not_less)
qed

lemma fp_round_exact_less:
  assumes "rv (Fin m e) = rv (Fin n E)" "\<bar>n\<bar> < 2 ^ p" "emin \<le> E" "\<bar>rv (Fin m e)\<bar> \<le> 2 powi emax"
  shows "near (fp_round (int p) emin emax m e) (rv (Fin m e)) 0"
proof (cases "m = 0")
  case True
  then show ?thesis by (simp add: near_def fp_round_def)
next
  case False
  then have n: "n \<noteq> 0" using assms(1) by auto
  define e1 where "e1 = max emin (e + int (bit_length \<bar>m\<bar>) - int p)"
  have "int (bit_length \<bar>m\<bar>) + e \<le> int (bit_length \<bar>n\<bar>) + E"
    using rv_less_last_bit [OF n, of E] by (intro first_bit_le [OF False]) (simp only: assms(1))
  with bit_length_le_power [OF assms(2)] assms(3) have e1: "e1 \<le> E" by (simp add: e1_def)
  have room: "int (bit_length \<bar>q\<bar>) + k \<le> emax + 1" if "rv (Fin q k) = rv (Fin m e)" "q \<noteq> 0" for q k
  proof (rule first_bit_le [OF that(2)])
    have "(2::real) powi emax < 2 powi (emax + 1)" by (rule power_int_strict_increasing) simp_all
    with assms(4) that(1) show "\<bar>rv (Fin q k)\<bar> < 2 powi (emax + 1)" by (simp only:)
  qed
  show ?thesis
  proof (cases "e1 \<le> e")
    case True
    then show ?thesis using False room [of m e] by (simp add: near_def fp_round_def Let_def flip: e1_def)
  next
    case exp: False
    define q where "q = n * 2 ^ nat (E - e1)"
    have q: "rv (Fin q e1) = rv (Fin m e)"
      using rv_scale [of "E - e1" n e1] e1 assms(1) by (simp add: q_def)
    have "m = q * 2 ^ nat (e1 - e)" by (rule same_value [OF q [symmetric]]) (use exp in simp)
    then have "round_even m (nat (e1 - e)) = q" by (simp only: round_even_mult)
    moreover have "q \<noteq> 0" using n by (simp add: q_def)
    ultimately show ?thesis
      using False exp room [OF q] q by (simp add: near_def fp_round_def Let_def flip: e1_def del: rv.simps)
  qed
qed

lemma fp_round_exact:
  assumes "rv (Fin m e) = rv (Fin n E)" "\<bar>n\<bar> \<le> 2 ^ p" "0 < p" "emin \<le> E" "\<bar>rv (Fin m e)\<bar> \<le> 2 powi emax"
  shows "near (fp_round (int p) emin emax m e) (rv (Fin m e)) 0"
proof (cases "\<bar>n\<bar> < 2 ^ p")
  case True
  then show ?thesis using assms by (intro fp_round_exact_less) simp_all
next
  case False
  then have n: "\<bar>n\<bar> = 2 ^ p" using assms(2) by simp
  have "2 dvd \<bar>n\<bar>" unfolding n using assms(3) by (intro dvd_power) simp
  then obtain k where k: "n = 2 * k" by (auto elim: dvdE)
  have "rv (Fin n E) = rv (Fin k (E + 1))" by (simp add: k two_powi_add)
  moreover have "\<bar>k\<bar> < 2 ^ p"
  proof -
    have "2 * \<bar>k\<bar> = 2 ^ p" using n by (simp add: k abs_mult)
    moreover have "(0::int) < 2 ^ p" by simp
    ultimately show ?thesis by linarith
  qed
  ultimately show ?thesis using assms by (intro fp_round_exact_less [of m e k "E + 1"]) simp_all
qed

text \<open>The error is half a unit in the last place of the binade.\<close>

lemma fp_round_binade:
  assumes "\<bar>rv (Fin m e)\<bar> < 2 powi (k + 1)" "4 \<le> p" "emin \<le> k + 1 - p" "k + 1 \<le> emax" "emin + 3 \<le> emax"
  shows "near (fp_round p emin emax m e) (rv (Fin m e)) (2 powi (k - p))"
proof (cases "m = 0")
  case True
  then show ?thesis by (simp add: near_def fp_round_def)
next
  case False
  have "(2::real) powi (k + 1) \<le> 2 powi emax" by (rule two_powi_mono) (rule assms)
  then have "\<bar>rv (Fin m e)\<bar> \<le> 7 / 4 * 2 powi emax" using assms(1) two_powi_pos [of emax] by linarith
  from fp_round_rel [OF assms(2,5) this] obtain m' e' where r: "fp_round p emin emax m e = Fin m' e'"
    by (rule nearE)
  define e1 where "e1 = max emin (e + int (bit_length \<bar>m\<bar>) - p)"
  have "int (bit_length \<bar>m\<bar>) + e \<le> k + 1" by (rule first_bit_le [OF False assms(1)])
  then have e1: "(2::real) powi (e1 - 1) \<le> 2 powi (k - p)"
    using assms(3) by (intro two_powi_mono) (simp add: e1_def)
  have "\<bar>rv (Fin m' e') - rv (Fin m e)\<bar> \<le> 2 powi (k - p)"
  proof (cases "e1 \<le> e")
    case True
    then have "m' = m \<and> e' = e" using r False by (simp add: fp_round_def Let_def flip: e1_def split: if_splits)
    then show ?thesis by simp
  next
    case exp: False
    then have "m' = round_even m (nat (e1 - e)) \<and> e' = e1"
      using r False by (auto simp: fp_round_def Let_def simp flip: e1_def split: if_splits)
    then show ?thesis using order_trans [OF round_unit [of e e1 m] e1] exp by (simp del: rv.simps)
  qed
  then show ?thesis by (simp add: near_def r)
qed

section \<open>Exact operations\<close>

lemma near_exact: "near x v 0 \<longleftrightarrow> (\<exists>m e. x = Fin m e \<and> rv (Fin m e) = v)"
  by (auto simp: near_def)

lemma exact_to_double:
  assumes "near x v 0" "v = rv (Fin n E)" "\<bar>n\<bar> \<le> 2 ^ 53" "- 1074 \<le> E" "\<bar>v\<bar> \<le> 2 powi 1023"
  shows "near (to_double x) v 0"
proof -
  obtain m e where x: "x = Fin m e" "rv (Fin m e) = v" using assms(1) unfolding near_exact by blast
  have "near (fp_round (int 53) (- 1074) 1023 m e) (rv (Fin m e)) 0"
    by (rule fp_round_exact [where n = n and E = E]) (use x(2) assms in \<open>simp_all only: zero_less_numeral\<close>)
  then show ?thesis by (simp only: x to_double.simps of_nat_numeral)
qed

lemma exact_ext_round:
  assumes "rv (Fin m e) = rv (Fin n E)" "\<bar>n\<bar> \<le> 2 ^ 64" "- 16445 \<le> E" "\<bar>rv (Fin m e)\<bar> \<le> 2 powi 1023"
  shows "near (ext_round m e) (rv (Fin m e)) 0"
proof -
  have "(2::real) powi 1023 \<le> 2 powi 16383" by (rule two_powi_mono) simp
  then have "near (fp_round (int 64) (- 16445) 16383 m e) (rv (Fin m e)) 0"
    using assms by (intro fp_round_exact [where n = n and E = E] order_trans [OF assms(4)]) (simp_all only: zero_less_numeral)
  then show ?thesis by (simp only: ext_round_def of_nat_numeral)
qed

lemma exact_sub:
  assumes "near x v 0" "near y w 0" "v - w = rv (Fin n E)" "\<bar>n\<bar> \<le> 2 ^ 64" "- 16445 \<le> E" "\<bar>v - w\<bar> \<le> 2 powi 1023"
  shows "near (d_sub x y) (v - w) 0"
proof -
  obtain m1 e1 where x: "x = Fin m1 e1" "rv (Fin m1 e1) = v" using assms(1) unfolding near_exact by blast
  obtain m2 e2 where y: "y = Fin m2 e2" "rv (Fin m2 e2) = w" using assms(2) unfolding near_exact by blast
  obtain a b e where al: "align m1 e1 (- m2) e2 = (a, b, e)" by (metis prod_cases3)
  have "rv (Fin (a + b) e) = rv (Fin m1 e1) + rv (Fin (- m2) e2)"
    using rv_align [OF al] by (simp only: rv.simps of_int_add distrib_right)
  also have "\<dots> = v - w" using x(2) y(2) by simp
  finally have v: "rv (Fin (a + b) e) = v - w" .
  have "near (ext_round (a + b) e) (rv (Fin (a + b) e)) 0"
    by (rule exact_ext_round [where n = n and E = E]) (use assms v in \<open>simp_all only:\<close>)
  then show ?thesis by (simp only: v x(1) y(1) d_sub_def d_neg.simps d_add.simps al Let_def prod.case)
qed

section \<open>The fraction of a double\<close>

text \<open>The fraction of a non-negative \<open>double\<close> is one itself and lies a last place below one.\<close>

lemma fraction_double:
  assumes "is_double (Fin m e)" "0 \<le> m"
  obtains n E where "rv (Fin m e) - of_int (d_trunc (Fin m e)) = rv (Fin n E)" "0 \<le> n" "n \<le> 2 ^ 53"
    "- 1074 \<le> E" "rv (Fin n E) \<le> 1 - 2 powi (- 53)"
proof (cases "0 \<le> e \<or> m = 0")
  case True
  then have "rv (Fin m e) - of_int (d_trunc (Fin m e)) = rv (Fin 0 0)" by (auto simp: power_int_def)
  moreover have "(2::real) powi (- 53) \<le> 2 powi 0" by (rule two_powi_mono) simp
  ultimately show thesis by (intro that [of 0 0]) simp_all
next
  case False
  define k where "k = nat (- e)"
  have k: "e = - int k" "0 < k" using False by (simp_all add: k_def)
  define n where "n = m mod 2 ^ k"
  have n: "0 \<le> n" "n \<le> m" "n \<le> 2 ^ k - 1" using assms(2) by (simp_all add: n_def zmod_le_nonneg_dividend)
  have m: "m \<le> 2 ^ 53" "- 1074 \<le> e" using assms False by simp_all
  have p: "(2::real) ^ k * 2 powi e = 1" by (simp add: k power_int_minus)
  have "m = m div 2 ^ k * 2 ^ k + n" unfolding n_def by (rule div_mult_mod_eq [symmetric])
  then have "real_of_int m = of_int (m div 2 ^ k * 2 ^ k + n)" by (rule arg_cong)
  then have "rv (Fin m e) = of_int (m div 2 ^ k * 2 ^ k + n) * 2 powi e" by (metis rv.simps(1))
  also have "\<dots> = (of_int (m div 2 ^ k) * 2 ^ k + of_int n) * 2 powi e" by simp
  finally have "rv (Fin m e) = of_int (m div 2 ^ k) * (2 ^ k * 2 powi e) + rv (Fin n e)"
    by (simp only: distrib_right mult.assoc rv.simps(1) [of n])
  moreover have "d_trunc (Fin m e) = m div 2 ^ k" using False assms(2) by (simp add: k_def)
  ultimately have v: "rv (Fin m e) - of_int (d_trunc (Fin m e)) = rv (Fin n e)" by (simp add: p)
  have "rv (Fin n e) \<le> 1 - 2 powi (- 53)"
  proof (cases "k \<le> 53")
    case True
    have "real_of_int n \<le> of_int (2 ^ k - 1)" using n(3) by (simp only: of_int_le_iff)
    then have "rv (Fin n e) \<le> (2 ^ k - 1) * 2 powi e" by simp
    also have "\<dots> = 1 - 2 powi e" by (simp only: left_diff_distrib p mult_1)
    finally have "rv (Fin n e) \<le> 1 - 2 powi e" .
    moreover have "(2::real) powi (- 53) \<le> 2 powi e" by (rule two_powi_mono) (use True k in simp)
    ultimately show ?thesis by linarith
  next
    case False
    have "real_of_int n \<le> 2 ^ 53" using n(2) m(1) by (metis of_int_le_iff of_int_numeral of_int_power order_trans)
    moreover have "(2::real) powi e \<le> 2 powi (- 54)" by (rule two_powi_mono) (use False k in simp)
    ultimately have "rv (Fin n e) \<le> 2 ^ 53 * 2 powi (- 54)" unfolding rv.simps by (rule mult_mono) simp_all
    also have "\<dots> \<le> 1 - 2 powi (- 53)" by (simp add: power_int_def power_divide)
    finally show ?thesis .
  qed
  with v n m show thesis by (intro that [of n e]) simp_all
qed

lemma near_fraction:
  assumes "is_double (Fin m e)" "0 \<le> m"
  defines "f \<equiv> rv (Fin m e) - of_int (d_trunc (Fin m e))"
  shows "near (d_sub (Fin m e) (d_int (d_trunc (Fin m e)))) f 0"
    "near (to_double (d_sub (Fin m e) (d_int (d_trunc (Fin m e))))) f 0"
    "0 \<le> f" "f \<le> 1 - 2 powi (- 53)"
proof -
  obtain n E where f: "f = rv (Fin n E)" "0 \<le> n" "n \<le> 2 ^ 53" "- 1074 \<le> E" "rv (Fin n E) \<le> 1 - 2 powi (- 53)"
    unfolding f_def by (rule fraction_double [OF assms(1,2)])
  show "0 \<le> f" "f \<le> 1 - 2 powi (- 53)" using f by simp_all
  moreover have "(2::real) powi 0 \<le> 2 powi 1023" by (rule two_powi_mono) simp
  ultimately have "\<bar>f\<bar> \<le> 2 powi 1023" using two_powi_pos [of "- 53"] by (simp only: power_int_0_right)
  note small = this
  show 1: "near (d_sub (Fin m e) (d_int (d_trunc (Fin m e)))) f 0"
    unfolding f_def by (rule exact_sub [OF near_self near_int f(1) [unfolded f_def] _ _ small [unfolded f_def]]) (use f in simp_all)
  show "near (to_double (d_sub (Fin m e) (d_int (d_trunc (Fin m e))))) f 0"
    by (rule exact_to_double [OF 1 f(1) _ _ small]) (use f in simp_all)
qed

text \<open>The absolute value, which the code computes as \<open>0 - value\<close>.\<close>

lemma near_negated:
  assumes "is_double (Fin m e)" "\<bar>rv (Fin m e)\<bar> \<le> 2 powi 1023"
  shows "near (to_double (d_sub (d_int 0) (Fin m e))) (- rv (Fin m e)) 0"
proof -
  have d: "\<bar>- m\<bar> \<le> 2 ^ 53" "- 1074 \<le> e \<or> m = 0" using assms(1) by auto
  define E where "E = (if m = 0 then 0 else e)"
  have v: "- rv (Fin m e) = rv (Fin (- m) E)" by (simp add: E_def)
  have E: "- 1074 \<le> E" using d(2) by (auto simp: E_def)
  have "near (d_sub (d_int 0) (Fin m e)) (of_int 0 - rv (Fin m e)) 0"
    by (rule exact_sub [OF near_int near_self, where n = "- m" and E = E])
       (use d E assms(2) v in \<open>simp_all del: rv.simps\<close>)
  then have "near (d_sub (d_int 0) (Fin m e)) (- rv (Fin m e)) 0" by (simp only: of_int_0 diff_0)
  then show ?thesis
    by (rule exact_to_double [OF _ v d(1) E]) (use assms(2) in \<open>simp only: abs_minus_cancel\<close>)
qed

section \<open>The scaled fraction\<close>

lemma power10_binade:
  assumes "p \<le> 9"
  shows "\<exists>k \<in> {0, 3, 6, 9, 13, 16, 19, 23, 26, 29 :: int}.
    (p \<noteq> 0 \<longrightarrow> 11 / 10 * 2 powi k \<le> (10::real) ^ p) \<and> (10::real) ^ p < 2 powi (k + 1)"
proof -
  have "p = 0 \<or> p = 1 \<or> p = 2 \<or> p = 3 \<or> p = 4 \<or> p = 5 \<or> p = 6 \<or> p = 7 \<or> p = 8 \<or> p = 9" using assms by auto
  then show ?thesis by (elim disjE) simp_all
qed

text \<open>
  A number that is rounded twice, to the extended format and to \<open>double\<close>; \<open>u\<close> is half a unit in the
  last place of the first rounding.
\<close>

lemma round_twice:
  assumes "0 \<le> m" "rv (Fin m e) + u < 2 powi (k + 1)" "0 \<le> k" "k \<le> 29" "u = 2 powi (k - 64)"
  obtains m1 e1 m2 e2 where "ext_round m e = Fin m1 e1" "to_double (Fin m1 e1) = Fin m2 e2" "0 \<le> m2"
    "\<bar>rv (Fin m2 e2) - rv (Fin m e)\<bar> \<le> 2049 * u"
proof -
  have u: "0 < u" "2 powi (k - 53) = 2048 * u"
  proof -
    have "(2::real) powi (k - 53) = 2 powi (k - 64) * 2 powi 11" by (simp only: two_powi_add [symmetric]) simp
    then show "0 < u" "2 powi (k - 53) = 2048 * u" by (simp_all add: assms(5))
  qed
  have "0 \<le> rv (Fin m e)" using assms(1) by simp
  then have v: "0 \<le> rv (Fin m e)" "\<bar>rv (Fin m e)\<bar> < 2 powi (k + 1)" using assms(2) u(1) by linarith+
  have "near (ext_round m e) (rv (Fin m e)) u"
    unfolding ext_round_def assms(5) by (rule fp_round_binade) (use v(2) assms(3,4) in simp_all)
  then obtain m1 e1 where r1: "ext_round m e = Fin m1 e1" "\<bar>rv (Fin m1 e1) - rv (Fin m e)\<bar> \<le> u" by (rule nearE)
  have "near (to_double (Fin m1 e1)) (rv (Fin m1 e1)) (2048 * u)"
    unfolding to_double.simps u(2) [symmetric]
    by (rule fp_round_binade) (use r1(2) v assms(2-4) u(1) in \<open>simp_all only: abs_less_iff, linarith+\<close>)
  then obtain m2 e2 where r2: "to_double (Fin m1 e1) = Fin m2 e2" "\<bar>rv (Fin m2 e2) - rv (Fin m1 e1)\<bar> \<le> 2048 * u"
    by (rule nearE)
  have "0 \<le> m1" using fp_round_nonneg [OF assms(1)] r1(1) unfolding ext_round_def by blast
  from fp_round_nonneg [OF this] r2(1) have "0 \<le> m2" unfolding to_double.simps by blast
  moreover have "\<bar>rv (Fin m2 e2) - rv (Fin m e)\<bar> \<le> 2049 * u" using r1(2) r2(2) by linarith
  ultimately show thesis using r1(1) r2(1) by (intro that)
qed

text \<open>
  A fraction times a power of ten, rounded twice, keeps six decimals and stays below the power.
\<close>

lemma scaled_fraction:
  assumes "near x f 0" "0 \<le> f" "f \<le> 1 - 2 powi (- 53)" "1 \<le> p" "p \<le> 9"
  obtains m e where "to_double (d_mul x (d_int (10 ^ p))) = Fin m e" "0 \<le> m" "rv (Fin m e) < 10 ^ p"
    "\<bar>rv (Fin m e) - f * 10 ^ p\<bar> \<le> 1 / 10 ^ 6" "is_double (Fin m e)"
proof -
  obtain mx ex where x: "x = Fin mx ex" "rv (Fin mx ex) = f" using assms(1) unfolding near_exact by blast
  obtain k where "k \<in> {0, 3, 6, 9, 13, 16, 19, 23, 26, 29}"
    and k: "p \<noteq> 0 \<Longrightarrow> 11 / 10 * 2 powi k \<le> (10::real) ^ p" "(10::real) ^ p < 2 powi (k + 1)"
    using power10_binade [OF assms(5)] by blast
  then have k: "11 / 10 * 2 powi k \<le> (10::real) ^ p" "(10::real) ^ p < 2 powi (k + 1)" "0 \<le> k" "k \<le> 29"
    using assms(4) k by auto
  define v where "v = f * 10 ^ p"
  have v: "rv (Fin (mx * 10 ^ p) ex) = v" by (simp add: v_def flip: x(2))
  define u where "u = (2::real) powi (k - 64)"
  have u: "0 < u" "2 powi k * 2 powi (- 53) = 2048 * u" "2049 * u \<le> 1 / 10 ^ 6"
  proof -
    have "(2::real) powi k * 2 powi (- 53) = u * 2 powi 11" unfolding u_def by (simp only: two_powi_add [symmetric]) simp
    moreover have "u \<le> 2 powi (- 35)" unfolding u_def by (rule two_powi_mono) (use k in simp)
    moreover have "2049 * 2 powi (- 35) \<le> (1::real) / 10 ^ 6" by (simp add: power_int_def power_divide)
    ultimately show "0 < u" "2 powi k * 2 powi (- 53) = 2048 * u" "2049 * u \<le> 1 / 10 ^ 6" by (simp_all add: u_def)
  qed
  have "v \<le> 10 ^ p - 10 ^ p * 2 powi (- 53)"
    using mult_right_mono [OF assms(3), of "10 ^ p"] by (simp add: v_def left_diff_distrib mult.commute)
  moreover have "11 / 10 * (2 powi k * 2 powi (- 53)) \<le> (10::real) ^ p * 2 powi (- 53)"
    using mult_right_mono [OF k(1), of "2 powi (- 53)"] by (simp only: mult.assoc two_powi_pos less_imp_le)
  ultimately have gap: "v \<le> 10 ^ p - 11 / 10 * (2048 * u)" by (simp only: u(2))
  have "0 \<le> mx" using assms(2) two_powi_pos [of ex] by (auto simp: zero_le_mult_iff not_le simp flip: x(2))
  then have mx: "0 \<le> mx * 10 ^ p" by simp
  have room: "rv (Fin (mx * 10 ^ p) ex) + u < 2 powi (k + 1)" unfolding v using gap u(1) k(2) by linarith
  obtain m1 e1 m2 e2 where r: "ext_round (mx * 10 ^ p) ex = Fin m1 e1" "to_double (Fin m1 e1) = Fin m2 e2" "0 \<le> m2"
    "\<bar>rv (Fin m2 e2) - v\<bar> \<le> 2049 * u"
    unfolding v [symmetric] by (rule round_twice [OF mx room k(3,4) u_def])
  have "to_double (d_mul x (d_int (10 ^ p))) = Fin m2 e2" using r(1,2) by (simp add: x(1) d_int_def)
  moreover have "rv (Fin m2 e2) < 10 ^ p" using r(4) gap u(1) by linarith
  moreover have "\<bar>rv (Fin m2 e2) - f * 10 ^ p\<bar> \<le> 1 / 10 ^ 6" using r(4) u(3) by (simp only: v_def)
  moreover have "is_double (Fin m2 e2)" using to_double_is_double [of "Fin m1 e1"] by (simp only: r(2))
  ultimately show thesis using r(3) by (intro that)
qed

end
