(* ===== verification/Etoa_Real.thy ===== *)
theory Etoa_Real
  imports Dbl_Real Ftoa
begin

text \<open>
  The estimate of the decimal exponent and the approximation of the power of ten in \<open>_etoa\<close> of
  \<^verbatim>\<open>libc/stdio.c\<close>, followed with their rounding errors: the quotient that \<open>_etoa\<close> hands to
  \<open>_ftoa\<close> is far inside the range of fixed notation.
\<close>

section \<open>The decimal exponent\<close>

text \<open>The value of the mantissa, and the estimate of the logarithm from it and the binary exponent.\<close>

lemma mantissa_value:
  obtains fr where "bits_dbl ((U AND (push_bit 52 1 - 1)) OR push_bit 52 1023) = Fin fr (- 52)"
    "1 \<le> rv (Fin fr (- 52))" "rv (Fin fr (- 52)) < 2"
proof -
  obtain fr where fr: "bits_dbl ((U AND (push_bit 52 1 - 1)) OR push_bit 52 1023) = Fin fr (- 52)"
    "2 ^ 52 \<le> fr" "fr < 2 ^ 53"
    using bits_dbl_mantissa [of U] by blast
  have pw: "(2::real) powi (- 52) = 1 / 2 ^ 52" by (simp add: power_int_def power_divide)
  have "real_of_int (2 ^ 52) \<le> real_of_int fr" "real_of_int fr < real_of_int (2 ^ 53)"
    using fr(2,3) by (simp_all only: of_int_le_iff of_int_less_iff)
  then have "1 \<le> rv (Fin fr (- 52))" "rv (Fin fr (- 52)) < 2" by (simp_all add: pw field_simps)
  with fr(1) show thesis by (rule that)
qed

lemma log10_estimate:
  assumes f: "near F f 0" "1 \<le> f" "f < 2" and x: "- 1023 \<le> real_of_int x" "real_of_int x \<le> 1023"
  shows "near (d_add (d_add (d_dec 1760912590558 13) (d_mul (d_int x) (d_dec 301029995663981 15)))
      (d_mul (d_sub F (Fin 3 (- 1))) (d_dec 289529654602168 15)))
    (of_int 1760912590558 / 10 ^ 13 + of_int x * (of_int 301029995663981 / 10 ^ 15) +
      (f - 3 / 2) * (of_int 289529654602168 / 10 ^ 15)) (6000 * eps)"
proof -
  have xa: "\<bar>real_of_int x\<bar> \<le> 1023" using x by linarith
  have mb: "near (d_mul (d_int x) (d_dec 301029995663981 15)) (of_int x * (of_int 301029995663981 / 10 ^ 15)) (5000 * eps)"
    by (rule near_mulI [OF near_int near_dec xa, of _ _ 1]) (simp_all add: eps_def)
  have ab: "near (d_add (d_dec 1760912590558 13) (d_mul (d_int x) (d_dec 301029995663981 15)))
      (of_int 1760912590558 / 10 ^ 13 + of_int x * (of_int 301029995663981 / 10 ^ 15)) (5010 * eps)"
    by (rule near_addI [OF near_dec mb]) (use x in \<open>simp_all add: eps_def\<close>)
  have "near (Fin 3 (- 1)) (3 / 2) 0" by (simp add: near_def power_int_def)
  with f(1) have sb: "near (d_sub F (Fin 3 (- 1))) (f - 3 / 2) (2 * eps)"
    by (rule near_subI) (use f in \<open>simp_all add: eps_def\<close>)
  have mc: "near (d_mul (d_sub F (Fin 3 (- 1))) (d_dec 289529654602168 15))
      ((f - 3 / 2) * (of_int 289529654602168 / 10 ^ 15)) (10 * eps)"
    by (rule near_mulI [OF sb near_dec, where A = 1 and B = 1])
      (use f in \<open>simp_all add: eps_def abs_le_iff\<close>)
  show ?thesis by (rule near_addI [OF ab mc]) (use f x in \<open>simp_all add: eps_def abs_le_iff\<close>)
qed

lemma etoa_log10_bounds:
  fixes U :: u64
  defines "x \<equiv> uint (drop_bit 52 U AND 0x7FF) - 1023"
  assumes "- 1023 \<le> x" "x \<le> 1023"
  shows "301029 / 1000000 * of_int x - 1 < real_of_int (etoa_log10 U)"
    "real_of_int (etoa_log10 U) < 301030 / 1000000 * of_int x + 2"
    "- 307 \<le> etoa_log10 U" "etoa_log10 U \<le> 308"
proof -
  define F where "F = bits_dbl ((U AND (push_bit 52 1 - 1)) OR push_bit 52 1023)"
  define f where "f = rv F"
  have f: "near F f 0" "1 \<le> f" "f < 2"
    by (rule mantissa_value [of U], simp add: f_def F_def near_self del: rv.simps)+
  have xr: "- 1023 \<le> real_of_int x" "real_of_int x \<le> 1023" using assms(2,3) by simp_all
  define b where "b = of_int x * (of_int 301029995663981 / 10 ^ 15 :: real)"
  define c where "c = (f - 3 / 2) * (of_int 289529654602168 / 10 ^ 15 :: real)"
  define L where "L = of_int 1760912590558 / 10 ^ 13 + b + c"
  note tr = near_trunc [OF log10_estimate [OF f xr], folded b_def c_def, folded L_def]
  have log: "etoa_log10 U = d_trunc (d_add (d_add (d_dec 1760912590558 13) (d_mul (d_int x) (d_dec 301029995663981 15)))
      (d_mul (d_sub F (Fin 3 (- 1))) (d_dec 289529654602168 15)))"
    by (simp only: etoa_log10_def Let_def x_def F_def)
  have eb: "6000 * eps = 6 / 1000000" by (simp add: eps_def)
  note tr = tr [folded log, unfolded eb]
  have Lb: "3 / 100 + b < L" "L < 33 / 100 + b" using f(2,3) by (simp_all add: L_def c_def) argo+
  have bx: "3010299 / 10000000 * of_int x - 1 / 1000 \<le> b" "b \<le> 3010299 / 10000000 * of_int x + 1 / 1000"
    using xr by (simp_all add: b_def)
  show "301029 / 1000000 * of_int x - 1 < real_of_int (etoa_log10 U)"
    "real_of_int (etoa_log10 U) < 301030 / 1000000 * of_int x + 2"
    using tr(1,2) Lb bx xr by linarith+
  have "- 308 < real_of_int (etoa_log10 U)" using tr(1,4) Lb bx xr by (cases "L < - 6 / 1000000") linarith+
  then show "- 307 \<le> etoa_log10 U" by linarith
  have "real_of_int (etoa_log10 U) < 309" using tr(2,3) Lb bx xr by (cases "6 / 1000000 < L") linarith+
  then show "etoa_log10 U \<le> 308" by linarith
qed

section \<open>The power of ten\<close>

lemma exp_fraction_bounds:
  fixes Z :: real
  assumes "- 105 / 100 \<le> Z" "Z \<le> 36 / 100"
  defines "Q1 \<equiv> Z\<^sup>2 / 14"
  defines "Q2 \<equiv> Z\<^sup>2 / (10 + Q1)"
  defines "Q3 \<equiv> Z\<^sup>2 / (6 + Q2)"
  shows "0 \<le> Z\<^sup>2" "Z\<^sup>2 \<le> 12 / 10" "0 \<le> Q1" "Q1 \<le> 1" "0 \<le> Q2" "Q2 \<le> 1" "0 \<le> Q3" "Q3 \<le> 1"
    "- 7 / 10 \<le> 2 * Z / (2 - Z + Q3)" "2 * Z / (2 - Z + Q3) \<le> 44 / 100"
proof -
  have "\<bar>Z\<bar> \<le> 105 / 100" using assms(1,2) by linarith
  then have "\<bar>Z\<bar>\<^sup>2 \<le> (105 / 100)\<^sup>2" by (rule power_mono) simp
  then show z: "0 \<le> Z\<^sup>2" "Z\<^sup>2 \<le> 12 / 10" by (simp_all add: power2_eq_square)
  show q1: "0 \<le> Q1" "Q1 \<le> 1" using z by (simp_all add: Q1_def)
  show q2: "0 \<le> Q2" "Q2 \<le> 1" using z q1 by (simp_all add: Q2_def)
  show q3: "0 \<le> Q3" "Q3 \<le> 1" using z q2 by (simp_all add: Q3_def)
  have d: "0 < 2 - Z + Q3" using assms(2) q3 by linarith
  show "- 7 / 10 \<le> 2 * Z / (2 - Z + Q3)" "2 * Z / (2 - Z + Q3) \<le> 44 / 100"
    unfolding pos_le_divide_eq [OF d] pos_divide_le_eq [OF d] using assms(1,2) q3 by argo+
qed


text \<open>The binary exponent, the nearest one up to the truncation of a negative number.\<close>

lemma pow10_exp2:
  assumes "- 307 \<le> n" "n \<le> 308"
  defines "k \<equiv> d_trunc (d_add (d_mul (d_int n) (d_dec 3321928094887362 15)) d_half)"
  shows "3321928 / 1000000 * of_int n - 51 / 100 < real_of_int k" "real_of_int k < 3321928 / 1000000 * of_int n + 151 / 100"
    "- 1022 \<le> k" "k \<le> 1023"
proof -
  have nr: "- 307 \<le> real_of_int n" "real_of_int n \<le> 308" using assms by simp_all
  then have na: "\<bar>real_of_int n\<bar> \<le> 308" by linarith
  define Y where "Y = of_int n * (of_int 3321928094887362 / 10 ^ 15) + (1 / 2 :: real)"
  define t where "t = d_add (d_mul (d_int n) (d_dec 3321928094887362 15)) d_half"
  have half: "near d_half (1 / 2) 0" by (simp add: near_def d_half_def power_int_def)
  have "near (d_mul (d_int n) (d_dec 3321928094887362 15)) (of_int n * (of_int 3321928094887362 / 10 ^ 15)) (1000 * eps)"
    by (rule near_mulI [OF near_int near_dec na, of _ _ 4]) (simp_all add: eps_def)
  from near_addI [OF this half] have "near t Y (1002 * eps)"
    unfolding t_def Y_def using na by (simp add: eps_def abs_mult)
  note tr = near_trunc [OF this, unfolded t_def, folded k_def]
  have e1: "1002 * eps \<le> 1 / 100000" by (simp add: eps_def)
  have Yn: "Y - 1 / 2 - 1 / 10000 \<le> 3321928 / 1000000 * of_int n" "3321928 / 1000000 * of_int n \<le> Y - 1 / 2 + 1 / 10000"
    using nr by (simp_all add: Y_def)
  show lo: "3321928 / 1000000 * of_int n - 51 / 100 < real_of_int k"
    and "real_of_int k < 3321928 / 1000000 * of_int n + 151 / 100" using tr(1,2) e1 Yn by linarith+
  have "- 1023 < real_of_int k" using lo nr by linarith
  then show "- 1022 \<le> k" by linarith
  have "real_of_int k < 1024"
    using tr(2,3) e1 Yn nr unfolding Y_def by (cases "1002 * eps < Y") linarith+
  then show "k \<le> 1023" by linarith
qed

text \<open>What the exponent leaves for the exponential function.\<close>

lemma pow10_argument:
  fixes n k :: int
  assumes na: "\<bar>real_of_int n\<bar> \<le> 308" and ka: "\<bar>real_of_int k\<bar> \<le> 1023"
    and Z: "- 105 / 100 \<le> Z" "Z \<le> 36 / 100"
    and Z_def: "Z = of_int n * (of_int 2302585092994046 / 10 ^ 15) - of_int k * (of_int 6931471805599453 / 10 ^ 16 :: real)"
    and z_def: "z = to_double (d_sub (d_mul (d_int n) (d_dec 2302585092994046 15)) (d_mul (d_int k) (d_dec 6931471805599453 16)))"
  shows "near z Z (3000 * eps)"
proof -
  have mn: "near (d_mul (d_int n) (d_dec 2302585092994046 15)) (of_int n * (of_int 2302585092994046 / 10 ^ 15)) (700 * eps)"
    by (rule near_mulI [OF near_int near_dec na, of _ _ 3]) (simp_all add: eps_def)
  have mk: "near (d_mul (d_int k) (d_dec 6931471805599453 16)) (of_int k * (of_int 6931471805599453 / 10 ^ 16)) (2100 * eps)"
    by (rule near_mulI [OF near_int near_dec ka, of _ _ 1]) (simp_all add: eps_def)
  have "near (d_sub (d_mul (d_int n) (d_dec 2302585092994046 15)) (d_mul (d_int k) (d_dec 6931471805599453 16))) Z (2900 * eps)"
    unfolding Z_def by (rule near_subI [OF mn mk]) (use na ka in \<open>simp_all add: eps_def abs_mult\<close>)
  from near_to_doubleI [OF this, of "3000 * eps"] show ?thesis
    using Z by (simp add: z_def eps_def abs_le_iff)
qed

text \<open>The continued fraction, which approximates the exponential of what the exponent leaves.\<close>

lemma pow10_fraction:
  assumes z: "near z Z (3000 * eps)" and Z: "- 105 / 100 \<le> Z" "Z \<le> 36 / 100"
    and z2_def: "z2 = to_double (d_mul z z)"
  obtains mf ef where "d_add (d_int 1) (d_div (d_mul (d_int 2) z) (d_add (d_sub (d_int 2) z)
      (d_div z2 (d_add (d_int 6) (d_div z2 (d_add (d_int 10) (d_div z2 (d_int 14)))))))) = Fin mf ef"
    "29 / 100 \<le> rv (Fin mf ef)" "rv (Fin mf ef) \<le> 145 / 100"
proof -
  note q = exp_fraction_bounds [OF Z]
  define Q where "Q = Z\<^sup>2 / (6 + Z\<^sup>2 / (10 + Z\<^sup>2 / 14))"
  define P where "P = 2 * Z / (2 - Z + Q)"
  have Q: "0 \<le> Q" "Q \<le> 1" and P: "- 7 / 10 \<le> P" "P \<le> 44 / 100"
    using q(7-10) by (simp_all only: Q_def P_def)
  define fac where "fac = d_add (d_int 1) (d_div (d_mul (d_int 2) z) (d_add (d_sub (d_int 2) z)
    (d_div z2 (d_add (d_int 6) (d_div z2 (d_add (d_int 10) (d_div z2 (d_int 14))))))))"
  have za: "\<bar>Z\<bar> \<le> 105 / 100" using Z by (simp add: abs_le_iff)
  have "near (d_mul z z) (Z\<^sup>2) (6500 * eps)"
    unfolding power2_eq_square by (rule near_mulI [OF z z za za]) (simp_all add: eps_def)
  from near_to_doubleI [OF this, of "7000 * eps"] have z2: "near z2 (Z\<^sup>2) (7000 * eps)"
    using q(1,2) by (simp add: z2_def eps_def)
  have "near (d_div z2 (d_int 14)) (Z\<^sup>2 / 14) (15000 * eps)"
    using near_divI [OF z2 near_int, of 14 1] q(1-4) by (simp add: eps_def)
  from near_addI [OF near_int this, of 10 "15010 * eps"]
  have "near (d_add (d_int 10) (d_div z2 (d_int 14))) (10 + Z\<^sup>2 / 14) (15010 * eps)"
    using q(3,4) by (simp add: eps_def)
  from near_divI [OF z2 this, of 1 "45000 * eps"]
  have "near (d_div z2 (d_add (d_int 10) (d_div z2 (d_int 14)))) (Z\<^sup>2 / (10 + Z\<^sup>2 / 14)) (45000 * eps)"
    using q(3-6) by (simp add: eps_def)
  from near_addI [OF near_int this, of 6 "45010 * eps"]
  have "near (d_add (d_int 6) (d_div z2 (d_add (d_int 10) (d_div z2 (d_int 14))))) (6 + Z\<^sup>2 / (10 + Z\<^sup>2 / 14)) (45010 * eps)"
    using q(5,6) by (simp add: eps_def)
  from near_divI [OF z2 this, of 1 "105000 * eps"]
  have "near (d_div z2 (d_add (d_int 6) (d_div z2 (d_add (d_int 10) (d_div z2 (d_int 14)))))) Q (105000 * eps)"
    unfolding Q_def using q(5-8) by (simp add: eps_def)
  moreover have "near (d_sub (d_int 2) z) (2 - Z) (3010 * eps)"
    using near_subI [OF near_int z, of 2 "3010 * eps"] za by (simp add: eps_def)
  ultimately have den: "near (d_add (d_sub (d_int 2) z)
      (d_div z2 (d_add (d_int 6) (d_div z2 (d_add (d_int 10) (d_div z2 (d_int 14))))))) (2 - Z + Q) (109000 * eps)"
    by (intro near_addI [where c = "3010 * eps" and d = "105000 * eps"])
      (use Z Q in \<open>simp_all add: eps_def abs_le_iff\<close>)
  have "near (d_mul (d_int 2) z) (of_int 2 * Z) (6010 * eps)"
    by (rule near_mulI [OF near_int z _ za, of _ 2]) (simp_all add: eps_def)
  from near_divI [OF this den, of 1 "232000 * eps"]
  have "near (d_div (d_mul (d_int 2) z) (d_add (d_sub (d_int 2) z)
      (d_div z2 (d_add (d_int 6) (d_div z2 (d_add (d_int 10) (d_div z2 (d_int 14)))))))) P (232000 * eps)"
    using Z Q P by (simp add: eps_def abs_le_iff P_def)
  from near_addI [OF near_int this, of 1 "233000 * eps"]
  have "near fac (1 + P) (233000 * eps)"
    unfolding fac_def using P by (simp add: eps_def abs_le_iff)
  then obtain mf ef where f: "fac = Fin mf ef" and fe: "\<bar>rv (Fin mf ef) - (1 + P)\<bar> \<le> 233000 * eps"
    by (rule nearE)
  have "233000 * eps \<le> 1 / 1000" by (simp add: eps_def)
  then have fb: "29 / 100 \<le> rv (Fin mf ef)" "rv (Fin mf ef) \<le> 145 / 100" using fe P by linarith+
  with f fac_def show thesis by (intro that) (simp_all only:)
qed

text \<open>The power of two, which the code makes from its bits, times the fraction.\<close>

lemma pow10_scale:
  assumes kl: "- 1022 \<le> k" and ku: "k \<le> 1023" and fb: "29 / 100 \<le> rv (Fin mf ef)" "rv (Fin mf ef) \<le> 145 / 100"
  obtains mr er where "to_double (d_mul (Fin (2 ^ 52) (k - 52)) (Fin mf ef)) = Fin mr er"
    "2 powi k / 4 \<le> rv (Fin mr er)" "rv (Fin mr er) \<le> 7 / 4 * 2 powi k"
proof -
  let ?p = "(2::real) powi k"
  define v where "v = rv (Fin (2 ^ 52 * mf) (k - 52 + ef))"
  have "?p = 2 powi (k - 52) * 2 powi 52" by (simp only: two_powi_add [symmetric]) simp
  then have "(2::real) powi (k - 52 + ef) * 2 ^ 52 = ?p * 2 powi ef" by (simp only: two_powi_add) simp
  then have v: "v = ?p * rv (Fin mf ef)" by (simp add: v_def)
  have v1: "29 / 100 * ?p \<le> v" "v \<le> 145 / 100 * ?p"
    using fb unfolding v by (simp_all only: mult.commute [of ?p]) (auto intro: mult_right_mono)
  have p: "2 powi (- 1060) \<le> ?p / 4" "?p \<le> 2 powi 1023" "0 < ?p"
  proof -
    have "(2::real) powi (- 1060) \<le> 2 powi (k + - 2)" by (rule two_powi_mono) (use kl in simp)
    also have "\<dots> = ?p / 4" unfolding two_powi_add by (simp add: power_int_def power_divide)
    finally show "2 powi (- 1060) \<le> ?p / 4" .
    show "?p \<le> 2 powi 1023" by (rule two_powi_mono) (rule ku)
  qed simp
  have v2: "2 powi (- 1060) \<le> \<bar>v\<bar>" "\<bar>v\<bar> \<le> 7 / 4 * 2 powi 1023" using v1 p by linarith+
  obtain mw ew where w: "ext_round (2 ^ 52 * mf) (k - 52 + ef) = Fin mw ew" "\<bar>rv (Fin mw ew) - v\<bar> \<le> \<bar>v\<bar> / 16"
    using ext_round_scaled [OF v2 [unfolded v_def], folded v_def] by (rule nearE)
  have w1: "27 / 100 * ?p \<le> rv (Fin mw ew)" "rv (Fin mw ew) \<le> 155 / 100 * ?p" using w(2) v1 p(3) by linarith+
  have w2: "2 powi (- 1060) \<le> \<bar>rv (Fin mw ew)\<bar>" "\<bar>rv (Fin mw ew)\<bar> \<le> 7 / 4 * 2 powi 1023" using w1 p by linarith+
  obtain mr er where r: "to_double (Fin mw ew) = Fin mr er" "\<bar>rv (Fin mr er) - rv (Fin mw ew)\<bar> \<le> \<bar>rv (Fin mw ew)\<bar> / 16"
    using to_double_scaled [OF w2] by (rule nearE)
  have r1: "?p / 4 \<le> rv (Fin mr er)" "rv (Fin mr er) \<le> 7 / 4 * ?p" using r(2) w1 p(3) by linarith+
  have "to_double (d_mul (Fin (2 ^ 52) (k - 52)) (Fin mf ef)) = Fin mr er" by (simp only: d_mul.simps w(1) r(1))
  with r1 show thesis by (intro that)
qed

lemma etoa_pow10_bounds:
  assumes "- 307 \<le> n" "n \<le> 308"
  obtains m e k where "etoa_pow10 n = Fin m e" "2 powi k / 4 \<le> rv (Fin m e)" "rv (Fin m e) \<le> 7 / 4 * 2 powi k"
    "3321928 / 1000000 * of_int n - 11 / 10 < real_of_int k" "- 1022 \<le> k" "k \<le> 1023"
proof -
  have nr: "- 307 \<le> real_of_int n" "real_of_int n \<le> 308" using assms by simp_all
  then have na: "\<bar>real_of_int n\<bar> \<le> 308" by linarith
  define k where "k = d_trunc (d_add (d_mul (d_int n) (d_dec 3321928094887362 15)) d_half)"
  note k = pow10_exp2 [OF assms, folded k_def]
  have kr: "- 1022 \<le> real_of_int k" "real_of_int k \<le> 1023" using k(3,4) by simp_all
  then have ka: "\<bar>real_of_int k\<bar> \<le> 1023" by linarith
  define Z where "Z = of_int n * (of_int 2302585092994046 / 10 ^ 15) - of_int k * (of_int 6931471805599453 / 10 ^ 16 :: real)"
  have Z: "- 105 / 100 \<le> Z" "Z \<le> 36 / 100" using k(1,2) nr kr by (simp_all add: Z_def)
  define z where "z = to_double (d_sub (d_mul (d_int n) (d_dec 2302585092994046 15))
    (d_mul (d_int k) (d_dec 6931471805599453 16)))"
  obtain mf ef where f: "d_add (d_int 1) (d_div (d_mul (d_int 2) z) (d_add (d_sub (d_int 2) z)
      (d_div (to_double (d_mul z z)) (d_add (d_int 6) (d_div (to_double (d_mul z z)) (d_add (d_int 10)
      (d_div (to_double (d_mul z z)) (d_int 14)))))))) = Fin mf ef"
    "29 / 100 \<le> rv (Fin mf ef)" "rv (Fin mf ef) \<le> 145 / 100"
    by (rule pow10_fraction [OF pow10_argument [OF na ka Z Z_def z_def] Z refl])
  obtain mr er where r: "to_double (d_mul (Fin (2 ^ 52) (k - 52)) (Fin mf ef)) = Fin mr er"
    "2 powi k / 4 \<le> rv (Fin mr er)" "rv (Fin mr er) \<le> 7 / 4 * 2 powi k"
    by (rule pow10_scale [OF k(3,4) f(2,3)])
  have "etoa_pow10 n = Fin mr er"
    unfolding etoa_pow10_def Let_def k_def [symmetric] z_def [symmetric] f(1) bits_dbl_power [OF k(3,4)] by (rule r(1))
  then show thesis using r(2,3) k by (intro that [of mr er k]) (simp_all only: | linarith)+
qed


section \<open>The scaling\<close>

lemma tenth:
  assumes "0 < p" "2 powi (- 1060) \<le> p / 64" "p \<le> 2 powi 1023" "p / 4 \<le> rv (Fin m e)" "rv (Fin m e) \<le> 7 / 4 * p"
  obtains m' e' where "to_double (d_div (Fin m e) (d_int 10)) = Fin m' e'" "p / 64 \<le> rv (Fin m' e')"
proof -
  define v where "v = rv (Fin m e) / 10"
  have ten: "rv (Fin 10 0) = 10" by simp
  obtain mq eq where q: "d_div (Fin m e) (Fin 10 0) = ext_round mq eq" "\<bar>rv (Fin mq eq) - v\<bar> \<le> \<bar>v\<bar> * 2 powi (- 66)"
    using d_div_round [of 10 0 m e] unfolding ten v_def by (metis zero_neq_numeral)
  have v: "p / 40 \<le> v" "v \<le> 7 / 40 * p" using assms(4,5) by (simp_all add: v_def)
  have "(2::real) powi (- 66) = 1 / 2 ^ 66" by (simp add: power_int_def power_divide)
  then have "\<bar>v\<bar> * 2 powi (- 66) \<le> \<bar>v\<bar> * (1 / 16)" by (intro mult_left_mono) simp_all
  then have q1: "p * 23 / 1000 \<le> rv (Fin mq eq)" "rv (Fin mq eq) \<le> p / 4" using q(2) v assms(1) by linarith+
  have q2: "2 powi (- 1060) \<le> \<bar>rv (Fin mq eq)\<bar>" "\<bar>rv (Fin mq eq)\<bar> \<le> 7 / 4 * 2 powi 1023"
    using q1 assms(1-3) by linarith+
  obtain mw ew where w: "ext_round mq eq = Fin mw ew" "\<bar>rv (Fin mw ew) - rv (Fin mq eq)\<bar> \<le> \<bar>rv (Fin mq eq)\<bar> / 16"
    using ext_round_scaled [OF q2] by (rule nearE)
  have w1: "p * 21 / 1000 \<le> rv (Fin mw ew)" "rv (Fin mw ew) \<le> p" using w(2) q1 assms(1) by linarith+
  have w2: "2 powi (- 1060) \<le> \<bar>rv (Fin mw ew)\<bar>" "\<bar>rv (Fin mw ew)\<bar> \<le> 7 / 4 * 2 powi 1023"
    using w1 assms(1-3) by linarith+
  obtain mr er where r: "to_double (Fin mw ew) = Fin mr er" "\<bar>rv (Fin mr er) - rv (Fin mw ew)\<bar> \<le> \<bar>rv (Fin mw ew)\<bar> / 16"
    using to_double_scaled [OF w2] by (rule nearE)
  have "p / 64 \<le> rv (Fin mr er)" using r(2) w1 assms(1) by linarith
  then show thesis using that q(1) w(1) r(1) by (simp add: d_int_def)
qed

lemma etoa_exponent_bounds:
  assumes "0 \<le> m" "is_double (Fin m e)"
  obtains ex fm fe x where "etoa_exponent (Fin m e) = (ex, Fin fm fe)" "0 < rv (Fin fm fe)"
    "rv (Fin m e) \<le> 2048 * rv (Fin fm fe)" "rv (Fin m e) < 2 powi (x + 1)"
    "301029 / 1000000 * of_int x - 2 < real_of_int ex"
proof -
  define U where "U = dbl_bits (Fin m e)"
  define x where "x = uint (drop_bit 52 U AND 0x7FF) - 1023"
  note xb = dbl_bits_exponent [OF assms, folded U_def, folded x_def]
  note lb = etoa_log10_bounds [of U, folded x_def, OF xb(1,2)]
  define n where "n = etoa_log10 U"
  obtain m0 e0 k where F: "etoa_pow10 n = Fin m0 e0" "2 powi k / 4 \<le> rv (Fin m0 e0)"
    "rv (Fin m0 e0) \<le> 7 / 4 * 2 powi k" "3321928 / 1000000 * of_int n - 11 / 10 < real_of_int k"
    "- 1022 \<le> k" "k \<le> 1023"
    by (rule etoa_pow10_bounds [of n, OF lb(3,4) [folded n_def]])
  let ?p = "(2::real) powi k"
  have "- 1023 \<le> real_of_int x" "real_of_int x \<le> 1023" using xb(1,2) by simp_all
  then have "real_of_int x - 5 < real_of_int k" using F(4) lb(1) [folded n_def] by simp
  then have "x + 1 \<le> k + 5" by linarith
  then have "(2::real) powi (x + 1) \<le> 2 powi (k + 5)" by (rule two_powi_mono)
  then have "(2::real) powi (x + 1) \<le> 32 * ?p" by (simp only: two_powi_add) simp
  with xb(3) have val: "rv (Fin m e) \<le> 32 * ?p" by linarith
  have p: "2 powi (- 1060) \<le> ?p / 64" "?p \<le> 2 powi 1023" "0 < ?p"
  proof -
    have "(2::real) powi (- 1060) \<le> 2 powi (k + - 6)" by (rule two_powi_mono) (use F(5) in simp)
    also have "\<dots> = ?p / 64" unfolding two_powi_add by (simp add: power_int_def power_divide)
    finally show "2 powi (- 1060) \<le> ?p / 64" .
    show "?p \<le> 2 powi 1023" by (rule two_powi_mono) (rule F(6))
  qed simp
  have ee: "etoa_exponent (Fin m e) = (if d_less (Fin m e) (Fin m0 e0)
      then (n - 1, to_double (d_div (Fin m0 e0) (d_int 10))) else (n, Fin m0 e0))"
    by (simp only: etoa_exponent_def Let_def U_def [symmetric] n_def [symmetric] F(1))
  have nx: "301029 / 1000000 * of_int x - 2 < real_of_int n" "301029 / 1000000 * of_int x - 2 < real_of_int (n - 1)"
    using lb(1) [folded n_def] by simp_all
  show thesis
  proof (cases "d_less (Fin m e) (Fin m0 e0)")
    case False
    have "rv (Fin m e) \<le> 2048 * rv (Fin m0 e0)" "0 < rv (Fin m0 e0)" using val F(2) p(3) by linarith+
    then show thesis using that [OF ee [unfolded if_not_P [OF False]]] xb(3) nx(1) by blast
  next
    case True
    obtain m1 e1 where t: "to_double (d_div (Fin m0 e0) (d_int 10)) = Fin m1 e1" "?p / 64 \<le> rv (Fin m1 e1)"
      by (rule tenth [OF p(3,1,2) F(2,3)])
    have "rv (Fin m e) \<le> 2048 * rv (Fin m1 e1)" "0 < rv (Fin m1 e1)" using val t(2) p(3) by linarith+
    then show thesis using that [OF ee [unfolded if_P [OF True] t(1)]] xb(3) nx(2) by blast
  qed
qed


section \<open>The range of fixed notation\<close>

lemma d_eq_rv: "d_eq (Fin m1 e1) (Fin m2 e2) \<longleftrightarrow> rv (Fin m1 e1) = rv (Fin m2 e2)"
proof -
  obtain a b e where al: "align m1 e1 m2 e2 = (a, b, e)" by (metis prod_cases3)
  have "a = b \<longleftrightarrow> of_int a * (2::real) powi e = of_int b * 2 powi e" by simp
  then show ?thesis by (simp only: d_eq.simps al Let_def prod.case rv_align [OF al])
qed

lemma DBL_MAX_large: "10 ^ 9 \<le> rv (Fin (2 ^ 53 - 1) 971)" "rv (Fin (- (2 ^ 53 - 1)) 971) \<le> - (10 ^ 9)"
proof -
  have "(2::real) powi 0 \<le> 2 powi 971" by (rule two_powi_mono) simp
  then have "1 \<le> (2::real) powi 971" by (simp only: power_int_0_right)
  then have "real_of_int (2 ^ 53 - 1) * 1 \<le> of_int (2 ^ 53 - 1) * 2 powi 971" by (rule mult_left_mono) simp
  moreover have "10 ^ 9 \<le> real_of_int (2 ^ 53 - 1) * 1" by simp
  ultimately have *: "10 ^ 9 \<le> of_int (2 ^ 53 - 1) * (2::real) powi 971" by (rule order_trans [rotated])
  then show "10 ^ 9 \<le> rv (Fin (2 ^ 53 - 1) 971)" by (simp only: rv.simps)
  show "rv (Fin (- (2 ^ 53 - 1)) 971) \<le> - (10 ^ 9)"
    using * by (simp only: rv.simps of_int_minus mult_minus_left neg_le_iff_le)
qed

lemma fixed_range:
  assumes "\<bar>rv (Fin m e)\<bar> \<le> 10 ^ 9"
  shows "d_eq (Fin m e) (Fin m e)" "\<not> d_less (Fin m e) (d_neg DBL_MAX)" "\<not> d_less DBL_MAX (Fin m e)"
    "\<not> d_less PRINTF_MAX_FLOAT (Fin m e)" "\<not> d_less (Fin m e) (d_neg PRINTF_MAX_FLOAT)"
proof -
  show "d_eq (Fin m e) (Fin m e)" by (simp only: d_eq_rv)
  show "\<not> d_less (Fin m e) (d_neg DBL_MAX)" "\<not> d_less DBL_MAX (Fin m e)"
    unfolding DBL_MAX_def d_neg.simps d_less_rv using assms DBL_MAX_large by linarith+
  have "rv (Fin 1000000000 0) = 10 ^ 9" "rv (Fin (- 1000000000) 0) = - (10 ^ 9)" by simp_all
  then show "\<not> d_less PRINTF_MAX_FLOAT (Fin m e)" "\<not> d_less (Fin m e) (d_neg PRINTF_MAX_FLOAT)"
    unfolding PRINTF_MAX_FLOAT_def d_int_def d_neg.simps d_less_rv using assms by linarith+
qed

text \<open>What \<open>_etoa\<close> hands to \<open>_ftoa\<close>: the scaled value, or an unscaled one that is small enough.\<close>

lemma etoa_scaled:
  assumes "0 < rv (Fin fm fe)" "rv (Fin m e) \<le> 2048 * rv (Fin fm fe)" "0 \<le> m"
  obtains m' e' where "to_double (d_div (Fin m e) (Fin fm fe)) = Fin m' e'" "\<bar>rv (Fin m' e')\<bar> \<le> 10 ^ 9"
proof -
  define v where "v = rv (Fin m e) / rv (Fin fm fe)"
  have "0 \<le> rv (Fin m e)" using assms(3) by simp
  then have v: "0 \<le> v" "v \<le> 2048" using assms(1,2) unfolding v_def by (simp_all add: pos_divide_le_eq del: rv.simps)
  have "near (d_div (Fin m e) (Fin fm fe)) v (2 * eps)"
    unfolding v_def by (rule near_div_exact) (use v assms(1) in \<open>simp_all add: v_def [symmetric] del: rv.simps\<close>)
  then have "near (to_double (d_div (Fin m e) (Fin fm fe))) v (3 * eps)"
    by (rule near_to_doubleI) (use v in \<open>simp_all add: eps_def\<close>)
  then obtain m' e' where r: "to_double (d_div (Fin m e) (Fin fm fe)) = Fin m' e'" "\<bar>rv (Fin m' e') - v\<bar> \<le> 3 * eps"
    by (rule nearE)
  have "3 * eps \<le> 1" "(2049::real) \<le> 10 ^ 9" by (simp_all add: eps_def)
  then have "\<bar>rv (Fin m' e')\<bar> \<le> 10 ^ 9" using r(2) v by linarith
  then show thesis using that r(1) by blast
qed

lemma etoa_unscaled:
  assumes "rv (Fin m e) < 2 powi (x + 1)" "301029 / 1000000 * of_int x - 2 < real_of_int ex" "ex = 0" "0 \<le> m"
  shows "\<bar>rv (Fin m e)\<bar> \<le> 10 ^ 9"
proof -
  have "real_of_int x < 7" using assms(2,3) by simp
  then have "(2::real) powi (x + 1) \<le> 2 powi 8" by (intro two_powi_mono) linarith
  then show ?thesis using assms(1,4) by simp
qed

lemma etoa_small_exponent:
  assumes "rv (Fin m e) < 2 powi (x + 1)" "301029 / 1000000 * of_int x - 2 < real_of_int ex"
    and "d_le (d_dec 1 4) (Fin m e)"
  shows "- 6 \<le> ex"
proof -
  obtain mc ec where c: "d_dec 1 4 = Fin mc ec" "\<bar>rv (Fin mc ec) - of_int 1 / 10 ^ 4\<bar> \<le> 2 * eps"
    using near_dec [of 1 4] by (auto elim: nearE simp del: rv.simps)
  have "rv (Fin mc ec) \<le> rv (Fin m e)" using assms(3) unfolding c(1) d_le_def d_less_rv d_eq_rv by linarith
  moreover have "2 * eps \<le> 1 / 10 ^ 6" "(1 / 2 ^ 14 :: real) < of_int 1 / 10 ^ 4 - 1 / 10 ^ 6" by (simp_all add: eps_def)
  ultimately have low: "1 / 2 ^ 14 < (2::real) powi (x + 1)" using c(2) assms(1) by linarith
  have "\<not> x + 1 \<le> - 14"
  proof
    assume "x + 1 \<le> - 14"
    then have "(2::real) powi (x + 1) \<le> 2 powi (- 14)" by (rule two_powi_mono)
    then show False using low by (simp add: power_int_def power_divide)
  qed
  then have "- 14 \<le> real_of_int x" by linarith
  then have "- 7 < real_of_int ex" using assms(2) by simp
  then show ?thesis by linarith
qed

end
