(* ===== verification/Ftoa_Props.thy ===== *)
theory Ftoa_Props
  imports Vsnprintf_Props
begin

text \<open>
  What the floating-point conversions promise, \<open>_ftoa\<close> and \<open>_etoa\<close> of \<^verbatim>\<open>libc/stdio.c\<close>: special
  values, whole numbers, the precisions for which the fixed notation has a result, and the
  rounding step that has no rollover.
\<close>

section \<open>Special values\<close>

lemma ftoa_depth: "ftoa_text = ftoa_text_fuel (Suc (Suc 0))"
  by (simp add: ftoa_text_def FTOA_DEPTH_def numeral_2_eq_2)

lemma less_DBL_MAX_Inf [simp]: "d_less DBL_MAX (Inf s) = (\<not> s)" "d_less (Inf s) (d_neg DBL_MAX) = s"
    "d_less DBL_MAX NaN = False" "d_less NaN x = False"
  by (simp_all add: DBL_MAX_def)

definition special_text :: "dbl \<Rightarrow> u32 \<Rightarrow> u8 list" where
  "special_text val flags =
     (if val = NaN then cstr ''nan'' else if val = Inf True then cstr ''-inf''
      else if has flags FLAGS_PLUS then cstr ''+inf'' else cstr ''inf'')"

text \<open>
  Both conversions print \<open>nan\<close>, \<open>inf\<close> (with a plus when the flag asks for it) and \<open>-inf\<close>
  for the values that are not numbers, padded with spaces to the field width as the flags say,
  whatever the precision.
\<close>

lemma float_special_values:
  assumes "val = NaN \<or> val = Inf neg"
  shows "ftoa out idx maxlen val prec width flags s =
      Some (sends out maxlen idx s (out_rev_text (rev (special_text val flags)) width flags)) \<and>
    etoa out idx maxlen val prec width flags s =
      Some (sends out maxlen idx s (out_rev_text (rev (special_text val flags)) width flags))"
proof -
  have "ftoa_text val prec width flags = Some (out_rev_text (rev (special_text val flags)) width flags)"
    using assms by (cases neg) (auto simp: ftoa_depth special_text_def)
  moreover have "not_finite val" using assms by (auto simp: not_finite_def)
  ultimately show ?thesis by (simp add: ftoa_sends etoa_sends etoa_text_def etoa_text_with_def)
qed

section \<open>When fixed notation has a result\<close>

lemma limited_prec: "unat (pr - of_nat (limit_zeros pr)) = unat pr - limit_zeros pr"
proof -
  have l: "limit_zeros pr \<le> unat pr" "limit_zeros pr < 2 ^ 32"
    by (simp_all add: limit_zeros_def PRINTF_NTOA_BUFFER_SIZE_def)
  then have "of_nat (limit_zeros pr) \<le> pr" by (simp add: word_le_nat_alt)
  with l(2) show ?thesis by (simp add: unat_sub)
qed

lemma pow10_at_None: "pow10_at (pr - of_nat (limit_zeros pr)) = None \<longleftrightarrow> 41 < unat pr"
proof -
  have "length pow10 = 10" by (simp add: pow10_def)
  then have "pow10_at (pr - of_nat (limit_zeros pr)) = None \<longleftrightarrow> \<not> unat pr - limit_zeros pr < 10"
    by (simp add: pow10_at_def limited_prec)
  also have "\<dots> \<longleftrightarrow> 41 < unat pr" by (auto simp: limit_zeros_def PRINTF_NTOA_BUFFER_SIZE_def)
  finally show ?thesis .
qed

lemma ftoa_text_fixed:
  assumes "\<not> not_finite val" "\<not> d_less PRINTF_MAX_FLOAT val" "\<not> d_less val (d_neg PRINTF_MAX_FLOAT)"
  shows "ftoa_text val prec width flags = ftoa_fixed_text val prec width flags"
  using assms by (simp add: ftoa_depth not_finite_def)

lemma ftoa_fixed_None: "ftoa_fixed_text val prec width flags = None \<longleftrightarrow> has flags FLAGS_PRECISION \<and> 41 < unat prec"
  using pow10_at_None [of prec] pow10_at_None [of PRINTF_DEFAULT_FLOAT_PRECISION]
  by (auto simp: ftoa_fixed_text_def Let_def bind_eq_None_conv PRINTF_DEFAULT_FLOAT_PRECISION_def
      split: prod.splits if_splits)

text \<open>
  C30: within the range of fixed notation \<open>_ftoa\<close> has a result for every precision up to 41 and
  for no greater one: then it indexes its table of powers of ten past the end.
\<close>

theorem ftoa_defined:
  assumes "\<not> not_finite val" "\<not> d_less PRINTF_MAX_FLOAT val" "\<not> d_less val (d_neg PRINTF_MAX_FLOAT)"
  shows "ftoa out idx maxlen val prec width flags s \<noteq> None \<longleftrightarrow>
    (has flags FLAGS_PRECISION \<longrightarrow> unat prec \<le> 41)"
  by (simp add: ftoa_sends ftoa_text_fixed [OF assms] ftoa_fixed_None not_less)

theorem ftoa_defined_witness:
  "ftoa (\<lambda>c s idx maxlen. s @ [c]) 0 100 (Fin 3 (- 1)) 42 0 FLAGS_PRECISION [] = None"
  using ftoa_defined [where val = "Fin 3 (- 1)" and prec = 42 and flags = FLAGS_PRECISION and width = 0
      and out = "\<lambda>c s idx maxlen. s @ [c]" and idx = 0 and maxlen = 100 and s = "[]"]
  by (simp add: not_finite_def DBL_MAX_def PRINTF_MAX_FLOAT_def d_int_def align_def has_def flag_defs
      del: not_None_eq)

section \<open>The text of fixed notation\<close>

text \<open>The decimal notation of \<open>n / 10 ^ p\<close> with \<open>p\<close> decimals, and its place in a field.\<close>

definition fixed_notation :: "nat \<Rightarrow> nat \<Rightarrow> u8 list" where
  "fixed_notation p n = decimal (n div 10 ^ p) @
     (if p = 0 then []
      else let ds = decimal (n mod 10 ^ p) in ch CHR ''.'' # replicate (p - length ds) (ch CHR ''0'') @ ds)"

definition field_text :: "u32 \<Rightarrow> u32 \<Rightarrow> u8 list \<Rightarrow> u8 list" where
  "field_text width flags body =
     (if has flags FLAGS_LEFT then body @ pad_text width body else pad_text width body @ body)"

lemma out_rev_field: "\<not> has flags FLAGS_ZEROPAD \<Longrightarrow> out_rev_text (rev body) width flags = field_text width flags body"
  by (simp add: out_rev_text_def field_text_def pad_text_def)

lemma decimals_text_digits:
  assumes "f < 10 ^ p" "unat prec = p" "1 \<le> p" "p \<le> 9"
  shows "decimals_text [] (of_nat f) prec =
    rev (ch CHR ''.'' # replicate (p - length (decimal f)) (ch CHR ''0'') @ decimal f)"
proof -
  have "(10::nat) ^ p \<le> 10 ^ 9" by (rule power_increasing) (use assms in simp_all)
  then have f: "unat (of_nat f :: u32) = f" using assms(1) by (simp add: unsigned_of_nat take_bit_nat_eq_self)
  have len: "length (decimal f) \<le> p" using assms by (intro length_decimal_le) simp_all
  then have c: "unat (prec - of_nat (length (decimal f))) = p - length (decimal f)"
    using assms(2,4) by (simp add: unat_sub word_le_nat_alt unsigned_of_nat take_bit_nat_eq_self)
  show ?thesis using len assms(4) by (simp add: decimals_text_def f c append_max_short Let_def)
qed

lemma pow10_nth: "p \<le> 9 \<Longrightarrow> pow10 ! p = 10 ^ p"
  by (auto simp: pow10_def le_Suc_eq numeral_eq_Suc)

lemma fixed_text_body:
  assumes pr_def: "pr = (if \<not> has flags FLAGS_PRECISION then PRINTF_DEFAULT_FLOAT_PRECISION else prec)"
    and "(if d_less val (d_int 0) then to_double (d_sub (d_int 0) val) else val) = v"
    and "unat pr \<le> 9" "\<not> has flags FLAGS_ZEROPAD"
    and "(let (whole, frac) = ftoa_round (d_int (10 ^ unat pr)) (ftoa_split v (d_int (10 ^ unat pr)))
      in if pr = 0 then (ftoa_round_whole v whole, []) else (whole, decimals_text [] frac pr)) = (int w, rev ds)"
    and "w < 10 ^ 10" "length ds \<le> 10"
  shows "ftoa_fixed_text val prec width flags =
    Some (field_text width flags (sign_text (d_less val (d_int 0)) flags @ decimal w @ ds))"
proof -
  have lz: "limit_zeros pr = 0" "limit_zeros 0 = 0" using assms(3) by (simp_all add: limit_zeros_def)
  have p10: "pow10_at pr = Some (d_int (10 ^ unat pr))"
    using assms(3) pow10_nth [of "unat pr"] by (simp add: pow10_at_def) (simp add: pow10_def)
  define sg where "sg = sign_text (d_less val (d_int 0)) flags"
  have sg: "length sg \<le> 1" "rev sg = sg" by (simp_all add: sg_def sign_text_def)
  have "length (decimal w) \<le> 10" using assms(6) by (intro length_decimal_le) simp_all
  then have body: "append_max (append_max (rev ds) (rev (decimal w))) sg = rev (sg @ decimal w @ ds)"
    using assms(7) sg by (simp add: append_max_short)
  obtain W F where r: "ftoa_round (d_int (10 ^ unat pr)) (ftoa_split v (d_int (10 ^ unat pr))) = (W, F)" by force
  have "ftoa_fixed_text val prec width flags = Some (out_rev_text (rev (sg @ decimal w @ ds)) width flags)"
    unfolding ftoa_fixed_text_def Let_def assms(2) pr_def [symmetric] body [symmetric]
    using assms(4,5) by (auto simp: lz p10 r zeropad_width_def sg_def split: if_splits)
  then show ?thesis by (simp only: out_rev_field [OF assms(4)] sg_def)
qed

section \<open>Whole numbers\<close>

lemma bit_length_le: "m < 2 ^ k \<Longrightarrow> bit_length m \<le> k"
proof (induction k arbitrary: m)
  case 0
  then show ?case by (simp add: bit_length.simps)
next
  case (Suc k)
  then have "m div 2 < 2 ^ k" by simp
  with Suc.IH show ?case by (subst bit_length.simps) simp
qed

lemma round_exact:
  assumes "\<bar>m\<bar> \<le> 1000000000"
  shows "ext_round m 0 = Fin m 0" "to_double (Fin m 0) = Fin m 0"
proof -
  have "bit_length \<bar>m\<bar> \<le> 30" using assms by (intro bit_length_le) simp
  then have b: "int (bit_length \<bar>m\<bar>) \<le> 30" by simp
  show "ext_round m 0 = Fin m 0" "to_double (Fin m 0) = Fin m 0"
    using b by (auto simp: ext_round_def fp_round_def Let_def)
qed

lemma whole_fixed_text:
  assumes "\<bar>i\<bar> \<le> 1000000000" "unat prec \<le> 9"
  shows "ftoa_fixed_text (d_int i) prec 0 FLAGS_PRECISION =
    Some (int_decimal i @ (if prec = 0 then [] else ch CHR ''.'' # replicate (unat prec) (ch CHR ''0'')))"
proof -
  let ?ds = "if prec = 0 then [] else ch CHR ''.'' # replicate (unat prec) (ch CHR ''0'')"
  have neg: "d_less (d_int i) (d_int 0) \<longleftrightarrow> i < 0" by (simp add: d_int_def align_def)
  have v: "(if d_less (d_int i) (d_int 0) then to_double (d_sub (d_int 0) (d_int i)) else d_int i) = d_int \<bar>i\<bar>"
    using assms(1) round_exact [of "- i"] by (auto simp: neg d_sub_def d_int_def align_def)
  have round: "ftoa_round (d_int (10 ^ unat prec)) (ftoa_split (d_int \<bar>i\<bar>) (d_int (10 ^ unat prec))) = (\<bar>i\<bar>, 0)"
    by (simp add: ftoa_split_def ftoa_round_def d_int_def d_sub_def align_def ext_round_def fp_round_def d_half_def)
  have whole: "ftoa_round_whole (d_int \<bar>i\<bar>) \<bar>i\<bar> = \<bar>i\<bar>"
    by (simp add: ftoa_round_whole_def d_int_def d_sub_def align_def ext_round_def fp_round_def d_half_def)
  have zeros: "decimals_text [] 0 prec = rev ?ds" if "prec \<noteq> 0"
  proof -
    have p: "1 \<le> unat prec" using that by (simp add: Suc_le_eq unat_gt_0)
    have "decimal 0 = [ch CHR ''0'']" by (simp add: decimal_def nat_digits.simps)
    moreover have "replicate (unat prec - 1) (ch CHR ''0'') @ [ch CHR ''0''] = replicate (unat prec) (ch CHR ''0'')"
      using p by (cases "unat prec") (simp_all add: replicate_append_same)
    ultimately show ?thesis
      using decimals_text_digits [of 0 "unat prec" prec] p assms(2) that by simp
  qed
  have "ftoa_fixed_text (d_int i) prec 0 FLAGS_PRECISION =
      Some (field_text 0 FLAGS_PRECISION (sign_text (d_less (d_int i) (d_int 0)) FLAGS_PRECISION @ decimal (nat \<bar>i\<bar>) @ ?ds))"
    by (rule fixed_text_body [where pr = prec, OF _ v])
       (use assms round whole zeros in \<open>simp_all add: has_def flag_defs\<close>)
  then show ?thesis
    by (simp add: field_text_def pad_text_def sign_text_def int_decimal_def neg has_def flag_defs)
qed

text \<open>
  Whole numbers of up to ten digits are printed exactly: their decimal notation, and with a
  precision from 1 to 9 the point and that many zeros.
\<close>

lemma ftoa_whole_numbers:
  assumes "\<bar>i\<bar> \<le> 1000000000" "unat prec \<le> 9"
  shows "ftoa out idx maxlen (d_int i) prec 0 FLAGS_PRECISION s =
    Some (sends out maxlen idx s
      (int_decimal i @ (if prec = 0 then [] else ch CHR ''.'' # replicate (unat prec) (ch CHR ''0''))))"
proof -
  have "ftoa_text (d_int i) prec 0 FLAGS_PRECISION = ftoa_fixed_text (d_int i) prec 0 FLAGS_PRECISION"
    using assms(1)
    by (intro ftoa_text_fixed)
       (auto simp: not_finite_def DBL_MAX_def PRINTF_MAX_FLOAT_def d_int_def align_def)
  then show ?thesis by (simp add: ftoa_sends whole_fixed_text [OF assms])
qed

section \<open>The missing rollover\<close>

text \<open>
  C39: when all decimals are nines, a rest above one half of the last decimal rolls over into the
  integer part; a rest of exactly one half does not, and leaves a fraction with one digit too many.
\<close>

theorem ftoa_tie_without_rollover:
  assumes "p \<in> {1..9}" "d_less d_half diff"
  shows "ftoa_round (d_int (10 ^ p)) (whole, 10 ^ p - 1, diff) = (whole + 1, 0) \<and>
    ftoa_round (d_int (10 ^ p)) (whole, 10 ^ p - 1, d_half) = (whole, 10 ^ p)"
proof -
  have "p = 1 \<or> p = 2 \<or> p = 3 \<or> p = 4 \<or> p = 5 \<or> p = 6 \<or> p = 7 \<or> p = 8 \<or> p = 9" using assms(1) by auto
  then show ?thesis
    using assms(2)
    by (elim disjE) (simp_all add: ftoa_round_def d_half_def d_int_def d_le_def align_def)
qed

theorem ftoa_tie_without_rollover_witness: "ftoa_round (d_int 10) (0, 9, d_half) = (0, 10)"
  using ftoa_tie_without_rollover [where p = 1 and diff = "d_int 1" and whole = 0]
  by (simp add: d_half_def d_int_def align_def)

text \<open>
  With that fraction the count of missing zeros wraps around: \<open>0.95\<close> with one decimal is printed
  as 32 characters that have nothing to do with it.
\<close>

lemma ftoa_tie_garbage:
  "ftoa (\<lambda>c s idx maxlen. s @ [c]) 0 100 (Fin 0x1E666666666666 (- 53)) 1 0 FLAGS_PRECISION [] =
     Some (replicate 30 (ch CHR ''0'') @ cstr ''10'', 32)"
  by code_simp

end
