(* ===== verification/Ftoa_Total.thy ===== *)
theory Ftoa_Total
  imports Etoa_Real Ftoa_Props
begin

text \<open>
  \<open>_ftoa\<close> and \<open>_etoa\<close> of \<^verbatim>\<open>libc/stdio.c\<close> call each other: the calls end for every value of the
  type \<open>double\<close>, and the fuel of the model is never used up.
\<close>

lemma ftoa_text_fuel_fixed:
  assumes "\<bar>rv (Fin m e)\<bar> \<le> 10 ^ 9"
  shows "ftoa_text_fuel (Suc fuel) (Fin m e) prec width flags = ftoa_fixed_text (Fin m e) prec width flags"
  by (simp only: ftoa_text_fuel.simps fixed_range [OF assms] if_False simp_thms)

lemma ftoa_text_fuel_special:
  assumes "not_finite val"
  shows "ftoa_text_fuel (Suc fuel) val prec width flags \<noteq> None"
  using assms by (auto simp: not_finite_def)

text \<open>The precision that \<open>_etoa\<close> passes on, and the exponent that decides about the scaling.\<close>

lemma layout_prec:
  assumes "etoa_layout val ex prec width flags = (prec', flags', minwidth, ex', fwidth)"
    and "has flags FLAGS_PRECISION \<Longrightarrow> unat prec \<le> 36"
    and "\<not> has flags FLAGS_PRECISION \<Longrightarrow> prec = PRINTF_DEFAULT_FLOAT_PRECISION"
    and "d_le (d_dec 1 4) val \<Longrightarrow> - 6 \<le> ex"
  shows "has flags' FLAGS_PRECISION \<Longrightarrow> unat prec' \<le> 41"
    "ex' \<noteq> 0 \<Longrightarrow> ex' = ex" "ex' = 0 \<Longrightarrow> ex = 0 \<or> d_less val (d_int 1000000)"
proof -
  have p: "unat prec \<le> 36"
    using assms(2,3) by (cases "has flags FLAGS_PRECISION") (simp_all add: PRINTF_DEFAULT_FLOAT_PRECISION_def)
  then have "uint prec \<le> 36" unfolding uint_nat by linarith
  then have "sint prec = uint prec"
    unfolding sint_uint by (intro signed_take_bit_int_eq_self order_trans [OF _ uint_ge_0]) simp_all
  then have s: "sint prec = int (unat prec)" by (simp only: uint_nat)
  have adapt: "unat (prec - of_int ex - 1) \<le> 41" if "ex < sint prec" "- 6 \<le> ex"
  proof -
    have "prec - of_int ex - 1 = of_int (int (unat prec) - ex - 1)" by simp
    moreover have "0 \<le> int (unat prec) - ex - 1" "int (unat prec) - ex - 1 \<le> 41"
      using that p unfolding s by linarith+
    ultimately have "uint (prec - of_int ex - 1) \<le> 41"
      by (simp only: uint_word_of_int_eq) (simp add: take_bit_int_eq_self)
    then show ?thesis unfolding uint_nat by linarith
  qed
  have dec: "unat (prec - 1) \<le> 36" if "0 < prec" using that p by (simp add: unat_minus_one word_gt_0)
  show "has flags' FLAGS_PRECISION \<Longrightarrow> unat prec' \<le> 41"
    using assms(1,4) adapt dec p by (auto simp: etoa_layout_def Let_def split: if_splits)
  show "ex' \<noteq> 0 \<Longrightarrow> ex' = ex" "ex' = 0 \<Longrightarrow> ex = 0 \<or> d_less val (d_int 1000000)"
    using assms(1) by (auto simp: etoa_layout_def Let_def split: if_splits)
qed

lemma has_not_adapt: "has (flags AND NOT FLAGS_ADAPT_EXP) FLAGS_PRECISION = has flags FLAGS_PRECISION"
  unfolding has_iff_bit FLAGS_ADAPT_EXP_def by (simp only: bit_and_iff bit_not_iff bit_push_bit_iff) simp

text \<open>What \<open>_etoa\<close> passes on to \<open>_ftoa\<close>, scaled or not, is in the range of fixed notation.\<close>

lemma etoa_value_bounded:
  assumes "0 \<le> m" "0 < rv (Fin fm fe)" "rv (Fin m e) \<le> 2048 * rv (Fin fm fe)" "rv (Fin m e) < 2 powi (x + 1)"
    and "301029 / 1000000 * of_int x - 2 < real_of_int ex"
    and "ex' = 0 \<Longrightarrow> ex = 0 \<or> d_less (Fin m e) (d_int 1000000)"
  obtains m' e' where "(if ex' \<noteq> 0 then to_double (d_div (Fin m e) (Fin fm fe)) else Fin m e) = Fin m' e'"
    "\<bar>rv (Fin m' e')\<bar> \<le> 10 ^ 9"
proof (cases "ex' = 0")
  case True
  from assms(6) [OF this] have "\<bar>rv (Fin m e)\<bar> \<le> 10 ^ 9"
  proof
    assume "ex = 0"
    then show ?thesis using etoa_unscaled [OF assms(4,5)] assms(1) by blast
  next
    assume "d_less (Fin m e) (d_int 1000000)"
    then have "rv (Fin m e) < rv (Fin 1000000 0)" by (simp only: d_int_def d_less_rv)
    moreover have "0 \<le> rv (Fin m e)" using assms(1) by simp
    ultimately show ?thesis by simp
  qed
  with True that show thesis by simp
next
  case False
  obtain m' e' where "to_double (d_div (Fin m e) (Fin fm fe)) = Fin m' e'" "\<bar>rv (Fin m' e')\<bar> \<le> 10 ^ 9"
    by (rule etoa_scaled [OF assms(2,3,1)])
  with False that show thesis by simp
qed

lemma etoa_text_defined:
  assumes "is_double val" "has flags FLAGS_PRECISION \<Longrightarrow> unat prec \<le> 36"
  shows "etoa_text_with (ftoa_text_fuel (Suc fuel)) val prec width flags \<noteq> None"
proof (cases "not_finite val")
  case True
  then show ?thesis by (simp only: etoa_text_with_def if_True) (rule ftoa_text_fuel_special)
next
  case False
  then obtain m0 e where val: "val = Fin m0 e" by (cases val) (auto simp: not_finite_def)
  define m where "m = \<bar>m0\<bar>"
  have v: "(if d_less val (d_int 0) then d_neg val else val) = Fin m e"
    using d_less_zero [of m0 e] by (auto simp: val m_def)
  have m: "0 \<le> m" "is_double (Fin m e)" using assms(1) by (simp_all add: val m_def)
  define pr where "pr = (if \<not> has flags FLAGS_PRECISION then PRINTF_DEFAULT_FLOAT_PRECISION else prec)"
  obtain ex fm fe x where ex: "etoa_exponent (Fin m e) = (ex, Fin fm fe)" "0 < rv (Fin fm fe)"
    "rv (Fin m e) \<le> 2048 * rv (Fin fm fe)" "rv (Fin m e) < 2 powi (x + 1)"
    "301029 / 1000000 * of_int x - 2 < real_of_int ex"
    by (rule etoa_exponent_bounds [OF m])
  obtain pr' fl' mw ex' fw where lay: "etoa_layout (Fin m e) ex pr width flags = (pr', fl', mw, ex', fw)"
    by (metis prod_cases5)
  note lp = layout_prec [OF lay]
  have prec': "has fl' FLAGS_PRECISION \<Longrightarrow> unat pr' \<le> 41" and
    exp': "ex' \<noteq> 0 \<Longrightarrow> ex' = ex" "ex' = 0 \<Longrightarrow> ex = 0 \<or> d_less (Fin m e) (d_int 1000000)"
    using lp assms(2) etoa_small_exponent [OF ex(4,5)] by (auto simp: pr_def)
  define w where "w = (if ex' \<noteq> 0 then to_double (d_div (Fin m e) (Fin fm fe)) else Fin m e)"
  obtain m' e' where w: "w = Fin m' e'" "\<bar>rv (Fin m' e')\<bar> \<le> 10 ^ 9"
    unfolding w_def by (rule etoa_value_bounded [OF m(1) ex(2-5) exp'(2)])
  obtain m2 where w2: "(if d_less val (d_int 0) then d_neg w else w) = Fin m2 e'" "\<bar>rv (Fin m2 e')\<bar> \<le> 10 ^ 9"
    using w by (cases "d_less val (d_int 0)") (auto simp: abs_mult)
  have "ftoa_text_fuel (Suc fuel) (Fin m2 e') pr' fw (fl' AND NOT FLAGS_ADAPT_EXP) \<noteq> None"
    unfolding ftoa_text_fuel_fixed [OF w2(2)] ftoa_fixed_None has_not_adapt using prec' by auto
  then obtain cs where cs: "ftoa_text_fuel (Suc fuel) (Fin m2 e') pr' fw (fl' AND NOT FLAGS_ADAPT_EXP) = Some cs"
    by blast
  show ?thesis using False
    by (simp only: etoa_text_with_def Let_def if_False v pr_def [symmetric] ex(1) prod.case lay
        w_def [symmetric] w2(1) cs) simp
qed

lemma ftoa_text_defined:
  assumes "is_double val" "has flags FLAGS_PRECISION \<Longrightarrow> unat prec \<le> 36"
  shows "ftoa_text val prec width flags \<noteq> None"
proof (cases "not_finite val \<or> d_less PRINTF_MAX_FLOAT val \<or> d_less val (d_neg PRINTF_MAX_FLOAT)")
  case True
  then show ?thesis
    using ftoa_text_fuel_special [of val "Suc 0" prec width flags] etoa_text_defined [OF assms, where fuel = 0 and width = width]
    unfolding ftoa_depth ftoa_text_fuel.simps(2) [where fuel = "Suc 0"] by (auto simp: not_finite_def)
next
  case False
  then have "ftoa_text val prec width flags = ftoa_fixed_text val prec width flags"
    by (intro ftoa_text_fixed) simp_all
  then show ?thesis using assms(2) by (auto simp: ftoa_fixed_None)
qed

text \<open>
  C28: for every value of the type \<open>double\<close> and every precision up to 36 both floating-point
  conversions have a result: \<open>_ftoa\<close> and \<open>_etoa\<close> call each other at most twice, because the
  quotient of the value and the estimated power of ten is at most 2048, and no table is read past
  its end.
\<close>

theorem float_conversions_defined:
  assumes "is_double val" "has flags FLAGS_PRECISION \<Longrightarrow> unat prec \<le> 36"
  shows "ftoa out idx maxlen val prec width flags s \<noteq> None \<and>
    etoa out idx maxlen val prec width flags s \<noteq> None"
  using ftoa_text_defined [OF assms] etoa_text_defined [OF assms, where fuel = "Suc 0"]
  by (simp_all add: ftoa_sends etoa_sends etoa_text_def ftoa_depth)

theorem float_conversions_defined_witness:
  "ftoa (\<lambda>c s idx maxlen. s @ [c]) 0 100 (to_double (Fin 7 1000)) 36 0 FLAGS_PRECISION [] \<noteq> None \<and>
    etoa (\<lambda>c s idx maxlen. s @ [c]) 0 100 (to_double (Fin 7 1000)) 36 0 FLAGS_PRECISION [] \<noteq> None"
  by (rule float_conversions_defined [OF to_double_is_double]) simp

end
