(* ===== verification/Ftoa_Exact.thy ===== *)
theory Ftoa_Exact
  imports Dbl_Exact Ftoa_Total
begin

text \<open>
  How exact \<open>_ftoa\<close> of \<^verbatim>\<open>libc/stdio.c\<close> is in the range of fixed notation: the integer part, the
  scaled fraction and the rest that decides about the rounding, as real numbers, and the text.
\<close>

section \<open>Splitting a value\<close>

lemma d_trunc_floor: "0 \<le> m \<Longrightarrow> d_trunc (Fin m e) = \<lfloor>rv (Fin m e)\<rfloor>"
  using d_trunc_rv(1) [of m e] by (intro floor_unique [symmetric]) simp_all

lemma d_less_near:
  assumes "near x v 0" "near y w 0"
  shows "d_less x y \<longleftrightarrow> v < w"
proof -
  obtain m1 e1 m2 e2 where "x = Fin m1 e1" "rv (Fin m1 e1) = v" "y = Fin m2 e2" "rv (Fin m2 e2) = w"
    using assms unfolding near_exact by blast
  then show ?thesis using d_less_rv [of m1 e1 m2 e2] by (simp only:)
qed

lemma d_less_zero_rv: "d_less (Fin m e) (d_int 0) \<longleftrightarrow> rv (Fin m e) < 0"
  using d_less_near [OF _ near_int, of "Fin m e" "rv (Fin m e)" 0] by (simp add: near_self del: rv.simps)

lemma near_half: "near d_half (1 / 2) 0"
  by (simp add: near_def d_half_def power_int_def)

lemma half_less: "near d v 0 \<Longrightarrow> d_less d_half d \<longleftrightarrow> 1 / 2 < v" "near d v 0 \<Longrightarrow> d_less d d_half \<longleftrightarrow> v < 1 / 2"
  by (simp_all only: d_less_near [OF near_half] d_less_near [OF _ near_half])

text \<open>\<open>tmp\<close> is \<open>x\<close>, whose distance from the scaled fraction is at most a millionth.\<close>

lemma ftoa_split_values:
  assumes "is_double (Fin m e)" "0 \<le> m" "1 \<le> p" "p \<le> 9"
  obtains x d where
    "ftoa_split (Fin m e) (d_int (10 ^ p)) = (\<lfloor>rv (Fin m e)\<rfloor>, of_int \<lfloor>x\<rfloor>, d)" "near d (x - of_int \<lfloor>x\<rfloor>) 0"
    "0 \<le> x" "x < 10 ^ p" "\<bar>x - (rv (Fin m e) - of_int \<lfloor>rv (Fin m e)\<rfloor>) * 10 ^ p\<bar> \<le> 1 / 10 ^ 6"
proof -
  note fr = near_fraction [OF assms(1,2)]
  obtain mt et where t: "to_double (d_mul (d_sub (Fin m e) (d_int (d_trunc (Fin m e)))) (d_int (10 ^ p))) = Fin mt et"
    "0 \<le> mt" "rv (Fin mt et) < 10 ^ p"
    "\<bar>rv (Fin mt et) - (rv (Fin m e) - of_int (d_trunc (Fin m e))) * 10 ^ p\<bar> \<le> 1 / 10 ^ 6" "is_double (Fin mt et)"
    by (rule scaled_fraction [OF fr(1,3,4) assms(3,4)])
  have k: "0 \<le> \<lfloor>rv (Fin mt et)\<rfloor>" "\<lfloor>rv (Fin mt et)\<rfloor> < 2 ^ 32"
  proof -
    show "0 \<le> \<lfloor>rv (Fin mt et)\<rfloor>" using t(2) by simp
    have "(10::real) ^ p \<le> 10 ^ 9" by (rule power_increasing) (use assms in simp_all)
    then have "rv (Fin mt et) < 2 ^ 32" using t(3) by simp
    then show "\<lfloor>rv (Fin mt et)\<rfloor> < 2 ^ 32" by (simp add: floor_less_iff del: rv.simps)
  qed
  then have u: "uint (of_int \<lfloor>rv (Fin mt et)\<rfloor> :: u32) = \<lfloor>rv (Fin mt et)\<rfloor>"
    by (simp add: uint_word_of_int_eq take_bit_int_eq_self)
  have fl: "d_trunc (Fin mt et) = \<lfloor>rv (Fin mt et)\<rfloor>" "d_trunc (Fin m e) = \<lfloor>rv (Fin m e)\<rfloor>"
    using t(2) assms(2) by (simp_all only: d_trunc_floor)
  show thesis
  proof (rule that [of "rv (Fin mt et)"])
    show "ftoa_split (Fin m e) (d_int (10 ^ p)) = (\<lfloor>rv (Fin m e)\<rfloor>, of_int \<lfloor>rv (Fin mt et)\<rfloor>,
        to_double (d_sub (Fin mt et) (d_int \<lfloor>rv (Fin mt et)\<rfloor>)))"
      unfolding ftoa_split_def Let_def t(1) by (simp only: fl u)
    show "near (to_double (d_sub (Fin mt et) (d_int \<lfloor>rv (Fin mt et)\<rfloor>))) (rv (Fin mt et) - of_int \<lfloor>rv (Fin mt et)\<rfloor>) 0"
      using near_fraction(2) [OF t(5,2)] by (simp only: fl)
    show "0 \<le> rv (Fin mt et)" using t(2) by simp
  qed (use t(3,4) fl in \<open>simp_all only:\<close>)
qed

section \<open>Rounding\<close>

text \<open>
  The two parts after the rounding denote the nearest number of \<open>p\<close> decimals, unless all decimals
  are nines and the rest is exactly one half.
\<close>

lemma d_le_int: "d_le (d_int i) (d_int j) \<longleftrightarrow> i \<le> j"
  by (auto simp: d_le_def d_int_def align_def)

lemma uint_of_nat_small: "n < 2 ^ 32 \<Longrightarrow> uint (of_nat n :: u32) = int n"
  by (simp add: unsigned_of_nat take_bit_nat_eq_self)

lemma ftoa_round_steps:
  assumes "k < 10 ^ p" "p \<le> 9"
  shows "d_less d_half d \<Longrightarrow> ftoa_round (d_int (10 ^ p)) (whole, of_nat k, d) =
      (if Suc k = 10 ^ p then (whole + 1, of_nat 0) else (whole, of_nat (Suc k)))"
    and "\<not> d_less d_half d \<Longrightarrow> ftoa_round (d_int (10 ^ p)) (whole, of_nat k, d) = (whole, of_nat k) \<or>
      \<not> d_less d d_half \<and> ftoa_round (d_int (10 ^ p)) (whole, of_nat k, d) = (whole, of_nat (Suc k))"
proof -
  have "(10::nat) ^ p \<le> 10 ^ 9" by (rule power_increasing) (use assms in simp_all)
  then have "Suc k < 2 ^ 32" using assms(1) by simp
  then have u: "uint (of_nat k + 1 :: u32) = int (Suc k)" using uint_of_nat_small [of "Suc k"] by (simp add: add.commute)
  have "int (10 ^ p) \<le> int (Suc k) \<longleftrightarrow> Suc k = 10 ^ p" unfolding of_nat_le_iff using assms(1) by auto
  then have "d_le (d_int (10 ^ p)) (d_int (int (Suc k))) \<longleftrightarrow> Suc k = 10 ^ p" by (simp add: d_le_int)
  then show "d_less d_half d \<Longrightarrow> ftoa_round (d_int (10 ^ p)) (whole, of_nat k, d) =
      (if Suc k = 10 ^ p then (whole + 1, of_nat 0) else (whole, of_nat (Suc k)))"
    by (simp add: ftoa_round_def Let_def u del: of_nat_Suc) (simp add: add.commute)
  show "\<not> d_less d_half d \<Longrightarrow> ftoa_round (d_int (10 ^ p)) (whole, of_nat k, d) = (whole, of_nat k) \<or>
      \<not> d_less d d_half \<and> ftoa_round (d_int (10 ^ p)) (whole, of_nat k, d) = (whole, of_nat (Suc k))"
    by (auto simp: ftoa_round_def Let_def add.commute)
qed

lemma ftoa_round_nearest:
  assumes "near d (x - of_int \<lfloor>x\<rfloor>) 0" "0 \<le> x" "x < 10 ^ p" "p \<le> 9" "x \<noteq> 10 ^ p - 1 / 2"
  obtains w f where "ftoa_round (d_int (10 ^ p)) (whole, of_int \<lfloor>x\<rfloor>, d) = (w, of_nat f)" "f < 10 ^ p"
    "whole \<le> w" "\<bar>real_of_int w * 10 ^ p + real f - (of_int whole * 10 ^ p + x)\<bar> \<le> 1 / 2"
proof -
  define k where "k = nat \<lfloor>x\<rfloor>"
  have k: "\<lfloor>x\<rfloor> = int k" "real k \<le> x" "x < real k + 1" using assms(2) by (simp_all add: k_def)
  have fl: "(of_int \<lfloor>x\<rfloor> :: u32) = of_nat k" by (simp add: k(1))
  have "real k < 10 ^ p" using k(2) assms(3) by linarith
  then have k10: "k < 10 ^ p" by (metis of_nat_less_iff of_nat_numeral of_nat_power)
  have last: "real k + 1 = 10 ^ p" if "Suc k = 10 ^ p" using that by (metis of_nat_Suc of_nat_numeral of_nat_power add.commute)
  have d: "x - of_int \<lfloor>x\<rfloor> = x - k" by (simp add: k(1))
  note half = half_less [OF assms(1), unfolded d]
  note steps = ftoa_round_steps [OF k10 assms(4), of d whole]
  show thesis
  proof (cases "1 / 2 < x - k")
    case True
    show thesis
    proof (cases "Suc k = 10 ^ p")
      case roll: True
      then have "ftoa_round (d_int (10 ^ p)) (whole, of_int \<lfloor>x\<rfloor>, d) = (whole + 1, of_nat 0)"
        using True half steps(1) by (simp add: fl)
      then show thesis
        using True k(3) last [OF roll] by (intro that [of "whole + 1" 0]) (simp_all add: distrib_right)
    next
      case False
      then show thesis using True half k k10 steps(1) by (intro that [of whole "Suc k"]) (simp_all add: fl)
    qed
  next
    case False
    then consider (down) "ftoa_round (d_int (10 ^ p)) (whole, of_int \<lfloor>x\<rfloor>, d) = (whole, of_nat k)"
      | (tie) "x - k = 1 / 2" "ftoa_round (d_int (10 ^ p)) (whole, of_int \<lfloor>x\<rfloor>, d) = (whole, of_nat (Suc k))"
      using half steps(2) unfolding fl by fastforce
    then show thesis
    proof cases
      case down
      then show thesis using False k k10 by (intro that [of whole k]) simp_all
    next
      case tie
      then have "Suc k \<noteq> 10 ^ p" using assms(5) last by fastforce
      then show thesis using tie k10 by (intro that [of whole "Suc k"]) simp_all
    qed
  qed
qed

section \<open>The text\<close>

lemma float_abs:
  assumes "is_double (Fin m e)" "\<bar>rv (Fin m e)\<bar> \<le> 10 ^ 9"
  obtains m' e' where "(if d_less (Fin m e) (d_int 0) then to_double (d_sub (d_int 0) (Fin m e)) else Fin m e) = Fin m' e'"
    "0 \<le> m'" "is_double (Fin m' e')" "rv (Fin m' e') = \<bar>rv (Fin m e)\<bar>"
proof (cases "m < 0")
  case True
  have "(2::real) powi 30 \<le> 2 powi 1023" by (rule two_powi_mono) simp
  then have "\<bar>rv (Fin m e)\<bar> \<le> 2 powi 1023" using assms(2) by simp
  from near_negated [OF assms(1) this] obtain m' e' where
    r: "to_double (d_sub (d_int 0) (Fin m e)) = Fin m' e'" "rv (Fin m' e') = - rv (Fin m e)"
    unfolding near_exact by blast
  have neg: "rv (Fin m e) < 0" using True by (simp add: mult_less_0_iff)
  then have "0 < rv (Fin m' e')" using r(2) by linarith
  then have "0 \<le> m'" using two_powi_pos [of e'] by (auto simp: zero_less_mult_iff simp del: two_powi_pos)
  moreover have "is_double (Fin m' e')" using to_double_is_double r(1) by metis
  ultimately show thesis using True neg r by (intro that) (simp_all only: d_less_zero if_True abs_of_neg)
next
  case False
  then show thesis using assms(1) by (intro that [of m e]) (simp_all add: d_less_zero)
qed

lemma fixed_text_parts:
  fixes prec width flags :: u32
  defines "p \<equiv> if has flags FLAGS_PRECISION then unat prec else 6"
  assumes "(if d_less val (d_int 0) then to_double (d_sub (d_int 0) val) else val) = v"
    and "1 \<le> p" "p \<le> 9" "\<not> has flags FLAGS_ZEROPAD"
    and "ftoa_round (d_int (10 ^ p)) (ftoa_split v (d_int (10 ^ p))) = (int w, of_nat f)" "f < 10 ^ p" "w < 10 ^ 10"
  shows "ftoa_fixed_text val prec width flags =
    Some (field_text width flags (sign_text (d_less val (d_int 0)) flags @ fixed_notation p (w * 10 ^ p + f)))"
proof -
  define pr where "pr = (if \<not> has flags FLAGS_PRECISION then PRINTF_DEFAULT_FLOAT_PRECISION else prec)"
  have pr: "unat pr = p" "pr \<noteq> 0" using assms(3) by (auto simp: pr_def p_def PRINTF_DEFAULT_FLOAT_PRECISION_def)
  define ds where "ds = ch CHR ''.'' # replicate (p - length (decimal f)) (ch CHR ''0'') @ decimal f"
  have dec: "decimals_text [] (of_nat f) pr = rev ds"
    unfolding ds_def by (rule decimals_text_digits [OF assms(7) pr(1) assms(3,4)])
  have "length (decimal f) \<le> p" using assms by (intro length_decimal_le) simp_all
  then have "length ds \<le> 10" using assms(4) by (simp add: ds_def)
  then have "ftoa_fixed_text val prec width flags =
      Some (field_text width flags (sign_text (d_less val (d_int 0)) flags @ decimal w @ ds))"
    by (intro fixed_text_body [OF pr_def assms(2)]) (use assms(4-8) pr dec in simp_all)
  moreover have "(w * 10 ^ p + f) div 10 ^ p = w" "(w * 10 ^ p + f) mod 10 ^ p = f" using assms(7) by simp_all
  then have "fixed_notation p (w * 10 ^ p + f) = decimal w @ ds"
    using assms(3) by (simp only: fixed_notation_def ds_def Let_def) simp
  ultimately show ?thesis by simp
qed

section \<open>Fixed notation is correctly rounded\<close>

lemma ftoa_parts_accurate:
  assumes "is_double (Fin m e)" "0 \<le> m" "1 \<le> p" "p \<le> 9"
    and "\<And>k :: nat. 1 / 10 ^ 6 < \<bar>rv (Fin m e) * 10 ^ p - (real k * 10 ^ p - 1 / 2)\<bar>"
  obtains w f :: nat where "ftoa_round (d_int (10 ^ p)) (ftoa_split (Fin m e) (d_int (10 ^ p))) = (int w, of_nat f)"
    "f < 10 ^ p" "\<bar>real (w * 10 ^ p + f) - rv (Fin m e) * 10 ^ p\<bar> \<le> 1 / 2 + 1 / 10 ^ 6"
proof -
  define r where "r = rv (Fin m e)"
  define W where "W = \<lfloor>r\<rfloor>"
  have W: "0 \<le> W" using assms(2) by (simp add: W_def r_def)
  obtain x d where x: "ftoa_split (Fin m e) (d_int (10 ^ p)) = (W, of_int \<lfloor>x\<rfloor>, d)" "near d (x - of_int \<lfloor>x\<rfloor>) 0"
    "0 \<le> x" "x < 10 ^ p" "\<bar>x - (r - of_int W) * 10 ^ p\<bar> \<le> 1 / 10 ^ 6"
    unfolding W_def r_def by (rule ftoa_split_values [OF assms(1-4)])
  have diff: "(r - of_int W) * 10 ^ p = r * 10 ^ p - of_int W * 10 ^ p" by (simp only: left_diff_distrib)
  have "x \<noteq> 10 ^ p - 1 / 2"
  proof
    assume "x = 10 ^ p - 1 / 2"
    moreover have "real (nat W + 1) * 10 ^ p = of_int W * 10 ^ p + 10 ^ p" using W by (simp add: distrib_right)
    ultimately have "\<bar>r * 10 ^ p - (real (nat W + 1) * 10 ^ p - 1 / 2)\<bar> \<le> 1 / 10 ^ 6" using x(5) diff by linarith
    with assms(5) [of "nat W + 1"] show False by (simp only: r_def)
  qed
  from ftoa_round_nearest [OF x(2-4) assms(4) this, of W] obtain w f where
    f: "ftoa_round (d_int (10 ^ p)) (W, of_int \<lfloor>x\<rfloor>, d) = (w, of_nat f)" "f < 10 ^ p" "W \<le> w"
      "\<bar>real_of_int w * 10 ^ p + real f - (of_int W * 10 ^ p + x)\<bar> \<le> 1 / 2" by blast
  have w: "int (nat w) = w" "real (nat w * 10 ^ p + f) = of_int w * 10 ^ p + real f" using f(3) W by simp_all
  have "\<bar>real (nat w * 10 ^ p + f) - r * 10 ^ p\<bar> \<le> 1 / 2 + 1 / 10 ^ 6" using x(5) f(4) diff unfolding w(2) by linarith
  with f(1,2) w(1) x(1) show thesis by (intro that [of "nat w" f]) (simp_all only: r_def)
qed

lemma ftoa_fixed_accurate:
  fixes prec width flags :: u32
  defines "p \<equiv> if has flags FLAGS_PRECISION then unat prec else 6"
  assumes "is_double (Fin m e)" "\<bar>rv (Fin m e)\<bar> \<le> 10 ^ 9" "1 \<le> p" "p \<le> 9" "\<not> has flags FLAGS_ZEROPAD"
    and "\<And>k :: nat. 1 / 10 ^ 6 < \<bar>\<bar>rv (Fin m e)\<bar> * 10 ^ p - (real k * 10 ^ p - 1 / 2)\<bar>"
  obtains n :: nat where "\<bar>real n - \<bar>rv (Fin m e)\<bar> * 10 ^ p\<bar> \<le> 1 / 2 + 1 / 10 ^ 6"
    "ftoa_text (Fin m e) prec width flags =
      Some (field_text width flags (sign_text (rv (Fin m e) < 0) flags @ fixed_notation p n))"
proof -
  obtain m' e' where v: "(if d_less (Fin m e) (d_int 0) then to_double (d_sub (d_int 0) (Fin m e)) else Fin m e) = Fin m' e'"
    "0 \<le> m'" "is_double (Fin m' e')" "rv (Fin m' e') = \<bar>rv (Fin m e)\<bar>"
    by (rule float_abs [OF assms(2,3)])
  obtain w f where f: "ftoa_round (d_int (10 ^ p)) (ftoa_split (Fin m' e') (d_int (10 ^ p))) = (int w, of_nat f)"
    "f < 10 ^ p" "\<bar>real (w * 10 ^ p + f) - \<bar>rv (Fin m e)\<bar> * 10 ^ p\<bar> \<le> 1 / 2 + 1 / 10 ^ 6"
    using ftoa_parts_accurate [OF v(3,2) assms(4,5), unfolded v(4)] assms(7) by blast
  have "w < 10 ^ 10"
  proof -
    have "real w * 10 ^ p \<le> real (w * 10 ^ p + f)" by simp
    also have "\<dots> \<le> \<bar>rv (Fin m e)\<bar> * 10 ^ p + (1 / 2 + 1 / 10 ^ 6)" using f(3) by linarith
    also have "\<dots> \<le> 10 ^ 9 * 10 ^ p + 10 ^ p"
    proof -
      have "1 / 2 + 1 / 10 ^ 6 \<le> (1::real)" "1 \<le> (10::real) ^ p" by simp_all
      then have "1 / 2 + 1 / 10 ^ 6 \<le> (10::real) ^ p" by (rule order_trans)
      moreover have "\<bar>rv (Fin m e)\<bar> * 10 ^ p \<le> 10 ^ 9 * 10 ^ p" using assms(3) by (rule mult_right_mono) simp
      ultimately show ?thesis by (intro add_mono)
    qed
    also have "\<dots> = (10 ^ 9 + 1) * (10::real) ^ p" by (simp only: distrib_right mult_1)
    finally have "real w \<le> 10 ^ 9 + 1" by simp
    then have "real w < real (10 ^ 10)" by simp
    then show ?thesis by (simp only: of_nat_less_iff)
  qed
  then have "ftoa_fixed_text (Fin m e) prec width flags =
      Some (field_text width flags (sign_text (d_less (Fin m e) (d_int 0)) flags @ fixed_notation p (w * 10 ^ p + f)))"
    unfolding p_def by (intro fixed_text_parts [OF v(1)]) (use assms(4-6) f in \<open>simp_all add: p_def\<close>)
  moreover have "ftoa_text (Fin m e) prec width flags = ftoa_fixed_text (Fin m e) prec width flags"
    unfolding ftoa_depth by (rule ftoa_text_fuel_fixed [OF assms(3)])
  ultimately show thesis using f(3) by (intro that) (simp_all only: d_less_zero_rv)
qed

text \<open>Without decimals the rounding is exact, and a tie goes to the even neighbour.\<close>

lemma near_mul_one: "near x f 0 \<Longrightarrow> f = rv (Fin n E) \<Longrightarrow> \<bar>n\<bar> \<le> 2 ^ 53 \<Longrightarrow> - 1074 \<le> E \<Longrightarrow> \<bar>f\<bar> \<le> 1 \<Longrightarrow>
  near (to_double (d_mul x (d_int 1))) f 0"
proof -
  assume a: "near x f 0" "f = rv (Fin n E)" "\<bar>n\<bar> \<le> 2 ^ 53" "- 1074 \<le> E" "\<bar>f\<bar> \<le> 1"
  obtain m e where x: "x = Fin m e" "rv (Fin m e) = f" using a(1) unfolding near_exact by blast
  have "(2::real) powi 0 \<le> 2 powi 1023" by (rule two_powi_mono) simp
  then have small: "\<bar>f\<bar> \<le> 2 powi 1023" using a(5) by simp
  have "near (ext_round m e) (rv (Fin m e)) 0"
    by (rule exact_ext_round [where n = n and E = E]) (use a small x(2) in simp_all)
  then have "near (d_mul x (d_int 1)) f 0" by (simp add: x d_int_def del: rv.simps)
  then show ?thesis by (rule exact_to_double [OF _ a(2-4) small])
qed

lemma ftoa_split_whole:
  assumes "is_double (Fin m e)" "0 \<le> m"
  defines "f \<equiv> rv (Fin m e) - of_int \<lfloor>rv (Fin m e)\<rfloor>"
  obtains d where "ftoa_split (Fin m e) (d_int 1) = (\<lfloor>rv (Fin m e)\<rfloor>, 0, d)" "near d f 0"
proof -
  have fl: "d_trunc (Fin m e) = \<lfloor>rv (Fin m e)\<rfloor>" using assms(2) by (rule d_trunc_floor)
  obtain n E where n: "f = rv (Fin n E)" "0 \<le> n" "n \<le> 2 ^ 53" "- 1074 \<le> E" "rv (Fin n E) \<le> 1 - 2 powi (- 53)"
    unfolding f_def fl [symmetric] by (rule fraction_double [OF assms(1,2)])
  have f: "0 \<le> f" "f < 1" using n(2,5) two_powi_pos [of "- 53"] unfolding n(1) by simp_all
  have "near (to_double (d_mul (d_sub (Fin m e) (d_int \<lfloor>rv (Fin m e)\<rfloor>)) (d_int 1))) f 0"
    using near_fraction(1) [OF assms(1,2)] n(2,3) f unfolding fl f_def [symmetric]
    by (intro near_mul_one [OF _ n(1) _ n(4)]) (simp_all add: abs_le_iff)
  then obtain mt et where t: "to_double (d_mul (d_sub (Fin m e) (d_int \<lfloor>rv (Fin m e)\<rfloor>)) (d_int 1)) = Fin mt et"
    "rv (Fin mt et) = f" unfolding near_exact by blast
  have mt: "0 \<le> mt" using f(1) two_powi_pos [of et] by (auto simp: zero_le_mult_iff not_le simp flip: t(2))
  have "d_trunc (Fin mt et) = 0" using f by (simp only: d_trunc_floor [OF mt] t(2)) (simp add: floor_eq_iff)
  moreover have "is_double (Fin mt et)" using to_double_is_double t(1) by metis
  ultimately have "near (to_double (d_sub (Fin mt et) (d_int 0))) f 0"
    using near_fraction(2) [of mt et] mt by (simp add: t(2) del: rv.simps)
  then show thesis
    using \<open>d_trunc (Fin mt et) = 0\<close> by (intro that) (simp_all only: ftoa_split_def Let_def fl t(1) of_int_0 uint_0_eq)
qed

lemma ftoa_whole_nearest:
  assumes "is_double (Fin m e)" "0 \<le> m"
  obtains n where "ftoa_round_whole (Fin m e) (fst (ftoa_round (d_int 1) (ftoa_split (Fin m e) (d_int 1)))) = int n"
    "\<bar>real n - rv (Fin m e)\<bar> \<le> 1 / 2" "\<bar>real n - rv (Fin m e)\<bar> = 1 / 2 \<Longrightarrow> even n"
proof -
  define r where "r = rv (Fin m e)"
  define W where "W = \<lfloor>r\<rfloor>"
  obtain d where d: "ftoa_split (Fin m e) (d_int 1) = (W, 0, d)" "near d (r - W) 0"
    unfolding W_def r_def by (rule ftoa_split_whole [OF assms])
  have W: "0 \<le> W" "of_int W \<le> r" "r < of_int W + 1" using assms(2) by (simp_all add: W_def r_def)
  note half = half_less [OF d(2)]
  have fl: "d_trunc (Fin m e) = W" using assms(2) unfolding W_def r_def by (rule d_trunc_floor)
  have rest: "near (to_double (d_sub (Fin m e) (d_int W))) (r - W) 0"
    using near_fraction(2) [OF assms] by (simp only: fl r_def)
  show thesis
  proof (cases "1 / 2 < r - W")
    case True
    have "near (d_sub (Fin m e) (d_int (W + 1))) (r - of_int (W + 1)) (0 + 0 + eps)"
      unfolding r_def by (rule near_sub [OF near_self near_int]) (use W True in \<open>simp_all del: rv.simps flip: r_def\<close>)
    then have "near (to_double (d_sub (Fin m e) (d_int (W + 1)))) (r - of_int (W + 1)) (0 + 0 + eps + eps)"
      by (rule near_to_double) (use W True in \<open>simp_all add: eps_def\<close>)
    then obtain m' e' where q: "to_double (d_sub (Fin m e) (d_int (W + 1))) = Fin m' e'" "rv (Fin m' e') < 1 / 2"
      using W(3) by (auto elim!: nearE simp: eps_def abs_if simp del: rv.simps split: if_splits)
    have near: "near (Fin m' e') (rv (Fin m' e')) 0" by (rule near_self)
    have "ftoa_round (d_int 1) (W, 0, d) = (W + 1, 0)" using True half by (simp add: ftoa_round_def d_le_int)
    then have "ftoa_round_whole (Fin m e) (fst (ftoa_round (d_int 1) (ftoa_split (Fin m e) (d_int 1)))) = W + 1"
      using q half_less [OF near] by (simp add: d(1) ftoa_round_whole_def)
    then show thesis using True W by (intro that [of "nat (W + 1)"]) (simp_all del: rv.simps flip: r_def)
  next
    case low: False
    then have "fst (ftoa_round (d_int 1) (W, 0, d)) = W" using half by (simp add: ftoa_round_def)
    then have eq: "ftoa_round_whole (Fin m e) (fst (ftoa_round (d_int 1) (ftoa_split (Fin m e) (d_int 1)))) =
        (if r - W = 1 / 2 \<and> odd W then W + 1 else W)"
      using low half_less [OF rest] by (auto simp: d(1) ftoa_round_whole_def Let_def)
    show thesis
    proof (cases "r - W = 1 / 2 \<and> odd W")
      case True
      then show thesis using eq W by (intro that [of "nat (W + 1)"]) (simp_all add: even_nat_iff del: rv.simps flip: r_def)
    next
      case False
      then show thesis using eq W low by (intro that [of "nat W"]) (auto simp add: even_nat_iff simp del: rv.simps simp flip: r_def)
    qed
  qed
qed

lemma ftoa_whole_accurate:
  assumes "is_double (Fin m e)" "\<bar>rv (Fin m e)\<bar> \<le> 10 ^ 9" "has flags FLAGS_PRECISION" "\<not> has flags FLAGS_ZEROPAD"
  obtains n where "\<bar>real n - \<bar>rv (Fin m e)\<bar>\<bar> \<le> 1 / 2" "\<bar>real n - \<bar>rv (Fin m e)\<bar>\<bar> = 1 / 2 \<Longrightarrow> even n"
    "ftoa_text (Fin m e) 0 width flags =
      Some (field_text width flags (sign_text (rv (Fin m e) < 0) flags @ decimal n))"
proof -
  obtain m' e' where v: "(if d_less (Fin m e) (d_int 0) then to_double (d_sub (d_int 0) (Fin m e)) else Fin m e) = Fin m' e'"
    "0 \<le> m'" "is_double (Fin m' e')" "rv (Fin m' e') = \<bar>rv (Fin m e)\<bar>"
    by (rule float_abs [OF assms(1,2)])
  obtain n where n: "ftoa_round_whole (Fin m' e') (fst (ftoa_round (d_int 1) (ftoa_split (Fin m' e') (d_int 1)))) = int n"
    "\<bar>real n - rv (Fin m' e')\<bar> \<le> 1 / 2" "\<bar>real n - rv (Fin m' e')\<bar> = 1 / 2 \<Longrightarrow> even n"
    using ftoa_whole_nearest [OF v(3,2)] by blast
  have "real n \<le> 10 ^ 9 + 1" using n(2) assms(2) unfolding v(4) by linarith
  then have "real n < real (10 ^ 10)" by simp
  then have "n < 10 ^ 10" by (simp only: of_nat_less_iff)
  have "ftoa_fixed_text (Fin m e) 0 width flags =
      Some (field_text width flags (sign_text (d_less (Fin m e) (d_int 0)) flags @ decimal n @ []))"
    by (rule fixed_text_body [where pr = 0 and prec = 0, OF _ v(1)])
       (use assms(3,4) n(1) \<open>n < 10 ^ 10\<close> in \<open>simp_all add: case_prod_beta\<close>)
  moreover have "ftoa_text (Fin m e) 0 width flags = ftoa_fixed_text (Fin m e) 0 width flags"
    unfolding ftoa_depth by (rule ftoa_text_fuel_fixed [OF assms(2)])
  ultimately show thesis using n(2,3) by (intro that) (simp_all only: v(4) d_less_zero_rv append_Nil2)
qed

text \<open>
  In the range of fixed notation, with 1 to 9 decimals (6 when no precision is given), \<open>_ftoa\<close>
  prints the decimal notation of a nearest number with that many decimals, up to a millionth of
  the last place, in its field and with its sign. Excluded are values within a millionth of the
  ties at which the rollover into the integer part is missing.
\<close>

lemma ftoa_decimals_accurate:
  assumes "is_double (Fin m e)" "\<bar>rv (Fin m e)\<bar> \<le> 10 ^ 9" "\<not> has flags FLAGS_ZEROPAD"
    and "p = (if has flags FLAGS_PRECISION then unat prec else 6)" "1 \<le> p" "p \<le> 9"
    and "\<And>k :: nat. 1 / 10 ^ 6 < \<bar>\<bar>rv (Fin m e)\<bar> * 10 ^ p - (real k * 10 ^ p - 1 / 2)\<bar>"
  shows "\<exists>n :: nat. \<bar>real n - \<bar>rv (Fin m e)\<bar> * 10 ^ p\<bar> \<le> 1 / 2 + 1 / 10 ^ 6 \<and>
    ftoa out idx maxlen (Fin m e) prec width flags s = Some (sends out maxlen idx s
      (field_text width flags (sign_text (rv (Fin m e) < 0) flags @ fixed_notation p n)))"
proof (rule ftoa_fixed_accurate [OF assms(1,2), where flags = flags and prec = prec and width = width, folded assms(4)])
  fix n :: nat
  assume "\<bar>real n - \<bar>rv (Fin m e)\<bar> * 10 ^ p\<bar> \<le> 1 / 2 + 1 / 10 ^ 6"
    "ftoa_text (Fin m e) prec width flags =
      Some (field_text width flags (sign_text (rv (Fin m e) < 0) flags @ fixed_notation p n))"
  then show ?thesis by (auto simp: ftoa_sends simp del: rv.simps)
qed (rule assms)+

text \<open>
  C29: with precision 0 and without the \<open>0\<close> flag \<open>_ftoa\<close> prints every value of absolute value up to
  10^9 as the nearest integer, the even one of two, with its sign and space padding.
\<close>

theorem ftoa_nearest_integer:
  assumes "is_double (Fin m e)" "\<bar>rv (Fin m e)\<bar> \<le> 10 ^ 9" "has flags FLAGS_PRECISION" "\<not> has flags FLAGS_ZEROPAD"
  shows "\<exists>n :: nat. \<bar>real n - \<bar>rv (Fin m e)\<bar>\<bar> \<le> 1 / 2 \<and> (\<bar>real n - \<bar>rv (Fin m e)\<bar>\<bar> = 1 / 2 \<longrightarrow> even n) \<and>
    ftoa out idx maxlen (Fin m e) 0 width flags s = Some (sends out maxlen idx s
      (field_text width flags (sign_text (rv (Fin m e) < 0) flags @ decimal n)))"
proof (rule ftoa_whole_accurate [OF assms, of width])
  fix n :: nat
  assume "\<bar>real n - \<bar>rv (Fin m e)\<bar>\<bar> \<le> 1 / 2" "\<bar>real n - \<bar>rv (Fin m e)\<bar>\<bar> = 1 / 2 \<Longrightarrow> even n"
    "ftoa_text (Fin m e) 0 width flags =
      Some (field_text width flags (sign_text (rv (Fin m e) < 0) flags @ decimal n))"
  then show ?thesis by (auto simp: ftoa_sends simp del: rv.simps)
qed

theorem ftoa_nearest_integer_witness:
  "ftoa (\<lambda>c s idx maxlen. s @ [c]) 0 100 (Fin 5 (- 1)) 0 0 FLAGS_PRECISION [] = Some (cstr ''2'', 1)"
proof -
  have v: "rv (Fin 5 (- 1)) = 5 / 2" by (simp add: power_int_def)
  obtain n :: nat where n: "\<bar>real n - 5 / 2\<bar> \<le> 1 / 2" "\<bar>real n - 5 / 2\<bar> = 1 / 2 \<Longrightarrow> even n"
    "ftoa (\<lambda>c s idx maxlen. s @ [c]) 0 100 (Fin 5 (- 1)) 0 0 FLAGS_PRECISION [] =
      Some (sends (\<lambda>c s idx maxlen. s @ [c]) 100 0 []
        (field_text 0 FLAGS_PRECISION (sign_text False FLAGS_PRECISION @ decimal n)))"
    using ftoa_nearest_integer [of 5 "- 1" FLAGS_PRECISION "\<lambda>c s idx maxlen. s @ [c]" 0 100 0 "[]"]
    by (auto simp: v has_def flag_defs bit_length.simps)
  from n(1) have "n = 2 \<or> n = 3" by linarith
  then have "n = 2" using n(2) by auto
  with n(3) show ?thesis
    by (simp add: field_text_def decimal_def nat_digits.simps sign_text_def pad_text_def
        has_def flag_defs sends_def eval_simps)
qed

section \<open>Exponential notation\<close>

text \<open>
  \<open>_etoa\<close> reads the exponent of its value from the bits, also when the value is zero.
\<close>

lemma etoa_exponent_zero: "etoa_exponent (d_int 0) = (- 308, Fin 2024022533640119 (- 1074))"
  by code_simp

lemma etoa_suffix_308: "etoa_suffix_text printed (- 308) 5 0 FLAGS_PRECISION = cstr ''e-308''"
  by code_simp

text \<open>
  C34: \<open>_etoa\<close> prints zero with the exponent of the least power of ten, \<open>0.00e-308\<close> with two
  decimals.
\<close>

theorem etoa_zero:
  assumes "unat prec \<le> 9"
  shows "etoa out idx maxlen (d_int 0) prec 0 FLAGS_PRECISION s = Some (sends out maxlen idx s
    (cstr ''0'' @ (if prec = 0 then [] else ch CHR ''.'' # replicate (unat prec) (ch CHR ''0'')) @ cstr ''e-308''))"
proof -
  have flags: "FLAGS_PRECISION AND NOT FLAGS_ADAPT_EXP = FLAGS_PRECISION" "has FLAGS_PRECISION FLAGS_PRECISION"
    "\<not> has FLAGS_PRECISION FLAGS_ADAPT_EXP" by (simp_all add: has_def flag_defs)
  have zero: "d_less (d_int 0) (d_int 0) = False" "\<not> not_finite (d_int 0)"
    by (simp_all add: not_finite_def DBL_MAX_def d_int_def align_def)
  have quot: "to_double (d_div (d_int 0) (Fin 2024022533640119 (- 1074))) = d_int 0" by code_simp
  have layout: "etoa_layout (d_int 0) (- 308) prec 0 FLAGS_PRECISION = (prec, FLAGS_PRECISION, 5, - 308, 0)"
    by (simp add: etoa_layout_def flags)
  have dec: "int_decimal 0 = cstr ''0''" by (simp add: int_decimal_def decimal_def nat_digits.simps)
  have "ftoa_text (d_int 0) prec 0 FLAGS_PRECISION = ftoa_fixed_text (d_int 0) prec 0 FLAGS_PRECISION"
    unfolding ftoa_depth d_int_def by (rule ftoa_text_fuel_fixed) simp
  with whole_fixed_text [of 0 prec] assms have cs: "ftoa_text (d_int 0) prec 0 FLAGS_PRECISION =
      Some (cstr ''0'' @ (if prec = 0 then [] else ch CHR ''.'' # replicate (unat prec) (ch CHR ''0'')))"
    by (simp add: dec)
  show ?thesis
    by (simp only: etoa_sends etoa_text_def etoa_text_with_def zero if_False simp_thms Let_def flags if_True
        etoa_exponent_zero prod.case layout) (simp add: quot cs flags etoa_suffix_308)
qed

theorem etoa_zero_witness:
  "etoa (\<lambda>c s idx maxlen. s @ [c]) 0 100 (d_int 0) 1 0 FLAGS_PRECISION [] = Some (cstr ''0.0e-308'', 8)"
  using etoa_zero [of 1 "\<lambda>c s idx maxlen. s @ [c]" 0 100 "[]"]
  by (simp add: sends_def eval_simps)

text \<open>
  The power of ten that \<open>_etoa\<close> divides by is too large for some exponents: the mantissa it prints
  for \<open>0.00001\<close> is below one and has eight exact digits only.
\<close>

lemma etoa_small_mantissa:
  "etoa (\<lambda>c s idx maxlen. s @ [c]) 0 100 (to_double (d_div (d_int 1) (d_int 100000))) 9 0 FLAGS_PRECISION [] =
    Some (cstr ''0.999999986e-05'', 15)"
  by code_simp

end
