(* ===== verification/Directive_Float.thy ===== *)
theory Directive_Float
  imports Directive Ftoa_Exact
begin

text \<open>
  The directives \<open>%f\<close> and \<open>%F\<close> of \<^verbatim>\<open>libc/stdio.c\<close>: the parser, the conversion and the output
  together print a number that is rounded to the asked precision.
\<close>

lemma has_uppercase:
  "has (fl OR FLAGS_UPPERCASE) FLAGS_LEFT = has fl FLAGS_LEFT" "has (fl OR FLAGS_UPPERCASE) FLAGS_PLUS = has fl FLAGS_PLUS"
  "has (fl OR FLAGS_UPPERCASE) FLAGS_SPACE = has fl FLAGS_SPACE" "has (fl OR FLAGS_UPPERCASE) FLAGS_ZEROPAD = has fl FLAGS_ZEROPAD"
  "has (fl OR FLAGS_UPPERCASE) FLAGS_PRECISION = has fl FLAGS_PRECISION"
  by (simp_all add: has_or_left) (simp_all add: has_def flag_defs)

lemma fixed_field_uppercase:
  "field_text width (fl OR FLAGS_UPPERCASE) (sign_text neg (fl OR FLAGS_UPPERCASE) @ cs) = field_text width fl (sign_text neg fl @ cs)"
  by (simp add: field_text_def sign_text_def has_uppercase)

lemma fixed_no_zero: "filter (\<lambda>c. c \<noteq> 0) (field_text width fl (sign_text neg fl @ fixed_notation p n)) =
    field_text width fl (sign_text neg fl @ fixed_notation p n)"
proof -
  have "filter (\<lambda>c. c \<noteq> 0) (decimal k) = decimal k" for k
    using decimal_no_zero [of "int k"] by (simp add: int_decimal_def)
  then show ?thesis by (simp add: field_text_def fixed_notation_def Let_def sign_text_def pad_text_def)
qed

text \<open>The precision a directive asks for.\<close>

definition directive_decimals :: "directive \<Rightarrow> nat" where
  "directive_decimals d = (if dprecision d = None then 6 else unat (precision_of (dprecision d)))"

lemma fixed_piece:
  assumes "ZeroPad \<notin> set (dflags d)" "c = ch CHR ''f'' \<or> c = ch CHR ''F''"
    and "is_double (Fin m e)" "\<bar>rv (Fin m e)\<bar> \<le> 10 ^ 9" "p = directive_decimals d" "1 \<le> p" "p \<le> 9"
    and "\<And>k :: nat. 1 / 10 ^ 6 < \<bar>\<bar>rv (Fin m e)\<bar> * 10 ^ p - (real k * 10 ^ p - 1 / 2)\<bar>"
  obtains n where "\<bar>real n - \<bar>rv (Fin m e)\<bar> * 10 ^ p\<bar> \<le> 1 / 2 + 1 / 10 ^ 6"
    "piece_text (Conv d c [VDouble (Fin m e)]) = Some (field_text (width_of (dwidth d)) (directive_flags d)
      (sign_text (rv (Fin m e) < 0) (directive_flags d) @ fixed_notation p n))"
proof -
  let ?fl = "directive_flags d"
  define fl where "fl = (if c = ch CHR ''F'' then ?fl OR FLAGS_UPPERCASE else ?fl)"
  have z: "\<not> has fl FLAGS_ZEROPAD" using assms(1) by (simp add: fl_def has_uppercase has_directive_flags)
  have p: "p = (if has fl FLAGS_PRECISION then unat (precision_of (dprecision d)) else 6)"
    by (simp add: fl_def has_uppercase has_directive_flags assms(5) directive_decimals_def)
  obtain n where n: "\<bar>real n - \<bar>rv (Fin m e)\<bar> * 10 ^ p\<bar> \<le> 1 / 2 + 1 / 10 ^ 6"
    "ftoa_text (Fin m e) (precision_of (dprecision d)) (width_of (dwidth d)) fl =
      Some (field_text (width_of (dwidth d)) fl (sign_text (rv (Fin m e) < 0) fl @ fixed_notation p n))"
    by (rule ftoa_fixed_accurate [OF assms(3,4), where flags = fl and prec = "precision_of (dprecision d)", folded p])
       (rule assms z | assumption)+
  have "field_text (width_of (dwidth d)) fl (sign_text (rv (Fin m e) < 0) fl @ fixed_notation p n) =
      field_text (width_of (dwidth d)) ?fl (sign_text (rv (Fin m e) < 0) ?fl @ fixed_notation p n)"
    by (simp add: fl_def fixed_field_uppercase)
  moreover have "c \<notin> set (cstr ''diuxXob'')" "c \<in> set (cstr ''fF'')" using assms(2) by auto
  ultimately have "piece_text (Conv d c [VDouble (Fin m e)]) = Some (field_text (width_of (dwidth d)) ?fl
      (sign_text (rv (Fin m e) < 0) ?fl @ fixed_notation p n))"
    using n(2) by (simp only: piece_text.simps convert_text_def conv_fixed_text_def fl_def [symmetric] Let_def if_True if_False) simp
  with n(1) show thesis by (rule that)
qed

text \<open>
  C16: \<open>printf\<close> with \<open>%f\<close> or \<open>%F\<close>, any flags but \<open>0\<close>, any width and a precision from 1 to 9 (or
  none, which is 6) prints a value of absolute value up to 10^9 as the decimal notation of a nearest
  number with that many decimals, up to a millionth of the last place, with the sign and on the
  side of the field that the flags ask for. Excluded are the values within a millionth of the last
  place of half a last place below a whole number, where the code can print wrong digits
  (\<open>ftoa_tie_garbage\<close>).
\<close>

theorem printf_fixed_field:
  assumes "wf_directive d" "ZeroPad \<notin> set (dflags d)" "literal cs" "literal ds" "c = ch CHR ''f'' \<or> c = ch CHR ''F''"
    and "is_double (Fin m e)" "\<bar>rv (Fin m e)\<bar> \<le> 10 ^ 9" "p = directive_decimals d" "1 \<le> p" "p \<le> 9"
    and "\<And>k :: nat. 1 / 10 ^ 6 < \<bar>\<bar>rv (Fin m e)\<bar> * 10 ^ p - (real k * 10 ^ p - 1 / 2)\<bar>"
  shows "\<exists>n :: nat. \<bar>real n - \<bar>rv (Fin m e)\<bar> * 10 ^ p\<bar> \<le> 1 / 2 + 1 / 10 ^ 6 \<and>
    printf (cs @ ch CHR ''%'' # show_directive d @ c # ds) (directive_args d @ [VDouble (Fin m e)]) s =
      (let text = cs @ field_text (width_of (dwidth d)) (directive_flags d)
          (sign_text (rv (Fin m e) < 0) (directive_flags d) @ fixed_notation p n) @ ds
       in Some (fold tty_putc text s, of_nat (length text)))"
proof (rule fixed_piece [OF assms(2,5-10)])
  fix n
  assume n: "\<bar>real n - \<bar>rv (Fin m e)\<bar> * 10 ^ p\<bar> \<le> 1 / 2 + 1 / 10 ^ 6"
    "piece_text (Conv d c [VDouble (Fin m e)]) = Some (field_text (width_of (dwidth d)) (directive_flags d)
      (sign_text (rv (Fin m e) < 0) (directive_flags d) @ fixed_notation p n))"
  let ?ps = "[Text cs, Conv d c [VDouble (Fin m e)], Text ds]"
  have "show_pieces ?ps = cs @ ch CHR ''%'' # show_directive d @ c # ds"
    "pieces_args ?ps = directive_args d @ [VDouble (Fin m e)]"
    by (simp_all add: show_pieces_def pieces_args_def)
  moreover have "list_all wf_piece ?ps" using assms(1,3-5) by (auto simp: field_chars_def)
  moreover have "pieces_text ?ps = Some (cs @ field_text (width_of (dwidth d)) (directive_flags d)
      (sign_text (rv (Fin m e) < 0) (directive_flags d) @ fixed_notation p n) @ ds)"
    using n(2) by (simp del: piece_text.simps(2))
  ultimately show ?thesis
    using format_text_pieces [of ?ps] n(1)
    by (intro exI [of _ n]) (simp add: printf_sends fixed_no_zero literal_no_zero assms(3,4) Let_def del: rv.simps)
qed (rule assms)

theorem printf_fixed_field_witness:
  "\<forall>s :: tty. printf (cstr ''[%+7.1f]'') [VDouble (Fin 3 (- 1))] s = Some (fold tty_putc (cstr ''[   +1.5]'') s, 9)"
proof
  fix s :: tty
  let ?d = "\<lparr> dflags = [PlusSign], dwidth = Number 7, dprecision = Some (Number 1), dlength = NoLength \<rparr>"
  have v: "rv (Fin 3 (- 1)) = 3 / 2" by (simp add: power_int_def)
  have "1 / 10 ^ 6 < \<bar>\<bar>rv (Fin 3 (- 1))\<bar> * 10 ^ 1 - (real k * 10 ^ 1 - 1 / 2)\<bar>" for k :: nat
    by (cases "k \<le> 1") (simp_all add: v not_le)
  then obtain n :: nat where n: "\<bar>real n - 15\<bar> \<le> 1 / 2 + 1 / 10 ^ 6"
    "printf (cstr ''['' @ ch CHR ''%'' # show_directive ?d @ ch CHR ''f'' # cstr '']'') [VDouble (Fin 3 (- 1))] s =
      (let text = cstr ''['' @ field_text 7 (directive_flags ?d)
          (sign_text False (directive_flags ?d) @ fixed_notation 1 n) @ cstr '']''
       in Some (fold tty_putc text s, of_nat (length text)))"
    using printf_fixed_field [of ?d "cstr ''[''" "cstr '']''" "ch CHR ''f''" 3 "- 1" 1 s]
    by (auto simp: v wf_directive_def literal_def directive_args_def directive_decimals_def bit_length.simps)
  have "\<bar>real n - 15\<bar> < 1" using n(1) by (rule le_less_trans) simp
  then have "n = 15" by linarith
  with n(2) show "printf (cstr ''[%+7.1f]'') [VDouble (Fin 3 (- 1))] s = Some (fold tty_putc (cstr ''[   +1.5]'') s, 9)"
    by (simp add: show_directive_def directive_flags_def flag_word_def field_text_def fixed_notation_def has_def flag_defs
        sign_text_def pad_text_def decimal_def nat_digits.simps eval_simps)
qed

end
