(* ===== verification/Ntoa_Standard.thy ===== *)
theory Ntoa_Standard
  imports Ntoa_Props
begin

text \<open>
  What the C standard asks of the integer conversions (C11, 7.21.6.1), as a function of a sign, the
  digits, and the flags, width and precision that were given; and where \<open>_ntoa_long\<close> and
  \<open>_ntoa_long_long\<close> of \<^verbatim>\<open>libc/stdio.c\<close> meet it, and where they do not.
\<close>

section \<open>The reference\<close>

text \<open>The notation of a number in a base, most significant digit first.\<close>

definition digit_sign :: "bool \<Rightarrow> nat \<Rightarrow> u8" where
  "digit_sign upper d = (if d < 10 then ch CHR ''0'' + of_nat d
     else (if upper then ch CHR ''A'' else ch CHR ''a'') + of_nat (d - 10))"

definition notation_of :: "nat \<Rightarrow> bool \<Rightarrow> nat \<Rightarrow> u8 list" where
  "notation_of base upper n = rev (map (digit_sign upper) (nat_digits base n))"

text \<open>
  The precision is the least number of digits; zero with the precision zero has no digits. The
  field is padded with spaces, on the right when it is left aligned, or with zeros behind the sign
  when the \<open>0\<close> flag is given and neither left alignment nor a precision.
\<close>

definition standard_digits :: "nat option \<Rightarrow> nat \<Rightarrow> bool \<Rightarrow> nat \<Rightarrow> u8 list" where
  "standard_digits prec base upper n = (case prec of None \<Rightarrow> notation_of base upper n
     | Some p \<Rightarrow> if p = 0 \<and> n = 0 then []
         else replicate (p - length (notation_of base upper n)) (ch CHR ''0'') @ notation_of base upper n)"

definition standard_field :: "bool \<Rightarrow> bool \<Rightarrow> nat \<Rightarrow> nat option \<Rightarrow> u8 list \<Rightarrow> u8 list \<Rightarrow> u8 list" where
  "standard_field left zero width prec sign ds =
     (let fill = width - length (sign @ ds)
      in if left then sign @ ds @ replicate fill (ch CHR '' '')
         else if zero \<and> prec = None then sign @ replicate fill (ch CHR ''0'') @ ds
         else replicate fill (ch CHR '' '') @ sign @ ds)"

section \<open>Where the code meets it\<close>

lemma digits_text_notation:
  fixes v base :: "'w::len word"
  assumes "2 \<le> unat base" "unat base \<le> 36"
  shows "rev (digits_text v base flags) = notation_of (unat base) (has flags FLAGS_UPPERCASE) (unat v)"
proof -
  have "digit_char flags (of_nat d) = digit_sign (has flags FLAGS_UPPERCASE) d" if "d \<in> set (nat_digits (unat base) n)" for d n
  proof -
    have d: "d < 36" using nat_digits_less [OF _ that] assms by simp
    then have "(of_nat d :: u8) < 10 \<longleftrightarrow> d < 10" by (simp add: word_less_nat_alt unat_of_nat)
    moreover have "(of_nat (d - 10) :: u8) = of_nat d - 10" if "10 \<le> d" using that by (simp add: of_nat_diff)
    ultimately show ?thesis by (simp add: digit_char_def digit_sign_def)
  qed
  then show ?thesis by (simp add: digits_text_def notation_of_def cong: map_cong)
qed

text \<open>With a precision the digits of zero are zeros of the precision.\<close>

lemma standard_digits_core:
  "standard_digits (Some p) base upper n =
    (let core = if n = 0 then [] else notation_of base upper n in replicate (p - length core) (ch CHR ''0'') @ core)"
proof (cases "n = 0")
  case True
  then have "notation_of base upper n = [ch CHR ''0'']"
    by (simp add: notation_of_def nat_digits.simps digit_sign_def)
  then show ?thesis using True by (cases p) (simp_all add: standard_digits_def replicate_append_same)
qed (simp add: standard_digits_def Let_def)

definition precision_given :: "u32 \<Rightarrow> u32 \<Rightarrow> nat option" where
  "precision_given flags prec = (if has flags FLAGS_PRECISION then Some (unat prec) else None)"

text \<open>
  The calls for which the buffer has room: the digits and the zeros of the precision with the sign
  in 32 characters, and a zero-padded field of 32.
\<close>

definition fits_buffer :: "bool \<Rightarrow> nat \<Rightarrow> nat \<Rightarrow> u32 \<Rightarrow> u32 \<Rightarrow> u32 \<Rightarrow> bool" where
  "fits_buffer negative base n prec width flags \<longleftrightarrow>
     length (notation_of base (has flags FLAGS_UPPERCASE) n) + length (sign_text negative flags) \<le> 32 \<and>
     unat prec + length (sign_text negative flags) \<le> 32 \<and> 
     (has flags FLAGS_ZEROPAD \<and> \<not> has flags FLAGS_LEFT \<longrightarrow> unat width \<le> 32)"

text \<open>
  The calls that \<open>_vsnprintf\<close> makes for directives without \<open>#\<close>, and with left alignment only
  without a precision.
\<close>

definition standard_call :: "bool \<Rightarrow> nat \<Rightarrow> nat \<Rightarrow> u32 \<Rightarrow> u32 \<Rightarrow> u32 \<Rightarrow> bool" where
  "standard_call negative base n prec width flags \<longleftrightarrow> \<not> has flags FLAGS_HASH \<and>
     (has flags FLAGS_PRECISION \<longrightarrow> \<not> has flags FLAGS_LEFT \<and> \<not> has flags FLAGS_ZEROPAD) \<and>
     (\<not> has flags FLAGS_PRECISION \<longrightarrow> prec = 0) \<and> fits_buffer negative base n prec width flags"

lemma standard_callD:
  assumes "standard_call negative base n prec width flags"
  shows "\<not> has flags FLAGS_HASH"
    and "has flags FLAGS_PRECISION \<Longrightarrow> \<not> has flags FLAGS_LEFT \<and> \<not> has flags FLAGS_ZEROPAD"
    and "\<not> has flags FLAGS_PRECISION \<Longrightarrow> prec = 0"
    and "fits_buffer negative base n prec width flags"
  using assms by (simp_all add: standard_call_def)

definition standard_text :: "bool \<Rightarrow> nat \<Rightarrow> nat \<Rightarrow> u32 \<Rightarrow> u32 \<Rightarrow> u32 \<Rightarrow> u8 list" where
  "standard_text negative base n prec width flags =
     standard_field (has flags FLAGS_LEFT) (has flags FLAGS_ZEROPAD) (unat width) (precision_given flags prec)
       (sign_text negative flags)
       (standard_digits (precision_given flags prec) base (has flags FLAGS_UPPERCASE) n)"

text \<open>The digits, the sign and the room for them in a call that the standard covers.\<close>

lemma standard_call_facts:
  fixes v base :: "'w::len word"
  assumes base: "2 \<le> unat base" "unat base \<le> 36"
    and call: "standard_call negative (unat base) (unat v) prec width flags"
  shows "rev (digits_text v base flags) = notation_of (unat base) (has flags FLAGS_UPPERCASE) (unat v)"
    and "append_max [] (digits_text v base flags) = digits_text v base flags"
    and "no_hash_for_zero v flags = flags"
    and "length (digits_text v base flags) + length (sign_text negative flags) \<le> 32"
proof -
  show "rev (digits_text v base flags) = notation_of (unat base) (has flags FLAGS_UPPERCASE) (unat v)"
    by (rule digits_text_notation [OF base])
  then have "length (digits_text v base flags) = length (notation_of (unat base) (has flags FLAGS_UPPERCASE) (unat v))"
    by (metis length_rev)
  then show room: "length (digits_text v base flags) + length (sign_text negative flags) \<le> 32"
    using standard_callD(4) [OF call] by (simp add: fits_buffer_def)
  then show "append_max [] (digits_text v base flags) = digits_text v base flags"
    by (simp add: append_max_short)
  show "no_hash_for_zero v flags = flags"
    using standard_callD(1) [OF call] by (simp add: no_hash_for_zero_def and_not_unset)
qed

lemma ntoa_text_with_precision:
  fixes v base :: "'w::len word"
  assumes base: "2 \<le> unat base" "unat base \<le> 36"
    and call: "standard_call negative (unat base) (unat v) prec width flags" and prec: "has flags FLAGS_PRECISION"
  shows "ntoa_text v base negative prec width flags = standard_text negative (unat base) (unat v) prec width flags"
proof -
  let ?t = "digits_text v base flags" and ?s = "sign_text negative flags"
  let ?core = "if v = 0 then [] else ?t"
  note t = standard_call_facts [OF base call] and left = standard_callD(2) [OF call prec]
  have room: "unat prec + length ?s \<le> 32" using standard_callD(4) [OF call] by (simp add: fits_buffer_def)
  have z: "append_max (zeros_to prec ?core) ?s = zeros_to prec ?core @ ?s"
    using room t(4) by (intro append_max_short) (auto simp: zeros_to_def PRINTF_NTOA_BUFFER_SIZE_def)
  have m: "min (unat prec) 32 = unat prec" using room by simp
  have "v = 0 \<longleftrightarrow> unat v = 0" by (simp add: unat_eq_zero)
  moreover have "length ?t = length (notation_of (unat base) (has flags FLAGS_UPPERCASE) (unat v))"
    using t(1) by (metis length_rev)
  ultimately have ds: "rev (zeros_to prec ?core) =
      standard_digits (Some (unat prec)) (unat base) (has flags FLAGS_UPPERCASE) (unat v)"
    using t(1) by (simp add: standard_digits_core zeros_to_def PRINTF_NTOA_BUFFER_SIZE_def m Let_def)
  have "ntoa_text v base negative prec width flags = out_rev_text (append_max (zeros_to prec ?core) ?s) width flags"
    using prec left standard_callD(1) [OF call]
    by (simp add: ntoa_text_def t(2,3) ntoa_format_text_def pad_digits_def hash_digits_def Let_def zeropad_width_def)
  also have "\<dots> = standard_field False False (unat width) (Some (unat prec)) ?s (rev (zeros_to prec ?core))"
    using left by (simp only: z) (simp add: out_rev_text_def standard_field_def pad_text_def add.commute)
  finally show ?thesis using prec left by (simp add: ds standard_text_def precision_given_def)
qed

lemma ntoa_text_zero_padded:
  fixes v base :: "'w::len word"
  assumes base: "2 \<le> unat base" "unat base \<le> 36"
    and call: "standard_call negative (unat base) (unat v) prec width flags" and prec: "\<not> has flags FLAGS_PRECISION"
    and zero: "has flags FLAGS_ZEROPAD" "\<not> has flags FLAGS_LEFT"
  shows "ntoa_text v base negative prec width flags = standard_text negative (unat base) (unat v) prec width flags"
proof -
  let ?t = "digits_text v base flags" and ?s = "sign_text negative flags" and ?w = "zeropad_width negative width flags"
  note t = standard_call_facts [OF base call] and w = unat_zeropad_width [OF zero, of negative width]
  have room: "unat width \<le> 32" using standard_callD(4) [OF call] zero by (simp add: fits_buffer_def)
  have z: "append_max (zeros_to ?w ?t) ?s = zeros_to ?w ?t @ ?s"
    using room t(4) by (intro append_max_short) (auto simp: zeros_to_def w PRINTF_NTOA_BUFFER_SIZE_def)
  have p: "zeros_to prec ?t = ?t" using standard_callD(3) [OF call prec] by (simp add: zeros_to_def)
  have m: "min (unat width - length ?s) 32 = unat width - length ?s" using room by simp
  have "length (notation_of (unat base) (has flags FLAGS_UPPERCASE) (unat v)) = length ?t"
    using t(1) by (metis length_rev)
  moreover have "ntoa_text v base negative prec width flags = rev (append_max (zeros_to ?w ?t) ?s)"
    using zero prec standard_callD(1) [OF call]
    by (simp add: ntoa_text_def t(2,3) ntoa_format_text_def pad_digits_def hash_digits_def out_rev_text_def p Let_def)
  ultimately show ?thesis
    using zero prec unfolding z
    by (simp add: zeros_to_def w PRINTF_NTOA_BUFFER_SIZE_def m t(1) standard_text_def standard_field_def
        standard_digits_def precision_given_def Let_def)
qed

lemma ntoa_text_space_padded:
  fixes v base :: "'w::len word"
  assumes base: "2 \<le> unat base" "unat base \<le> 36"
    and call: "standard_call negative (unat base) (unat v) prec width flags" and prec: "\<not> has flags FLAGS_PRECISION"
    and "has flags FLAGS_LEFT \<or> \<not> has flags FLAGS_ZEROPAD"
  shows "ntoa_text v base negative prec width flags = standard_text negative (unat base) (unat v) prec width flags"
proof -
  let ?t = "digits_text v base flags" and ?s = "sign_text negative flags"
  note t = standard_call_facts [OF base call]
  have "length (notation_of (unat base) (has flags FLAGS_UPPERCASE) (unat v)) = length ?t"
    using t(1) by (metis length_rev)
  moreover have "append_max ?t ?s = ?t @ ?s" using t(4) by (intro append_max_short) simp
  moreover have "zeros_to prec ?t = ?t" using standard_callD(3) [OF call prec] by (simp add: zeros_to_def)
  ultimately show ?thesis
    using assms(5) prec standard_callD(1) [OF call]
    by (auto simp: ntoa_text_def t ntoa_format_text_def pad_digits_def hash_digits_def out_rev_text_def
        standard_text_def standard_field_def standard_digits_def precision_given_def Let_def zeropad_width_def
        pad_text_def add.commute)
qed

lemma ntoa_text_standard:
  fixes v base :: "'w::len word"
  assumes "2 \<le> unat base" "unat base \<le> 36"
    and "standard_call negative (unat base) (unat v) prec width flags"
  shows "ntoa_text v base negative prec width flags = standard_text negative (unat base) (unat v) prec width flags"
  using ntoa_text_with_precision [OF assms] ntoa_text_zero_padded [OF assms] ntoa_text_space_padded [OF assms] by blast

text \<open>
  C18: without the \<open>#\<close> flag, and with left alignment only without a precision, \<open>_ntoa_long\<close> and
  \<open>_ntoa_long_long\<close> send what the C standard asks for, in every base up to 36 and for every width,
  precision and number for which the conversion buffer has room.
\<close>

theorem ntoa_standard:
  assumes "2 \<le> unat base" "unat base \<le> 36" "2 \<le> unat base'" "unat base' \<le> 36"
    and "standard_call negative (unat base) (unat v) prec width flags"
    and "standard_call negative (unat base') (unat w) prec width flags"
  shows "ntoa_long out idx maxlen v negative base prec width flags s =
      sends out maxlen idx s (standard_text negative (unat base) (unat v) prec width flags) \<and>
    ntoa_long_long out idx maxlen w negative base' prec width flags s =
      sends out maxlen idx s (standard_text negative (unat base') (unat w) prec width flags)"
  by (simp only: ntoa_long_sends ntoa_long_long_sends assms ntoa_text_standard simp_thms)

theorem ntoa_standard_witness:
  "ntoa_long (\<lambda>c s idx maxlen. s @ [c]) 0 100 42 True 10 5 8 FLAGS_PRECISION [] = (cstr ''  -00042'', 8) \<and>
    ntoa_long_long (\<lambda>c s idx maxlen. s @ [c]) 0 100 0xBEEF True 16 5 8 FLAGS_PRECISION [] = (cstr ''  -0beef'', 8)"
proof -
  have "standard_call True (unat (10 :: u32)) (unat (42 :: u32)) 5 8 FLAGS_PRECISION"
    "standard_call True (unat (16 :: u64)) (unat (0xBEEF :: u64)) 5 8 FLAGS_PRECISION"
    by (simp_all add: standard_call_def fits_buffer_def has_def flag_defs notation_of_def nat_digits.simps sign_text_def)
  from ntoa_standard [OF _ _ _ _ this, where out = "\<lambda>c s idx maxlen. s @ [c]" and idx = 0 and maxlen = 100 and s = "[]"]
  show ?thesis
    by (simp add: standard_text_def standard_field_def standard_digits_def precision_given_def has_def flag_defs
        notation_of_def nat_digits.simps digit_sign_def sign_text_def sends_def eval_simps Let_def)
qed

section \<open>Where it does not\<close>

text \<open>
  The text of a call with left alignment: the precision does not count, but for the flag that it is
  given, which makes zero empty.
\<close>

lemma has_without_precision:
  "has (flags AND NOT FLAGS_PRECISION) FLAGS_LEFT = has flags FLAGS_LEFT"
  "has (flags AND NOT FLAGS_PRECISION) FLAGS_HASH = has flags FLAGS_HASH"
  "has (flags AND NOT FLAGS_PRECISION) FLAGS_PLUS = has flags FLAGS_PLUS"
  "has (flags AND NOT FLAGS_PRECISION) FLAGS_SPACE = has flags FLAGS_SPACE"
  "has (flags AND NOT FLAGS_PRECISION) FLAGS_UPPERCASE = has flags FLAGS_UPPERCASE"
  unfolding has_iff_bit unfolding FLAGS_PRECISION_def
  by (simp_all only: bit_and_iff bit_not_iff bit_push_bit_iff) simp_all

lemma ntoa_text_left:
  assumes "has flags FLAGS_LEFT" "\<not> has flags FLAGS_HASH"
  shows "ntoa_text v base negative prec width flags = ntoa_text v base negative 0 width flags"
    and "v \<noteq> 0 \<Longrightarrow> ntoa_text v base negative prec width flags =
      ntoa_text v base negative 0 width (flags AND NOT FLAGS_PRECISION)"
proof -
  have f: "no_hash_for_zero v flags = flags" "no_hash_for_zero v (flags AND NOT FLAGS_PRECISION) = flags AND NOT FLAGS_PRECISION"
    using assms(2) by (simp_all add: no_hash_for_zero_def and_not_unset has_without_precision)
  have d: "digits_text v base (flags AND NOT FLAGS_PRECISION) = digits_text v base flags"
    by (simp add: digits_text_def digit_char_def has_without_precision)
  have s: "sign_text negative (flags AND NOT FLAGS_PRECISION) = sign_text negative flags"
    by (simp add: sign_text_def has_without_precision)
  show "ntoa_text v base negative prec width flags = ntoa_text v base negative 0 width flags"
    using assms by (simp add: ntoa_text_def ntoa_format_text_def pad_digits_def hash_digits_def f)
  show "ntoa_text v base negative prec width flags =
      ntoa_text v base negative 0 width (flags AND NOT FLAGS_PRECISION)" if "v \<noteq> 0"
    using assms that
    by (simp add: ntoa_text_def f d s ntoa_format_text_def pad_digits_def hash_digits_def out_rev_text_def
        zeropad_width_def has_without_precision Let_def)
qed

text \<open>
  C37: with left alignment and without \<open>#\<close>, \<open>_ntoa_long\<close> and \<open>_ntoa_long_long\<close> print a number other
  than zero as if no precision were given, so that \<open>%-8.5d\<close> of 42 prints no zeros; for zero the value
  of the precision does not count either, only that one is given.
\<close>

theorem ntoa_left_ignores_precision:
  assumes "has flags FLAGS_LEFT" "\<not> has flags FLAGS_HASH" "2 \<le> unat base" "2 \<le> unat base'"
  shows "ntoa_long out idx maxlen v negative base prec width flags s =
      ntoa_long out idx maxlen v negative base 0 width (if v = 0 then flags else flags AND NOT FLAGS_PRECISION) s \<and>
    ntoa_long_long out idx maxlen w negative base' prec width flags s =
      ntoa_long_long out idx maxlen w negative base' 0 width (if w = 0 then flags else flags AND NOT FLAGS_PRECISION) s"
  using ntoa_text_left(1) [OF assms(1,2), of v base negative prec width]
    ntoa_text_left(2) [OF assms(1,2), of v base negative prec width]
    ntoa_text_left(1) [OF assms(1,2), of w base' negative prec width]
    ntoa_text_left(2) [OF assms(1,2), of w base' negative prec width]
  by (simp add: ntoa_long_sends [OF assms(3)] ntoa_long_long_sends [OF assms(4)])

theorem ntoa_left_ignores_precision_witness:
  "ntoa_long (\<lambda>c s idx maxlen. s @ [c]) 0 100 42 False 10 5 8 (FLAGS_LEFT OR FLAGS_PRECISION) [] =
      (cstr ''42      '', 8) \<and>
    ntoa_long_long (\<lambda>c s idx maxlen. s @ [c]) 0 100 0 False 10 5 3 (FLAGS_LEFT OR FLAGS_PRECISION) [] = (cstr ''   '', 3)"
proof -
  have f: "has (FLAGS_LEFT OR FLAGS_PRECISION) FLAGS_LEFT" "\<not> has (FLAGS_LEFT OR FLAGS_PRECISION) FLAGS_HASH"
    "(FLAGS_LEFT OR FLAGS_PRECISION) AND NOT FLAGS_PRECISION = FLAGS_LEFT"
    by (simp_all add: has_def flag_defs)
  note same = ntoa_left_ignores_precision [OF f(1,2), of 10 10, where out = "\<lambda>c s idx maxlen. s @ [c]" and
      idx = 0 and maxlen = 100 and negative = False and prec = 5 and s = "[]"]
  have "ntoa_long (\<lambda>c s idx maxlen. s @ [c]) 0 100 42 False 10 0 8 FLAGS_LEFT [] = (cstr ''42      '', 8)"
    "ntoa_long_long (\<lambda>c s idx maxlen. s @ [c]) 0 100 0 False 10 0 3 (FLAGS_LEFT OR FLAGS_PRECISION) [] = (cstr ''   '', 3)"
    by code_simp+
  then show ?thesis using same [of 42 8 0] same [of 0 3 0] by (simp add: f(3))
qed

end
