(* ===== verification/Directive_Integer.thy ===== *)
theory Directive_Integer
  imports Directive Ntoa_Standard
begin

text \<open>
  The integer directives of \<^verbatim>\<open>libc/stdio.c\<close> against the C standard (C11, 7.21.6.1): what a
  directive with its flags, width, precision and length field is to print for an argument, and that
  the parser, the conversion and the output together print it.
\<close>

section \<open>What a directive asks for\<close>

definition radix :: "u8 \<Rightarrow> nat" where
  "radix c = (if c \<in> {ch CHR ''x'', ch CHR ''X''} then 16 else if c = ch CHR ''o'' then 8
     else if c = ch CHR ''b'' then 2 else 10)"

text \<open>The value of an argument, converted to the type that the length field and the specifier name.\<close>

definition word_value :: "bool \<Rightarrow> 'w::len word \<Rightarrow> int" where
  "word_value sg w = (if sg then sint w else uint w)"

fun argument_value :: "bool \<Rightarrow> length_field \<Rightarrow> va_arg \<Rightarrow> int option" where
  "argument_value sg Char_hh (VWord w) = Some (word_value sg (ucast w :: u8))"
| "argument_value sg Short_h (VWord w) = Some (word_value sg (ucast w :: u16))"
| "argument_value sg LongLong_ll (VLongLong l) = Some (word_value sg l)"
| "argument_value sg Intmax_j (VLongLong l) = Some (word_value sg l)"
| "argument_value sg l (VWord w) = (if l \<in> {LongLong_ll, Intmax_j} then None else Some (word_value sg w))"
| "argument_value sg l a = None"

definition standard_sign :: "directive \<Rightarrow> bool \<Rightarrow> int \<Rightarrow> u8 list" where
  "standard_sign d sg v = (if \<not> sg then [] else if v < 0 then cstr ''-''
     else if PlusSign \<in> set (dflags d) then cstr ''+'' else if SpaceSign \<in> set (dflags d) then cstr '' '' else [])"

definition standard_integer :: "directive \<Rightarrow> u8 \<Rightarrow> int \<Rightarrow> u8 list" where
  "standard_integer d c v =
     standard_field (LeftAlign \<in> set (dflags d) \<or> negative_star (dwidth d)) (ZeroPad \<in> set (dflags d))
       (width_value (dwidth d)) (precision_value (dprecision d))
       (standard_sign d (c \<in> {ch CHR ''d'', ch CHR ''i''}) v)
       (standard_digits (precision_value (dprecision d)) (radix c) (c = ch CHR ''X'') (nat \<bar>v\<bar>))"

section \<open>The conversion\<close>

text \<open>The flags with which the conversion is called.\<close>

lemma bit_int_flags:
  assumes "\<not> has flags FLAGS_HASH" "n < 32"
  shows "bit (int_flags c flags) n \<longleftrightarrow> (bit flags n \<or> c = ch CHR ''X'' \<and> n = 5) \<and> (is_signed c \<or> n \<noteq> 2 \<and> n \<noteq> 3) \<and>
    (bit flags 10 \<longrightarrow> n \<noteq> 0)"
proof -
  have m: "bit FLAGS_UPPERCASE n \<longleftrightarrow> n = 5" "bit FLAGS_PLUS n \<longleftrightarrow> n = 2" "bit FLAGS_SPACE n \<longleftrightarrow> n = 3"
    "bit FLAGS_ZEROPAD n \<longleftrightarrow> n = 0"
    unfolding flag_defs bit_or_iff bit_push_bit_iff bit_1_iff using assms(2) by auto
  define g where "g = (if c = ch CHR ''X'' then flags OR FLAGS_UPPERCASE else flags)"
  define h where "h = (if \<not> is_signed c then g AND NOT (FLAGS_PLUS OR FLAGS_SPACE) else g)"
  have i: "int_flags c flags = (if has h FLAGS_PRECISION then h AND NOT FLAGS_ZEROPAD else h)"
    by (simp only: int_flags_def Let_def and_not_unset [OF assms(1)] h_def g_def if_cancel)
  have g: "bit g n \<longleftrightarrow> bit flags n \<or> c = ch CHR ''X'' \<and> n = 5" by (simp add: g_def bit_or_iff m)
  have h: "bit h n \<longleftrightarrow> bit g n \<and> (is_signed c \<or> n \<noteq> 2 \<and> n \<noteq> 3)"
    using assms(2) by (simp add: h_def bit_and_iff bit_or_iff bit_not_iff m)
  have "has h FLAGS_PRECISION \<longleftrightarrow> bit flags 10"
    unfolding has_iff_bit
    by (simp add: h_def g_def bit_or_iff bit_and_iff bit_not_iff)
      (simp add: flag_defs bit_push_bit_iff bit_1_iff del: push_bit_of_1)
  then have "bit (int_flags c flags) n \<longleftrightarrow> bit h n \<and> (bit flags 10 \<longrightarrow> n \<noteq> 0)"
    using assms(2) by (simp add: i bit_and_iff bit_not_iff m)
  then show ?thesis unfolding h g by simp
qed

lemma has_int_flags:
  assumes "HashSign \<notin> set (dflags d)"
  shows "has (int_flags c (directive_flags d)) FLAGS_ZEROPAD \<longleftrightarrow> ZeroPad \<in> set (dflags d) \<and> dprecision d = None"
    and "has (int_flags c (directive_flags d)) FLAGS_LEFT \<longleftrightarrow> LeftAlign \<in> set (dflags d) \<or> negative_star (dwidth d)"
    and "has (int_flags c (directive_flags d)) FLAGS_PLUS \<longleftrightarrow> is_signed c \<and> PlusSign \<in> set (dflags d)"
    and "has (int_flags c (directive_flags d)) FLAGS_SPACE \<longleftrightarrow> is_signed c \<and> SpaceSign \<in> set (dflags d)"
    and "\<not> has (int_flags c (directive_flags d)) FLAGS_HASH"
    and "has (int_flags c (directive_flags d)) FLAGS_UPPERCASE \<longleftrightarrow> c = ch CHR ''X''"
    and "has (int_flags c (directive_flags d)) FLAGS_CHAR \<longleftrightarrow> dlength d = Char_hh"
    and "has (int_flags c (directive_flags d)) FLAGS_SHORT \<longleftrightarrow> dlength d = Char_hh \<or> dlength d = Short_h"
    and "has (int_flags c (directive_flags d)) FLAGS_LONG \<longleftrightarrow> dlength d \<in> {Long_l, LongLong_ll, Ptrdiff_t, Size_z}"
    and "has (int_flags c (directive_flags d)) FLAGS_LONG_LONG \<longleftrightarrow> dlength d = LongLong_ll \<or> dlength d = Intmax_j"
    and "has (int_flags c (directive_flags d)) FLAGS_PRECISION \<longleftrightarrow> dprecision d \<noteq> None"
  using assms bit_int_flags [of "directive_flags d" _ c] has_directive_flags(5) [of d]
  unfolding has_iff_bit by (auto simp: has_directive_flags [unfolded has_iff_bit, unfolded One_nat_def])

lemma sign_text_int_flags:
  assumes "HashSign \<notin> set (dflags d)" "negative \<longleftrightarrow> is_signed c \<and> v < 0"
  shows "sign_text negative (int_flags c (directive_flags d)) = standard_sign d (is_signed c) v"
  using assms(2) by (simp add: sign_text_def standard_sign_def has_int_flags [OF assms(1)])

text \<open>
  The directives that the code prints as the standard asks: without the flag \<open>#\<close>, without a negative
  precision argument, with left alignment only without a precision, with a precision below 32 and
  a zero-padded field of at most 32 characters.
\<close>

definition standard_directive :: "directive \<Rightarrow> bool" where
  "standard_directive d \<longleftrightarrow> wf_directive d \<and> HashSign \<notin> set (dflags d) \<and> width_value (dwidth d) < 2 ^ 32 \<and>
     (case dprecision d of
        None \<Rightarrow> ZeroPad \<in> set (dflags d) \<and> LeftAlign \<notin> set (dflags d) \<and> \<not> negative_star (dwidth d) \<longrightarrow>
          width_value (dwidth d) \<le> 32
      | Some a \<Rightarrow> \<not> negative_star a \<and> the (precision_value (Some a)) < 32 \<and>
          LeftAlign \<notin> set (dflags d) \<and> \<not> negative_star (dwidth d))"

lemma standard_directive_precision:
  assumes "standard_directive d"
  shows "precision_given (int_flags c (directive_flags d)) (precision_of (dprecision d)) = precision_value (dprecision d)"
    and "unat (precision_of (dprecision d)) < 32"
proof -
  have h: "HashSign \<notin> set (dflags d)" using assms by (simp add: standard_directive_def)
  have "precision_given (int_flags c (directive_flags d)) (precision_of (dprecision d)) = precision_value (dprecision d) \<and>
    unat (precision_of (dprecision d)) < 32"
  proof (cases "dprecision d")
    case None
    then show ?thesis using has_int_flags(11) [OF h] by (simp add: precision_given_def)
  next
    case (Some a)
    then have "\<not> negative_star a" "the (precision_value (Some a)) < 32"
      using assms by (simp_all add: standard_directive_def)
    moreover from this(1) obtain p where "precision_value (Some a) = Some p" by (rule precision_value_Some)
    ultimately show ?thesis
      using Some precision_of_value [of "dprecision d" p] has_int_flags(11) [OF h, of c]
      by (simp add: precision_given_def)
  qed
  then show "precision_given (int_flags c (directive_flags d)) (precision_of (dprecision d)) = precision_value (dprecision d)"
    "unat (precision_of (dprecision d)) < 32" by simp_all
qed

lemma radix_base: "unat (int_base c) = radix c" "unat (ucast (int_base c) :: u64) = radix c"
  by (simp_all add: int_base_def radix_def)

lemma length_notation:
  assumes "n < 2 ^ 64" "c = ch CHR ''b'' \<Longrightarrow> n < 2 ^ 32"
  shows "length (notation_of (radix c) upper n) \<le> (if c = ch CHR ''b'' then 32 else 22)"
proof -
  have "n < 10 ^ 22" "n < 8 ^ 22" "n < 16 ^ 22" using assms(1) by simp_all
  then have "length (nat_digits (radix c) n) \<le> (if c = ch CHR ''b'' then 32 else 22)"
    using assms(2) by (auto simp: radix_def intro!: length_nat_digits)
  then show ?thesis by (simp add: notation_of_def)
qed

lemma directive_ntoa_text:
  fixes x :: "'w::len word"
  assumes d: "standard_directive d" and base: "unat base = radix c"
    and v: "unat x = nat \<bar>v\<bar>" "negative \<longleftrightarrow> is_signed c \<and> v < 0" "unat x < 2 ^ 64"
    and b: "c = ch CHR ''b'' \<Longrightarrow> unat x < 2 ^ 32"
  shows "ntoa_text x base negative (precision_of (dprecision d)) (width_of (dwidth d)) (int_flags c (directive_flags d)) =
    standard_integer d c v"
proof -
  let ?f = "int_flags c (directive_flags d)" and ?p = "precision_of (dprecision d)" and ?w = "width_of (dwidth d)"
  have h: "HashSign \<notin> set (dflags d)" and w: "unat ?w = width_value (dwidth d)"
    using d width_of_value by (auto simp: standard_directive_def)
  note f = has_int_flags [OF h, of c]
  note p = standard_directive_precision [OF d]
  have r: "2 \<le> unat base" "unat base \<le> 36" by (simp_all add: base radix_def)
  have l: "length (notation_of (radix c) (has ?f FLAGS_UPPERCASE) (unat x)) \<le> (if c = ch CHR ''b'' then 32 else 22)"
    by (intro length_notation v(3) b)
  have s: "sign_text negative ?f = standard_sign d (is_signed c) v" by (rule sign_text_int_flags [OF h v(2)])
  then have "length (sign_text negative ?f) \<le> (if c = ch CHR ''b'' then 0 else 1)"
    by (auto simp: standard_sign_def is_signed_def)
  then have "standard_call negative (radix c) (unat x) ?p ?w ?f"
    using d l p(2) f w
    by (auto simp: standard_call_def fits_buffer_def standard_directive_def split: option.splits if_splits)
  then have "ntoa_text x base negative ?p ?w ?f = standard_text negative (radix c) (unat x) ?p ?w ?f"
    using ntoa_text_standard [OF r] by (simp only: base)
  also have "\<dots> = standard_integer d c v"
  proof -
    have "dprecision d = None \<longleftrightarrow> precision_value (dprecision d) = None"
      using d by (cases "dprecision d") (auto simp: standard_directive_def elim: precision_value_Some)
    then have "(ZeroPad \<in> set (dflags d) \<and> dprecision d = None) \<and> precision_value (dprecision d) = None \<longleftrightarrow>
        ZeroPad \<in> set (dflags d) \<and> precision_value (dprecision d) = None" by blast
    moreover have "is_signed c \<longleftrightarrow> c \<in> {ch CHR ''d'', ch CHR ''i''}" by (auto simp: is_signed_def)
    ultimately show ?thesis
      by (simp only: standard_text_def standard_integer_def p(1) w s f v(1) base standard_field_def)
  qed
  finally show ?thesis .
qed

lemma int_arg_value:
  assumes "HashSign \<notin> set (dflags d)" "argument_value sg (dlength d) (VWord w) = Some v" "sg \<longleftrightarrow> is_signed c"
  shows "v = word_value sg (if has (int_flags c (directive_flags d)) FLAGS_LONG then w
    else if sg then int_arg (int_flags c (directive_flags d)) w else uint_arg (int_flags c (directive_flags d)) w)"
    and "\<not> has (int_flags c (directive_flags d)) FLAGS_LONG_LONG"
  using assms(2)
  by (cases "dlength d"; auto simp: has_int_flags [OF assms(1)] int_arg_def uint_arg_def word_value_def
      sint_up_scast uint_up_ucast is_up)+

lemma signed_or_unsigned_text:
  fixes x :: "'w::len word"
  assumes d: "standard_directive d" and v: "v = word_value (is_signed c) x"
    and w: "unat (ucast (int_base c) :: 'w word) = radix c" "LENGTH('w) \<le> 64"
    and b: "c = ch CHR ''b'' \<Longrightarrow> v < 2 ^ 32"
  shows "(if is_signed c then signed_text x (int_base c) (precision_of (dprecision d)) (width_of (dwidth d)) (int_flags c (directive_flags d))
      else unsigned_text x (int_base c) (precision_of (dprecision d)) (width_of (dwidth d)) (int_flags c (directive_flags d))) =
    standard_integer d c v"
proof -
  have y: "unat y < 2 ^ 64" for y :: "'w word"
    by (rule less_le_trans [OF unsigned_less power_increasing [OF w(2)]]) simp
  note ntoa = directive_ntoa_text [OF d w(1), where v = v]
  show ?thesis
  proof (cases "is_signed c")
    case True
    then have "c \<noteq> ch CHR ''b''" by (auto simp: is_signed_def)
    then show ?thesis
      using True v ntoa [of "magnitude x" "sint x < 0"] y [of "magnitude x"]
      by (simp add: signed_text_def word_value_def unat_magnitude)
  next
    case False
    then have "v = uint x" using v by (simp add: word_value_def)
    moreover from this have "c = ch CHR ''b'' \<Longrightarrow> unat x < 2 ^ 32" using b
      by (intro of_nat_less_imp_less [where 'a = int]) simp
    ultimately show ?thesis
      using False ntoa [of x False] y by (simp add: unsigned_text_def)
  qed
qed

lemma integer_piece:
  assumes d: "standard_directive d" and c: "c \<in> set (cstr ''diuxXob'')"
    and v: "argument_value (is_signed c) (dlength d) a = Some v" "c = ch CHR ''b'' \<Longrightarrow> v < 2 ^ 32"
  shows "piece_text (Conv d c [a]) = Some (standard_integer d c v)"
proof -
  let ?f = "int_flags c (directive_flags d)"
  have h: "HashSign \<notin> set (dflags d)" using d by (simp add: standard_directive_def)
  have "conv_int_text c (directive_flags d) (width_of (dwidth d)) (precision_of (dprecision d)) [a] =
    Some (standard_integer d c v, [])"
  proof (cases a)
    case (VWord w)
    note x = int_arg_value [OF h v(1) [unfolded VWord] refl]
    show ?thesis
      using signed_or_unsigned_text [OF d x(1) _ _ v(2)] x(2) radix_base(1)
      by (auto simp: conv_int_text_def Let_def VWord)
  next
    case (VLongLong l)
    then have "has ?f FLAGS_LONG_LONG" "v = word_value (is_signed c) l"
      using v(1) by (cases "dlength d"; simp add: has_int_flags [OF h])+
    then show ?thesis
      using signed_or_unsigned_text [OF d _ radix_base(2) _ v(2)] by (simp add: conv_int_text_def Let_def VLongLong)
  qed (use v(1) in \<open>cases "dlength d"; simp\<close>)+
  then show ?thesis using c by (simp only: piece_text.simps convert_text_def if_True) simp
qed

section \<open>What is printed\<close>

lemma notation_of_no_zero:
  assumes "2 \<le> base" "base \<le> 36"
  shows "0 \<notin> set (notation_of base upper n)"
proof -
  have "digit_sign upper k \<noteq> 0" if "k \<in> set (nat_digits base n)" for k
  proof -
    have k: "k < 36" using nat_digits_less [OF assms(1) that] assms(2) by simp
    have "unat (digit_sign upper k) \<noteq> 0"
      using k unat_of_nat [of k, where 'a = 8] unat_of_nat [of "k - 10", where 'a = 8]
      by (auto simp: digit_sign_def unat_word_ariths)
    then show ?thesis by auto
  qed
  then show ?thesis unfolding notation_of_def set_rev set_map by (metis imageE)
qed

lemma standard_field_no_zero:
  assumes "0 \<notin> set sign" "0 \<notin> set ds"
  shows "0 \<notin> set (standard_field left zero width prec sign ds)"
  using assms by (simp add: standard_field_def Let_def)

lemma standard_integer_no_zero: "filter (\<lambda>c. c \<noteq> 0) (standard_integer d c v) = standard_integer d c v"
proof -
  have "0 \<notin> set (notation_of (radix c) upper n)" for upper n
    by (rule notation_of_no_zero) (simp_all add: radix_def)
  then have "0 \<notin> set (standard_digits prec (radix c) upper n)" for prec upper n
    by (cases prec) (simp_all add: standard_digits_def)
  moreover have "0 \<notin> set (standard_sign d sg v)" for sg by (simp add: standard_sign_def)
  ultimately have "0 \<notin> set (standard_integer d c v)"
    unfolding standard_integer_def by (intro standard_field_no_zero)
  then show ?thesis unfolding filter_id_conv by metis
qed

text \<open>
  C15: \<open>printf\<close> with any of the integer specifiers, any length field and an argument of the type it
  names, between two literal texts, prints what the C standard asks for: the value converted to
  that type, in the base of the specifier, with the sign, the precision, and the padding on the side
  and with the character that the flags ask for. Excluded are: the flag \<open>#\<close>; a precision together
  with left alignment; a negative precision argument; a precision of 32 and more; a zero-padded
  field of more than 32 characters; a width of 2^32 and more; and \<open>%b\<close>, which is not in the standard, of numbers from 2^32 on.
\<close>

theorem printf_integer_standard:
  assumes "standard_directive d" "c \<in> set (cstr ''diuxXob'')" "literal cs" "literal ds"
    and "argument_value (c \<in> {ch CHR ''d'', ch CHR ''i''}) (dlength d) a = Some v" "c = ch CHR ''b'' \<Longrightarrow> v < 2 ^ 32"
  shows "printf (cs @ ch CHR ''%'' # show_directive d @ c # ds) (directive_args d @ [a]) s =
    (let text = cs @ standard_integer d c v @ ds in Some (fold tty_putc text s, of_nat (length text)))"
proof -
  let ?ps = "[Text cs, Conv d c [a], Text ds]"
  have "show_pieces ?ps = cs @ ch CHR ''%'' # show_directive d @ c # ds" "pieces_args ?ps = directive_args d @ [a]"
    by (simp_all add: show_pieces_def pieces_args_def)
  moreover have "list_all wf_piece ?ps" using assms(1-4) by (auto simp: standard_directive_def field_chars_def)
  moreover have "is_signed c \<longleftrightarrow> c \<in> {ch CHR ''d'', ch CHR ''i''}" by (auto simp: is_signed_def)
  then have "pieces_text ?ps = Some (cs @ standard_integer d c v @ ds)"
    using integer_piece [OF assms(1,2) _ assms(6), of a] assms(5) by (simp del: piece_text.simps(2))
  ultimately show ?thesis
    using format_text_pieces [of ?ps] by (simp add: printf_sends standard_integer_no_zero literal_no_zero assms(3,4) Let_def)
qed

theorem printf_integer_standard_witness:
  "\<forall>s :: tty. printf (cstr ''[%+*.4hhd]'') [VWord 8, VWord 0x180] s = Some (fold tty_putc (cstr ''[   -0128]'') s, 10)"
proof
  fix s :: tty
  let ?d = "\<lparr> dflags = [PlusSign], dwidth = Star 8, dprecision = Some (Number 4), dlength = Char_hh \<rparr>"
  have "standard_directive ?d" by (simp add: standard_directive_def wf_directive_def)
  moreover have "argument_value True (dlength ?d) (VWord 0x180) = Some (- 128)" by (simp add: word_value_def)
  moreover have "literal (cstr ''['')" "literal (cstr '']'')" by (simp_all add: literal_def)
  moreover have "show_directive ?d = cstr ''+*.4hh''" "directive_args ?d = [VWord 8]"
    by (simp_all add: show_directive_def directive_args_def decimal_def nat_digits.simps)
  moreover have "standard_integer ?d (ch CHR ''d'') (- 128) = cstr ''   -0128''"
  proof -
    have "nat_digits 10 128 = [8, 2, 1]" by (simp add: nat_digits.simps)
    then show ?thesis
      by (simp add: standard_integer_def standard_field_def standard_digits_def standard_sign_def radix_def
          notation_of_def digit_sign_def eval_simps Let_def)
  qed
  ultimately show "printf (cstr ''[%+*.4hhd]'') [VWord 8, VWord 0x180] s = Some (fold tty_putc (cstr ''[   -0128]'') s, 10)"
    using printf_integer_standard [of ?d "ch CHR ''d''" "cstr ''[''" "cstr '']''" "VWord 0x180" "- 128" s] by simp
qed

section \<open>A negative precision argument\<close>

text \<open>
  C38: a negative precision argument counts as the precision zero, for every specifier, where the C
  standard takes it as if the precision were left out.
\<close>

theorem printf_negative_precision:
  assumes "wf_directive d" "c \<notin> set field_chars" "dprecision d = Some (Star w)" "sint w < 0"
  shows "printf (ch CHR ''%'' # show_directive d @ c # fmt) (directive_args d @ va) s =
    (let d' = d \<lparr> dprecision := Some Absent \<rparr>
     in printf (ch CHR ''%'' # show_directive d' @ c # fmt) (directive_args d' @ va) s)"
proof -
  let ?d = "d \<lparr> dprecision := Some Absent \<rparr>"
  have "wf_directive ?d" "directive_flags ?d = directive_flags d" "dwidth ?d = dwidth d"
    "precision_of (dprecision ?d) = precision_of (dprecision d)"
    using assms(1,3,4) by (simp_all add: wf_directive_def directive_flags_def)
  then have "eval_fields (show_directive ?d @ c # fmt) (directive_args ?d @ va) =
      eval_fields (show_directive d @ c # fmt) (directive_args d @ va)"
    using eval_fields_show [OF assms(1,2)] eval_fields_show [of ?d, OF _ assms(2)] by simp
  then show ?thesis by (simp add: printf_sends Let_def)
qed

theorem printf_negative_precision_witness:
  "\<forall>s :: tty. printf (cstr ''%.*d|'') [VWord (- 1), VWord 0] s = Some (fold tty_putc (cstr ''|'') s, 1)"
proof
  fix s :: tty
  let ?d = "\<lparr> dflags = [], dwidth = Absent, dprecision = Some (Star (- 1)), dlength = NoLength \<rparr>"
  have "printf (cstr ''%.*d|'') [VWord (- 1), VWord 0] s = printf (cstr ''%.d|'') [VWord 0] s"
    using printf_negative_precision [of ?d "ch CHR ''d''" "- 1" "cstr ''|''" "[VWord 0]" s]
    by (simp add: wf_directive_def field_chars_def show_directive_def directive_args_def)
  also have "\<dots> = Some (fold tty_putc (cstr ''|'') s, 1)"
  proof -
    let ?ps = "[Conv (?d \<lparr> dprecision := Some Absent \<rparr>) (ch CHR ''d'') [VWord 0], Text (cstr ''|'')]"
    have "show_pieces ?ps = cstr ''%.d|''" "pieces_args ?ps = [VWord 0]"
      by (simp_all add: show_pieces_def pieces_args_def show_directive_def directive_args_def)
    moreover have "list_all wf_piece ?ps" by (simp add: wf_directive_def field_chars_def literal_def)
    moreover have "pieces_text ?ps = Some (cstr ''|'')" by code_simp
    ultimately have "format_text (cstr ''%.d|'') [VWord 0] = Some (cstr ''|'')"
      using format_text_pieces [of ?ps "cstr ''|''"] by (simp only:)
    then show ?thesis by (simp add: printf_sends)
  qed
  finally show "printf (cstr ''%.*d|'') [VWord (- 1), VWord 0] s = Some (fold tty_putc (cstr ''|'') s, 1)" .
qed

end
