(* ===== verification/Directive_String.thy ===== *)
theory Directive_String
  imports Directive Ntoa_Standard
begin

text \<open>
  The directives \<open>%s\<close> and \<open>%c\<close> of \<^verbatim>\<open>libc/stdio.c\<close> against the C standard (C11, 7.21.6.1), from
  the format to the printed text.
\<close>

section \<open>What a directive asks for\<close>

text \<open>
  The characters up to the terminating zero, no more of them than the precision, or the one
  character of the argument; padded with spaces to the width. This is the standard's text of the
  directives without a length field; the wide characters of \<open>%ls\<close> and \<open>%lc\<close> are left out.
\<close>

definition standard_string :: "nat option \<Rightarrow> u8 list \<Rightarrow> u8 list" where
  "standard_string prec str = (let body = takeWhile (\<lambda>c. c \<noteq> 0) str
     in case prec of None \<Rightarrow> body | Some n \<Rightarrow> take n body)"

definition standard_body :: "directive \<Rightarrow> u8 \<Rightarrow> va_arg \<Rightarrow> u8 list option" where
  "standard_body d c a = (case a of
     VStr p str \<Rightarrow> if c = ch CHR ''s'' then Some (standard_string (precision_value (dprecision d)) str) else None
   | VWord w \<Rightarrow> if c = ch CHR ''c'' then Some [ucast w] else None
   | _ \<Rightarrow> None)"

definition padded_field :: "directive \<Rightarrow> u8 list \<Rightarrow> u8 list" where
  "padded_field d body =
     standard_field (LeftAlign \<in> set (dflags d) \<or> negative_star (dwidth d)) False (width_value (dwidth d)) None [] body"

section \<open>The conversion\<close>

lemma string_text_take:
  "string_text flags prec str = standard_string (if has flags FLAGS_PRECISION then Some (unat prec) else None) str"
proof (induction flags prec str rule: string_text.induct)
  case (2 flags prec c str)
  have "unat prec = Suc (unat (prec - 1))" if "prec \<noteq> 0" using that by (simp add: unat_minus_one unat_gt_0)
  with 2 show ?case by (auto simp: standard_string_def)
qed (simp add: standard_string_def split: option.split)

lemma string_length_text:
  assumes "length str < 2 ^ 32" "\<not> has flags FLAGS_PRECISION \<Longrightarrow> prec = 0"
  shows "unat (string_length flags prec str) = length (string_text flags prec str)"
proof -
  have "length (takeWhile (\<lambda>c. c \<noteq> 0) str) \<le> length str" by (rule length_takeWhile_le)
  moreover have "unat (- 1 :: u32) = 2 ^ 32 - 1" by (simp add: unsigned_minus_1_eq_mask mask_eq_exp_minus_1)
  ultimately show ?thesis
    using assms strnlen_s_correct [OF assms(1), of prec] strnlen_s_correct [OF assms(1), of "- 1"]
    by (auto simp: string_length_def string_text_take standard_string_def Let_def min_def word_less_nat_alt)
qed

text \<open>The precision is not a negative argument, and the numbers fit \<open>unsigned int\<close>.\<close>

definition standard_amounts :: "directive \<Rightarrow> bool" where
  "standard_amounts d \<longleftrightarrow> width_value (dwidth d) < 2 ^ 32 \<and>
     (case dprecision d of None \<Rightarrow> True | Some a \<Rightarrow> \<not> negative_star a \<and> the (precision_value (Some a)) < 2 ^ 32)"

lemma standard_amounts_precision:
  assumes "standard_amounts d"
  shows "(if dprecision d \<noteq> None then Some (unat (precision_of (dprecision d))) else None) = precision_value (dprecision d)"
proof (cases "dprecision d")
  case (Some a)
  then have "\<not> negative_star a" "the (precision_value (Some a)) < 2 ^ 32"
    using assms by (simp_all add: standard_amounts_def)
  moreover from this(1) obtain p where "precision_value (Some a) = Some p" by (rule precision_value_Some)
  ultimately show ?thesis using Some precision_of_value [of "dprecision d" p] by simp
qed simp

lemma padded_standard:
  assumes "standard_amounts d" "unat l = length body"
  shows "padded (directive_flags d) (width_of (dwidth d)) l body = padded_field d body"
  using assms width_of_value [of "dwidth d"]
  by (auto simp: padded_def padded_field_def standard_field_def has_directive_flags standard_amounts_def Let_def)

lemma text_piece:
  assumes "standard_amounts d" "standard_body d c a = Some body" "\<And>p str. a = VStr p str \<Longrightarrow> length str < 2 ^ 32"
  shows "piece_text (Conv d c [a]) = Some (padded_field d body)"
proof (cases a)
  case (VWord w)
  then have c: "c = ch CHR ''c''" "body = [ucast w]" using assms(2) by (auto simp: standard_body_def split: if_splits)
  show ?thesis using padded_standard [OF assms(1), of 1 body] by (simp add: c VWord convert_text_def conv_char_text_def)
next
  case (VStr p str)
  then have c: "c = ch CHR ''s''" "body = standard_string (precision_value (dprecision d)) str"
    using assms(2) by (auto simp: standard_body_def split: if_splits)
  let ?fl = "directive_flags d" and ?p = "precision_of (dprecision d)"
  have "string_text ?fl ?p str = body"
    by (simp only: string_text_take has_directive_flags standard_amounts_precision [OF assms(1)] c)
  moreover have "unat (string_length ?fl ?p str) = length (string_text ?fl ?p str)"
    by (rule string_length_text [OF assms(3) [OF VStr]]) (simp add: has_directive_flags)
  ultimately show ?thesis
    using padded_standard [OF assms(1), of "string_length ?fl ?p str" body]
    by (simp add: c(1) VStr convert_text_def conv_string_text_def)
qed (use assms(2) in \<open>simp_all add: standard_body_def\<close>)

section \<open>What is printed\<close>

text \<open>
  C17: \<open>printf\<close> with \<open>%s\<close> or \<open>%c\<close>, with any flags, a width
  and a precision below 2^32, but not a negative precision argument, between two literal texts
  prints what the C standard asks for: the string up to its zero, cut to the precision, or the one
  character, with spaces up to the width on the side that the flags ask for. The length field has
  no effect (for the standard \<open>%ls\<close> and \<open>%lc\<close> take wide characters,
  which the code does not know). A zero character is counted and not printed.
\<close>

theorem printf_text_standard:
  assumes "wf_directive d" "standard_amounts d" "literal cs" "literal ds"
    and "standard_body d c a = Some body" "\<And>p str. a = VStr p str \<Longrightarrow> length str < 2 ^ 32"
  shows "printf (cs @ ch CHR ''%'' # show_directive d @ c # ds) (directive_args d @ [a]) s =
    (let text = cs @ padded_field d body @ ds in Some (fold tty_putc (filter (\<lambda>c. c \<noteq> 0) text) s, of_nat (length text)))"
proof -
  let ?ps = "[Text cs, Conv d c [a], Text ds]"
  have "show_pieces ?ps = cs @ ch CHR ''%'' # show_directive d @ c # ds" "pieces_args ?ps = directive_args d @ [a]"
    by (simp_all add: show_pieces_def pieces_args_def)
  moreover have "c \<in> {ch CHR ''s'', ch CHR ''c''}"
    using assms(5) by (auto simp: standard_body_def split: va_arg.splits if_splits)
  then have "list_all wf_piece ?ps" using assms(1,3,4) by (auto simp: field_chars_def)
  moreover have "pieces_text ?ps = Some (cs @ padded_field d body @ ds)"
    using text_piece [OF assms(2,5,6)] by (simp del: piece_text.simps(2))
  ultimately show ?thesis using format_text_pieces [of ?ps] by (simp add: printf_sends Let_def)
qed

theorem printf_text_standard_witness:
  "\<forall>s :: tty. printf (cstr ''<%-*.3s>'') [VWord 5, VStr 0x100000 (cstr ''kernel'' @ [0])] s =
     Some (fold tty_putc (cstr ''<ker  >'') s, 7)"
proof
  fix s :: tty
  let ?d = "\<lparr> dflags = [LeftAlign], dwidth = Star 5, dprecision = Some (Number 3), dlength = NoLength \<rparr>"
  have "wf_directive ?d" "standard_amounts ?d" by (simp_all add: wf_directive_def standard_amounts_def)
  moreover have "literal (cstr ''<'')" "literal (cstr ''>'')" by (simp_all add: literal_def)
  moreover have "show_directive ?d = cstr ''-*.3''" "directive_args ?d = [VWord 5]"
    by (simp_all add: show_directive_def directive_args_def decimal_def nat_digits.simps)
  moreover have "standard_body ?d (ch CHR ''s'') (VStr 0x100000 (cstr ''kernel'' @ [0])) = Some (cstr ''ker'')"
    by (simp add: standard_body_def standard_string_def)
  moreover have "padded_field ?d (cstr ''ker'') = cstr ''ker  ''"
    by (simp add: padded_field_def standard_field_def eval_simps)
  ultimately show "printf (cstr ''<%-*.3s>'') [VWord 5, VStr 0x100000 (cstr ''kernel'' @ [0])] s =
      Some (fold tty_putc (cstr ''<ker  >'') s, 7)"
    using printf_text_standard [of ?d "cstr ''<''" "cstr ''>''" "ch CHR ''s''" "VStr 0x100000 (cstr ''kernel'' @ [0])" "cstr ''ker''" s]
    by simp
qed

end
