(* ===== verification/Spec2Isabelle.thy ===== *)
theory Spec2Isabelle
  imports Kernel_Runs Directive_Float Directive_Integer Directive_String
begin

text \<open>
  chp-os is a small kernel for i686 machines that a multiboot loader starts, with a libc of its
  own. This development models its C code and the assembly the C code calls, and proves what the
  parts promise each other and what the boot sequence as a whole does.

  \<^bold>\<open>The program.\<close> \<^verbatim>\<open>arch/i686/start.s\<close> sets up a stack and calls \<open>kernel_early_main\<close>, the
  constructors and \<open>kernel_main\<close> (\<^verbatim>\<open>kernel/src/kernel.c\<close>). The early entry point initialises the
  console (\<^verbatim>\<open>io/tty/tty.c\<close>), which draws on the memory-mapped VGA text buffer and scrolls it with
  \<open>memmove\<close> (\<^verbatim>\<open>libc/string.c\<close>). Everything is reported with \<open>printf\<close> (\<^verbatim>\<open>libc/stdio.c\<close>), which
  sends each character to an output function, for the kernel the console. \<open>kernel_main\<close> tests the
  memory routines, installs the segment descriptors (\<^verbatim>\<open>system/segment.c\<close>) and the interrupt gates
  (\<^verbatim>\<open>system/interrupt.c\<close>, with the stubs of \<^verbatim>\<open>system/asm_bits.s\<close>), raises two software interrupts,
  and initialises the PS/2 controller (\<^verbatim>\<open>io/ps2/ps2.c\<close>) through the port instructions of
  \<^verbatim>\<open>io/arch/i686/inout.c\<close>. \<^verbatim>\<open>log/log.h\<close> and \<^verbatim>\<open>common/assert.h\<close> wrap \<open>printf\<close>.

  \<^bold>\<open>Theories.\<close> A theory with the name of a component holds its state, its data and its operations
  in the order of the code; the proofs are there or in the theories next to it.
  \<^item> \<open>Prelude\<close>: the machine types, the flat byte memory, words and regions.
  \<^item> \<open>Libc_String\<close>: \<open>memmove\<close>, \<open>memcpy\<close>, \<open>memset\<close>; the contract \<open>mover\<close> of a block move.
  \<^item> \<open>Tty\<close>, \<open>Screen\<close>: the console on the bytes of the text buffer, its contract \<open>tty_op\<close>, and the
    refinement \<open>screen_op\<close> of an abstract screen of rows of cells.
  \<^item> \<open>Out\<close>: the output functions of \<open>printf\<close>; the contracts \<open>stream_sink\<close> (console, client
    function) and \<open>buffer_sink\<close> (memory).
  \<^item> \<open>Ntoa\<close>, \<open>Ntoa_Text\<close>, \<open>Ntoa_Props\<close>: \<open>_strnlen_s\<close>, \<open>_atoi\<close>, \<open>_out_rev\<close> and the integer
    conversions on their 32-byte buffer; the same as functions on texts; digits and notation.
    \<open>Ntoa_Standard\<close>: what the C standard asks of an integer conversion, where the code meets it
    and where it does not.
  \<^item> \<open>Dbl\<close>: the floating-point arithmetic GCC uses for i686; \<open>Ftoa\<close>, \<open>Ftoa_Text\<close>, \<open>Ftoa_Props\<close>:
    \<open>_ftoa\<close> and \<open>_etoa\<close>, their texts and their properties. \<open>Dbl_Real\<close>: the operations as
    approximations of the real ones, with rules for their rounding errors; \<open>Etoa_Real\<close>,
    \<open>Ftoa_Total\<close>: the estimates of \<open>_etoa\<close> followed with their errors, and why the mutual calls of
    the two functions end. \<open>Dbl_Exact\<close>, \<open>Ftoa_Exact\<close>: the steps of \<open>_ftoa\<close> that are exact, the one
    that is not, and how close the printed number is to the value.
  \<^item> \<open>Vsnprintf\<close>, \<open>Vsnprintf_Text\<close>, \<open>Vsnprintf_Props\<close>: \<open>_vsnprintf\<close> and the functions of
    \<^verbatim>\<open>stdio.h\<close>; \<open>format_text\<close>, the text a format and its arguments denote; what the functions do
    with that text. \<open>Directive\<close>: the syntax of directives and formats, written out and read back;
    \<open>Directive_Integer\<close>, \<open>Directive_String\<close>: the directives of integers, strings and characters from
    the format to the text the C standard asks for;
    \<open>Directive_Float\<close>: \<open>%f\<close> from the format to the printed number.
  \<^item> \<open>Log\<close>: log level, \<open>LOG_DEBUG\<close>, assertions; the contracts \<open>kernel_op\<close> (defined, keeps the
    console well-formed, writes no memory but the text buffer) and \<open>printing_op\<close>.
  \<^item> \<open>Segment\<close>, \<open>Interrupt\<close>: descriptors and gates, the tables, the registers that the assembly
    loads, and what the processor reads back from them.
  \<^item> \<open>Ps2\<close>, \<open>Ps2_Props\<close>: the driver over an arbitrary controller; the contract \<open>port_program\<close> and
    the sequences of port accesses of every phase.
  \<^item> \<open>Kernel\<close>, \<open>Kernel_Props\<close>: the entry points and self-tests; the boot sequence, proved from the
    contracts of all the components. \<open>Kernel_Runs\<close>: the kernel after the boot sequence as a step
    relation whose steps are the calls of the components' operations; its invariant, its runs.

  \<^bold>\<open>State.\<close> The globals of a file are a record, and each component's record extends the one of the
  component it calls: \<open>tty\<close> (memory, cursor, colour), \<open>klog\<close>, \<open>seg\<close>, \<open>intr\<close>, \<open>ps2\<close>, \<open>kernel\<close>.
  Operations take a state of their record's scheme, so that the callers' globals are its more
  part, and the frame facts say that it is unchanged. Memory is a function from 32-bit addresses
  to bytes; globals whose address the code uses have it as a field. C integers are words of their
  width, except the \<open>int\<close> cursor of the console and the \<open>int\<close> index of \<open>memmove\<close>, which are
  integers with their conversions written out. Undefined behaviour is \<open>None\<close>, with one
  exception: \<open>idt_init\<close> stores one gate too many, and the store goes to the eight bytes of memory
  behind the table (\<open>idt_tail\<close>), which the frame statements of the boot sequence and of the
  kernel's runs name. Where an operation writes into memory is proved; that the linker puts no
  global into these bytes which the model keeps as a field is an assumption of the model.

  \<^bold>\<open>Parameters.\<close> The PS/2 controller is a pair of functions on a state of its own; all theorems
  about the driver hold for every controller. Where the linker puts the interrupt stubs, the
  tables and the handler, where the stack arrays of the self-tests are, and what the boot loader
  leaves in the registers are parameters as well; the hypotheses are that distinct objects have
  distinct addresses. The C functions behind handler addresses are an argument of the dispatch.

  \<^bold>\<open>Loops and fuel.\<close> Every loop is a recursive function with a measure, the polling loops with
  the code's own counters. \<open>_ftoa\<close> and \<open>_etoa\<close> call each other: \<open>_etoa\<close> scales its value into the
  range of fixed notation before it calls \<open>_ftoa\<close>, so that two nested calls of \<open>_ftoa\<close> are enough
  (\<open>FTOA_DEPTH\<close>). \<open>float_conversions_defined\<close> proves it: for every value of the type \<open>double\<close> and every
  precision up to 36 both functions have a result.

  \<^bold>\<open>What the lemmas show.\<close> The \<open>_block\<close>, \<open>_holds\<close> and \<open>_sends\<close> lemmas say what a loop or a
  routine computes, on the memory, on the conversion buffer and on the output; the \<open>_op\<close> and
  \<open>abs_\<close> lemmas put the console's operations under its contracts; the \<open>_effect\<close> lemmas of the
  kernel's components give the state after an operation and are what the boot sequence uses. The
  properties are numbered in the order of their importance.

  \<^bold>\<open>Not modelled.\<close> The multiboot header and the halt loop of \<^verbatim>\<open>start.s\<close>, the constructor tables of
  \<^verbatim>\<open>crt\<close>, the build files and the linker script. Exceptions and hardware interrupts: the kernel
  enables neither, and only \<open>int\<close> instructions reach the gates; the registers that a handler
  changes are therefore not part of the state. The dispatch of an \<open>int\<close> instruction reads the limit
  and the gate, not the descriptor of the code segment that the gate names, which \<open>gdt_flat\<close>
  describes. The sign of a floating-point zero. The stack, whose
  4096 bytes are taken to be enough.
\<close>

end
